(* ===== verification/Prelude.thy ===== *)
theory Prelude
  imports Main "HOL-Library.Sublist" "HOL-Library.Char_ord" "HOL-Library.List_Lexorder" "HOL-Library.AList"
begin

text \<open>
  Shared vocabulary of the development: results of fallible code, Rust's string operations on
  UTF-8 byte strings, decimal numbers, and lemmas on lists and stable sorting that several
  components use.

  A Rust \<open>String\<close> is a \<open>string\<close> (a list of bytes, the UTF-8 encoding). Operations that split or
  compare on ASCII characters are therefore literal translations; the two operations that
  count or classify Unicode scalar values (\<open>chars().take(n)\<close> and \<open>trim\<close>) are written out on
  the UTF-8 encoding. A fallible Rust function returns \<open>'e + 'a\<close>: \<open>Inl\<close> the error, \<open>Inr\<close> the
  value; Rust's \<open>?\<close> operator is \<open>rbind\<close>.
\<close>

named_theorems result_simps
named_theorems string_simps

section \<open>Results\<close>

fun rbind :: "'e + 'a \<Rightarrow> ('a \<Rightarrow> 'e + 'b) \<Rightarrow> 'e + 'b" where
  "rbind (Inl e) f = Inl e"
| "rbind (Inr a) f = f a"

fun of_option :: "'e \<Rightarrow> 'a option \<Rightarrow> 'e + 'a" where
  "of_option e None = Inl e"
| "of_option e (Some a) = Inr a"

text \<open>Iterating a fallible function over a list, stopping at the first error.\<close>

fun traverse :: "('a \<Rightarrow> 'e + 'b) \<Rightarrow> 'a list \<Rightarrow> 'e + 'b list" where
  "traverse f [] = Inr []"
| "traverse f (x # xs) = rbind (f x) (\<lambda>y. rbind (traverse f xs) (\<lambda>ys. Inr (y # ys)))"

text \<open>Dropping the \<open>None\<close> results of a fallible filter-map.\<close>

definition somes :: "'a option list \<Rightarrow> 'a list" where
  "somes xs = List.map_filter id xs"

lemma somes_simps [simp]:
  "somes [] = []" "somes (None # xs) = somes xs" "somes (Some x # xs) = x # somes xs"
  by (simp_all add: somes_def List.map_filter_def)

lemma somes_map_Some [simp]: "somes (map (\<lambda>x. Some (f x)) xs) = map f xs"
  by (induction xs) simp_all

lemma somes_append [simp]: "somes (xs @ ys) = somes xs @ somes ys"
  by (simp add: somes_def List.map_filter_def)

lemma set_somes: "x \<in> set (somes xs) \<longleftrightarrow> Some x \<in> set xs"
  by (induction xs) (auto simp: somes_def List.map_filter_def split: option.splits)

lemma rbind_Inr_iff [result_simps]: "rbind m f = Inr b \<longleftrightarrow> (\<exists>a. m = Inr a \<and> f a = Inr b)"
  by (cases m) simp_all

lemma rbind_Inl_iff [result_simps]:
  "rbind m f = Inl e \<longleftrightarrow> m = Inl e \<or> (\<exists>a. m = Inr a \<and> f a = Inl e)"
  by (cases m) auto

lemma of_option_Inr_iff [result_simps]: "of_option e m = Inr a \<longleftrightarrow> m = Some a"
  by (cases m) simp_all

lemma of_option_Inl_iff [result_simps]: "of_option e m = Inl e' \<longleftrightarrow> m = None \<and> e' = e"
  by (cases m) auto

lemma traverse_Inr_iff:
  "traverse f xs = Inr ys \<longleftrightarrow> list_all2 (\<lambda>x y. f x = Inr y) xs ys"
  by (induction xs arbitrary: ys) (auto simp: result_simps list_all2_Cons1)

lemma traverse_all_Inr: "(\<And>x. x \<in> set xs \<Longrightarrow> f x = Inr (g x)) \<Longrightarrow> traverse f xs = Inr (map g xs)"
  by (induction xs) simp_all

lemma traverse_InlD: "traverse f xs = Inl e \<Longrightarrow> \<exists>x\<in>set xs. f x = Inl e"
  by (induction xs) (auto simp: result_simps)

lemma traverse_members:
  "traverse f xs = Inr ys \<Longrightarrow>
   (\<forall>x\<in>set xs. \<exists>y\<in>set ys. f x = Inr y) \<and> (\<forall>y\<in>set ys. \<exists>x\<in>set xs. f x = Inr y)"
  by (induction xs arbitrary: ys) (fastforce simp: result_simps)+

lemma traverse_no_error: "(\<And>x e. x \<in> set xs \<Longrightarrow> f x \<noteq> Inl e) \<Longrightarrow> traverse f xs \<noteq> Inl e"
  using traverse_InlD by fastforce

lemma traverse_error:
  assumes "x \<in> set xs" "f x = Inl e" "\<And>y e'. f y = Inl e' \<Longrightarrow> e' = e"
  shows "traverse f xs = Inl e"
proof (cases "traverse f xs")
  case (Inl e')
  then obtain y where "f y = Inl e'" using traverse_InlD [OF Inl] by auto
  with assms(3) Inl show ?thesis by simp
next
  case (Inr ys)
  then have "\<exists>y. f x = Inr y"
    using assms(1) by (auto simp: traverse_Inr_iff list_all2_conv_all_nth in_set_conv_nth)
  with assms(2) show ?thesis by simp
qed

lemma traverse_cong [fundef_cong]:
  "xs = ys \<Longrightarrow> (\<And>x. x \<in> set ys \<Longrightarrow> f x = g x) \<Longrightarrow> traverse f xs = traverse g ys"
  by (induction xs arbitrary: ys) auto

text \<open>
  Loops over \<open>iter().enumerate()\<close> that append to a buffer: \<open>indexed\<close> when the body cannot fail,
  \<open>indexed_result\<close> when it can.
\<close>

definition indexed :: "(nat \<Rightarrow> 'a \<Rightarrow> 'b list) \<Rightarrow> 'a list \<Rightarrow> 'b list" where
  "indexed f xs = concat (map (\<lambda>(i, x). f i x) (List.enumerate 0 xs))"

definition indexed_result :: "(nat \<Rightarrow> 'a \<Rightarrow> 'e + 'b list) \<Rightarrow> 'a list \<Rightarrow> 'e + 'b list" where
  "indexed_result f xs = rbind (traverse (\<lambda>(i, x). f i x) (List.enumerate 0 xs)) (\<lambda>tss. Inr (concat tss))"

lemma in_enumerate: "(i, x) \<in> set (List.enumerate 0 xs) \<longleftrightarrow> i < length xs \<and> x = xs ! i"
  by (auto simp: in_set_enumerate_eq)

lemma in_indexed: "t \<in> set (indexed f xs) \<longleftrightarrow> (\<exists>i<length xs. t \<in> set (f i (xs ! i)))"
  by (auto simp: indexed_def in_enumerate) (metis in_enumerate)

lemma indexed_cong [fundef_cong]:
  assumes "xs = ys" "\<And>i x. i < length ys \<Longrightarrow> x = ys ! i \<Longrightarrow> f i x = g i x"
  shows "indexed f xs = indexed g ys"
proof -
  have "map (\<lambda>(i, x). f i x) (List.enumerate 0 ys) = map (\<lambda>(i, x). g i x) (List.enumerate 0 ys)"
    using assms(2) by (auto simp: in_enumerate)
  with assms(1) show ?thesis by (simp only: indexed_def)
qed

lemma indexed_result_cong [fundef_cong]:
  assumes "xs = ys" "\<And>i x. i < length ys \<Longrightarrow> x = ys ! i \<Longrightarrow> f i x = g i x"
  shows "indexed_result f xs = indexed_result g ys"
proof -
  have "traverse (\<lambda>(i, x). f i x) (List.enumerate 0 ys) = traverse (\<lambda>(i, x). g i x) (List.enumerate 0 ys)"
    using assms(2) by (intro traverse_cong refl) (auto simp: in_enumerate)
  with assms(1) show ?thesis by (simp only: indexed_result_def)
qed

lemma indexed_result_ok:
  assumes "\<And>i. i < length xs \<Longrightarrow> f i (xs ! i) = Inr (g i (xs ! i))"
  shows "indexed_result f xs = Inr (indexed g xs)"
proof -
  have "traverse (\<lambda>(i, x). f i x) (List.enumerate 0 xs) = Inr (map (\<lambda>(i, x). g i x) (List.enumerate 0 xs))"
    using assms by (intro traverse_all_Inr) (auto simp: in_enumerate)
  then show ?thesis by (simp add: indexed_result_def indexed_def)
qed

lemma indexed_result_error:
  assumes "i < length xs" "f i (xs ! i) = Inl e"
  shows "\<exists>e. indexed_result f xs = Inl e"
proof (cases "traverse (\<lambda>(i, x). f i x) (List.enumerate 0 xs)")
  case (Inr ys)
  have "(i, xs ! i) \<in> set (List.enumerate 0 xs)" using assms(1) by (simp add: in_enumerate)
  then obtain k where "k < length (List.enumerate 0 xs)" "List.enumerate 0 xs ! k = (i, xs ! i)"
    by (metis in_set_conv_nth)
  then have "f i (xs ! i) = Inr (ys ! k)"
    using Inr by (auto simp: traverse_Inr_iff list_all2_conv_all_nth split: prod.splits)
  with assms(2) show ?thesis by simp
qed (simp add: indexed_result_def)

lemma isl_rbind_Inr [simp]: "isl (rbind m (\<lambda>x. Inr (g x))) \<longleftrightarrow> isl m"
  by (cases m) simp_all

lemma isl_indexed_result [simp]: "isl (indexed_result f xs) \<longleftrightarrow> (\<exists>i<length xs. isl (f i (xs ! i)))"
proof
  assume "isl (indexed_result f xs)"
  then show "\<exists>i<length xs. isl (f i (xs ! i))"
    using indexed_result_ok [of xs f "\<lambda>i x. projr (f i x)"] by (metis isl_def sum.collapse(2) sum.disc(2))
next
  assume "\<exists>i<length xs. isl (f i (xs ! i))"
  then show "isl (indexed_result f xs)"
    using indexed_result_error [of _ xs f] by (metis isl_def)
qed

section \<open>Strings\<close>

definition strip_prefix :: "string \<Rightarrow> string \<Rightarrow> string option" where
  "strip_prefix p s = (if prefix p s then Some (drop (length p) s) else None)"

fun split_on :: "char \<Rightarrow> string \<Rightarrow> string list" where
  "split_on c [] = [[]]"
| "split_on c (x # xs) =
     (if x = c then [] # split_on c xs
      else (case split_on c xs of [] \<Rightarrow> [[x]] | w # ws \<Rightarrow> (x # w) # ws))"

fun split_once :: "char \<Rightarrow> string \<Rightarrow> (string \<times> string) option" where
  "split_once c [] = None"
| "split_once c (x # xs) =
     (if x = c then Some ([], xs)
      else map_option (\<lambda>(a, b). (x # a, b)) (split_once c xs))"

fun join :: "string \<Rightarrow> string list \<Rightarrow> string" where
  "join sep [] = []"
| "join sep [w] = w"
| "join sep (w # ws) = w @ sep @ join sep ws"

definition contains_str :: "string \<Rightarrow> string \<Rightarrow> bool" where
  "contains_str needle s = sublist needle s"

definition to_lower :: "char \<Rightarrow> char" where
  "to_lower c = (let n = of_char c :: nat in if 65 \<le> n \<and> n \<le> 90 then char_of (n + 32) else c)"

definition eq_ignore_ascii_case :: "string \<Rightarrow> string \<Rightarrow> bool" where
  "eq_ignore_ascii_case a b = (map to_lower a = map to_lower b)"

text \<open>
  Unicode white space as UTF-8 byte sequences (the characters with property White_Space, which
  is what Rust's \<open>trim\<close> and \<open>split_whitespace\<close> use), and the ASCII subset of
  \<open>split_ascii_whitespace\<close>.
\<close>

definition bytes :: "nat list \<Rightarrow> string" where
  "bytes ns = map char_of ns"

definition ascii_ws :: "string list" where
  "ascii_ws = map (\<lambda>n. bytes [n]) [9, 10, 12, 13, 32]"

definition unicode_ws :: "string list" where
  "unicode_ws = map (\<lambda>n. bytes [n]) [9, 10, 11, 12, 13, 32]
     @ map bytes [[0xC2, 0x85], [0xC2, 0xA0], [0xE1, 0x9A, 0x80]]
     @ map (\<lambda>n. bytes [0xE2, 0x80, n]) ([0x80..<0x8B] @ [0xA8, 0xA9, 0xAF])
     @ map bytes [[0xE2, 0x81, 0x9F], [0xE3, 0x80, 0x80]]"

fun drop_ws :: "string list \<Rightarrow> nat \<Rightarrow> string \<Rightarrow> string" where
  "drop_ws ws 0 s = s"
| "drop_ws ws (Suc fuel) s =
     (case find (\<lambda>w. prefix w s) ws of None \<Rightarrow> s | Some w \<Rightarrow> drop_ws ws fuel (drop (length w) s))"

definition trim_start :: "string \<Rightarrow> string" where
  "trim_start s = drop_ws unicode_ws (length s) s"

definition trim_end :: "string \<Rightarrow> string" where
  "trim_end s = rev (drop_ws (map rev unicode_ws) (length s) (rev s))"

definition trim :: "string \<Rightarrow> string" where
  "trim s = trim_end (trim_start s)"

fun ws_words :: "string list \<Rightarrow> nat \<Rightarrow> string \<Rightarrow> string \<Rightarrow> string list" where
  "ws_words ws fuel cur [] = [rev cur]"
| "ws_words ws 0 cur s = [rev cur]"
| "ws_words ws (Suc fuel) cur (c # cs) =
     (case find (\<lambda>w. prefix w (c # cs)) ws of
        None \<Rightarrow> ws_words ws fuel (c # cur) cs
      | Some w \<Rightarrow> rev cur # ws_words ws fuel [] (drop (length w) (c # cs)))"

definition split_ascii_whitespace :: "string \<Rightarrow> string list" where
  "split_ascii_whitespace s = filter (\<lambda>w. w \<noteq> []) (ws_words ascii_ws (length s) [] s)"

definition split_whitespace :: "string \<Rightarrow> string list" where
  "split_whitespace s = filter (\<lambda>w. w \<noteq> []) (ws_words unicode_ws (length s) [] s)"

text \<open>Evaluating them on printable ASCII text.\<close>

lemma ws_heads: "list_all (\<lambda>w. w \<noteq> [] \<and> ((of_char (hd w) :: nat) \<le> 32 \<or> 128 \<le> (of_char (hd w) :: nat))) unicode_ws"
  by code_simp

lemma find_printable:
  assumes "32 < (of_char c :: nat)" "(of_char c :: nat) < 128"
  shows "find (\<lambda>w. prefix w (c # cs)) unicode_ws = None"
proof -
  have "\<not> prefix w (c # cs)" if "w \<in> set unicode_ws" for w
    using ws_heads that assms by (cases w) (auto simp: list_all_iff)
  then show ?thesis by (simp add: find_None_iff)
qed

lemma first_ws: "take 6 unicode_ws = [[CHR 0x09], [CHR 0x0A], [CHR 0x0B], [CHR 0x0C], [CHR 0x0D], '' '']"
  by code_simp

lemma find_space: "find (\<lambda>w. prefix w (CHR '' '' # cs)) unicode_ws = Some '' ''"
proof -
  have "find (\<lambda>w. prefix w (CHR '' '' # cs)) (take 6 unicode_ws @ drop 6 unicode_ws) = Some '' ''"
    by (simp add: first_ws)
  then show ?thesis by simp
qed

text \<open>\<open>chars().take(n)\<close> on UTF-8: a continuation byte (10xxxxxx) belongs to the last character.\<close>

definition utf8_cont :: "char \<Rightarrow> bool" where
  "utf8_cont c = (let n = of_char c :: nat in 128 \<le> n \<and> n < 192)"

fun utf8_take :: "nat \<Rightarrow> string \<Rightarrow> string" where
  "utf8_take n [] = []"
| "utf8_take n (c # cs) =
     (if utf8_cont c then c # utf8_take n cs
      else (case n of 0 \<Rightarrow> [] | Suc m \<Rightarrow> c # utf8_take m cs))"

definition utf8_len :: "string \<Rightarrow> nat" where
  "utf8_len s = length (filter (\<lambda>c. \<not> utf8_cont c) s)"

lemma utf8_take_len: "utf8_len (utf8_take n s) = min n (utf8_len s)"
  by (induction n s rule: utf8_take.induct) (auto simp: utf8_len_def split: nat.splits)

lemma utf8_take_prefix: "prefix (utf8_take n s) s"
  by (induction n s rule: utf8_take.induct) (auto split: nat.splits)

lemma utf8_take_all: "utf8_len s \<le> n \<Longrightarrow> utf8_take n s = s"
  by (induction n s rule: utf8_take.induct) (auto simp: utf8_len_def split: nat.splits if_splits)

lemma strip_prefix_append [simp]: "strip_prefix p (p @ s) = Some s"
  by (simp add: strip_prefix_def)

lemma strip_prefix_Some_iff: "strip_prefix p s = Some r \<longleftrightarrow> s = p @ r"
  by (auto simp: strip_prefix_def prefix_def)

lemma strip_prefix_None_iff: "strip_prefix p s = None \<longleftrightarrow> \<not> prefix p s"
  by (simp add: strip_prefix_def)

lemma split_once_append: "c \<notin> set a \<Longrightarrow> split_once c (a @ c # b) = Some (a, b)"
  by (induction a) auto

lemma split_once_None_iff: "split_once c s = None \<longleftrightarrow> c \<notin> set s"
  by (induction s) auto

lemma split_once_Some: "split_once c s = Some (a, b) \<Longrightarrow> s = a @ c # b \<and> c \<notin> set a"
  by (induction s arbitrary: a) (auto split: if_splits)

lemma split_on_not_Nil [simp]: "split_on c s \<noteq> []"
  by (cases s) (auto split: list.splits)

lemma split_on_no_sep: "c \<notin> set s \<Longrightarrow> split_on c s = [s]"
  by (induction s) auto

lemma split_on_append: "c \<notin> set a \<Longrightarrow> split_on c (a @ c # b) = a # split_on c b"
  by (induction a) auto

lemma byte_nibbles: "(of_char c :: nat) div 16 < 16 \<and> (of_char c :: nat) mod 16 < 16"
proof -
  have "(of_char c :: nat) < 256" by (rule nat_of_char_less_256)
  then show ?thesis by (simp add: div_less_iff_less_mult)
qed

section \<open>Decimal numbers\<close>

definition digit :: "nat \<Rightarrow> char" where
  "digit n = char_of (48 + n)"

fun show_nat :: "nat \<Rightarrow> string" where
  "show_nat n = (if n < 10 then [digit n] else show_nat (n div 10) @ [digit (n mod 10)])"

declare show_nat.simps [simp del]

definition show_int :: "int \<Rightarrow> string" where
  "show_int i = (if i < 0 then ''-'' @ show_nat (nat (- i)) else show_nat (nat i))"

definition is_digit :: "char \<Rightarrow> bool" where
  "is_digit c = (let n = of_char c :: nat in 48 \<le> n \<and> n \<le> 57)"

definition digit_val :: "char \<Rightarrow> nat" where
  "digit_val c = of_char c - 48"

fun digits_val :: "nat \<Rightarrow> string \<Rightarrow> nat" where
  "digits_val acc [] = acc"
| "digits_val acc (c # cs) = digits_val (10 * acc + digit_val c) cs"

text \<open>\<open>str::parse::<usize>\<close> on a 64-bit target: an optional \<open>+\<close>, at least one digit, no overflow.\<close>

definition parse_usize :: "string \<Rightarrow> nat option" where
  "parse_usize s =
     (let ds = (case s of c # cs \<Rightarrow> if c = CHR ''+'' then cs else s | [] \<Rightarrow> s)
      in if ds \<noteq> [] \<and> list_all is_digit ds \<and> digits_val 0 ds < 2 ^ 64
         then Some (digits_val 0 ds) else None)"

lemma digit_simps [simp]:
  "n < 10 \<Longrightarrow> is_digit (digit n)"
  "n < 10 \<Longrightarrow> digit_val (digit n) = n"
  by (simp_all add: is_digit_def digit_val_def digit_def Let_def)

lemma digits_val_append: "digits_val acc (xs @ [c]) = 10 * digits_val acc xs + digit_val c"
  by (induction xs arbitrary: acc) simp_all

lemma show_nat_not_Nil [simp]: "show_nat n \<noteq> []"
  by (subst show_nat.simps) simp

lemma show_nat_digits [simp]: "list_all is_digit (show_nat n)"
  by (induction n rule: show_nat.induct) (subst show_nat.simps, simp)

lemma digits_val_show_nat [simp]: "digits_val 0 (show_nat n) = n"
proof (induction n rule: show_nat.induct)
  case (1 n)
  show ?case
  proof (cases "n < 10")
    case True
    then show ?thesis by (subst show_nat.simps) simp
  next
    case False
    then have "digits_val 0 (show_nat n) = 10 * (n div 10) + n mod 10"
      using 1 by (subst show_nat.simps) (simp add: digits_val_append)
    then show ?thesis by simp
  qed
qed

lemma is_digit_props: "is_digit c \<Longrightarrow> c \<noteq> CHR ''+'' \<and> c \<noteq> CHR ''/'' \<and> c \<noteq> CHR '':''"
  by (auto simp: is_digit_def Let_def)

lemma show_nat_chars: "c \<in> set (show_nat n) \<Longrightarrow> is_digit c"
  using show_nat_digits [of n] by (auto simp: list_all_iff)

lemma parse_show_nat: "n < 2 ^ 64 \<Longrightarrow> parse_usize (show_nat n) = Some n"
proof -
  assume n: "n < 2 ^ 64"
  obtain c cs where s: "show_nat n = c # cs" by (cases "show_nat n") auto
  then have "c \<noteq> CHR ''+''"
    using show_nat_chars [of c n] is_digit_props by auto
  then show ?thesis
    using n s show_nat_digits [of n] digits_val_show_nat [of n]
    by (simp add: parse_usize_def)
qed

lemma show_nat_inject [simp]: "show_nat m = show_nat n \<longleftrightarrow> m = n"
  by (metis digits_val_show_nat)

lemma show_nat_no_slash [simp]: "CHR ''/'' \<notin> set (show_nat n)"
  using show_nat_chars is_digit_props by blast

section \<open>Stable sorting by a key\<close>

text \<open>
  Rust's \<open>sort_by_key\<close> is stable, as is \<open>sort_key\<close>. A list that is a permutation of one
  already in strictly increasing key order sorts back to that list.
\<close>

lemma sorted_distinct_key_unique:
  fixes f :: "'a \<Rightarrow> 'k::linorder"
  assumes "sorted (map f xs)" "sorted (map f ys)" "distinct (map f ys)" "set xs = set ys"
    "distinct xs"
  shows "xs = ys"
proof -
  from assms(3) have "distinct ys" by (simp add: distinct_map)
  with assms(4,5) have "length xs = length ys"
    by (metis distinct_card)
  have inj: "inj_on f (set ys)" using assms(3) by (simp add: distinct_map)
  then have "distinct (map f xs)"
    using assms(4,5) by (simp add: distinct_map)
  then have "map f xs = map f ys"
    using assms sorted_distinct_set_unique [of "map f xs" "map f ys"] by simp
  then show ?thesis
    using inj assms(4) by (metis map_inj_on Un_absorb)
qed

lemma sort_key_recovers:
  fixes f :: "'a \<Rightarrow> 'k::linorder"
  assumes "sorted (map f ys)" "distinct (map f ys)" "set xs = set ys" "distinct xs"
  shows "sort_key f xs = ys"
  using assms by (intro sorted_distinct_key_unique [where f = f]) auto

section \<open>Ordered maps\<close>

text \<open>
  Rust's \<open>BTreeMap\<close> as an association list in strictly increasing key order. The order on
  strings is the bytewise one, as for Rust's \<open>str\<close>. In this form two maps with the same entries
  are the same list.
\<close>

type_synonym ('k, 'v) btree = "('k \<times> 'v) list"

fun btree_insert :: "'k::linorder \<Rightarrow> 'v \<Rightarrow> ('k, 'v) btree \<Rightarrow> ('k, 'v) btree" where
  "btree_insert k v [] = [(k, v)]"
| "btree_insert k v ((k', v') # m) =
     (if k < k' then (k, v) # (k', v') # m
      else if k = k' then (k, v) # m
      else (k', v') # btree_insert k v m)"

definition btree_ok :: "('k::linorder, 'v) btree \<Rightarrow> bool" where
  "btree_ok m \<longleftrightarrow> sorted_wrt (<) (map fst m)"

definition btree_of_list :: "('k::linorder \<times> 'v) list \<Rightarrow> ('k, 'v) btree" where
  "btree_of_list xs = fold (\<lambda>(k, v). btree_insert k v) xs []"

lemma btree_ok_Nil [simp]: "btree_ok []"
  by (simp add: btree_ok_def)

lemma btree_ok_Cons: "btree_ok ((k, v) # m) \<longleftrightarrow> (\<forall>k'\<in>fst ` set m. k < k') \<and> btree_ok m"
  by (auto simp: btree_ok_def)

lemma btree_ok_distinct: "btree_ok m \<Longrightarrow> distinct (map fst m)"
  by (simp add: btree_ok_def strict_sorted_iff)

lemma fst_set_btree_insert: "fst ` set (btree_insert k v m) = insert k (fst ` set m)"
proof (induction m)
  case (Cons p m)
  then show ?case by (cases p) (simp add: insert_commute)
qed simp

lemma btree_insert_ok [simp]: "btree_ok m \<Longrightarrow> btree_ok (btree_insert k v m)"
proof (induction m)
  case (Cons p m)
  obtain k' v' where p: "p = (k', v')" by (cases p)
  show ?case
  proof (cases "k' < k")
    case True
    then show ?thesis using Cons p by (auto simp: btree_ok_Cons fst_set_btree_insert)
  next
    case False
    then show ?thesis using Cons p
      by (cases "k = k'") (auto simp: btree_ok_Cons dest: order.strict_trans)
  qed
qed (simp add: btree_ok_Cons)

lemma map_of_btree_insert [simp]: "map_of (btree_insert k v m) = (map_of m)(k \<mapsto> v)"
  by (induction m) (auto simp: fun_eq_iff)

lemma set_btree_insert: "btree_ok m \<Longrightarrow> (k, v) \<in> set (btree_insert k v m)"
  by (induction m) (auto simp: btree_ok_Cons)

lemma btree_ext:
  assumes "btree_ok m" "btree_ok m'" "map_of m = map_of m'"
  shows "m = m'"
proof -
  have keys: "map fst m = map fst m'"
  proof (rule sorted_distinct_set_unique)
    show "set (map fst m) = set (map fst m')"
      using assms(3) by (simp flip: dom_map_of_conv_image_fst)
  qed (use assms in \<open>auto simp: btree_ok_def strict_sorted_iff\<close>)
  moreover have "map snd m = map snd m'"
  proof (rule nth_equalityI)
    show len: "length (map snd m) = length (map snd m')"
      using keys by (metis length_map)
    fix i assume i: "i < length (map snd m)"
    then have "map_of m (fst (m ! i)) = Some (snd (m ! i))"
      "map_of m' (fst (m' ! i)) = Some (snd (m' ! i))"
      using assms(1,2) len by (simp_all add: btree_ok_distinct)
    moreover have "fst (m ! i) = fst (m' ! i)"
      using i len keys by (metis length_map nth_map)
    ultimately show "map snd m ! i = map snd m' ! i"
      using i len assms(3) by simp
  qed
  ultimately show ?thesis by (metis zip_map_fst_snd)
qed

lemma btree_of_list_ok [simp]: "btree_ok (btree_of_list xs)"
proof -
  have "btree_ok m \<Longrightarrow> btree_ok (fold (\<lambda>(k, v). btree_insert k v) xs m)" for m
    by (induction xs arbitrary: m) auto
  then show ?thesis by (simp add: btree_of_list_def)
qed

lemma map_of_btree_of_list:
  assumes "distinct (map fst xs)"
  shows "map_of (btree_of_list xs) = map_of xs"
proof -
  have "distinct (map fst xs) \<Longrightarrow>
      map_of (fold (\<lambda>(k, v). btree_insert k v) xs m) = map_of m ++ map_of xs" for m
    by (induction xs arbitrary: m) (auto simp: map_add_upd_left dom_map_of_conv_image_fst)
  with assms show ?thesis by (simp add: btree_of_list_def)
qed

lemma btree_of_list_eqI:
  assumes "btree_ok m" "set xs = set m" "distinct (map fst xs)"
  shows "btree_of_list xs = m"
  using assms by (intro btree_ext) (simp_all add: map_of_btree_of_list btree_ok_distinct
      map_of_inject_set)

section \<open>Bounded maps\<close>

text \<open>
  A \<open>HashMap\<close> with a bounded number of entries is an association list with distinct keys. \<open>oldest\<close> is
  \<open>iter().min_by_key(..)\<close>: the first entry of least age in the order of iteration.
\<close>

fun oldest :: "('v \<Rightarrow> nat) \<Rightarrow> (string \<times> 'v) list \<Rightarrow> string option" where
  "oldest age [] = None"
| "oldest age ((k, v) # cache) =
     (case oldest age cache of
        None \<Rightarrow> Some k
      | Some k' \<Rightarrow> (case map_of cache k' of Some v' \<Rightarrow> if age v' < age v then Some k' else Some k | None \<Rightarrow> Some k))"

lemma oldest_key: "oldest age cache = Some k \<Longrightarrow> k \<in> fst ` set cache"
  by (induction age cache arbitrary: k rule: oldest.induct) (auto split: option.splits if_splits)

lemma oldest_None: "oldest age cache = None \<longleftrightarrow> cache = []"
  by (cases "(age, cache)" rule: oldest.cases) (auto split: option.splits)

lemma length_delete_key: "k \<in> fst ` set xs \<Longrightarrow> length (AList.delete k xs) < length xs"
  by (induction xs) (auto intro: le_imp_less_Suc AList.length_delete_le)

lemma length_update: "length (AList.update k v xs) = (if k \<in> fst ` set xs then length xs else Suc (length xs))"
  by (induction xs) auto

lemma set_update: "set (AList.update k v xs) \<subseteq> insert (k, v) (set xs)"
  by (induction xs) auto

text \<open>\<open>str::replace\<close> for a pattern that is not empty.\<close>

fun replace_str :: "string \<Rightarrow> string \<Rightarrow> string \<Rightarrow> string" where
  "replace_str pat rep [] = []"
| "replace_str pat rep (c # cs) =
     (if pat \<noteq> [] \<and> prefix pat (c # cs) then rep @ replace_str pat rep (drop (length pat - 1) cs)
      else c # replace_str pat rep cs)"

end
