(* ===== verification/Policy_Engine.thy ===== *)
theory Policy_Engine
  imports Prelude "HOL-Library.Word" "HOL-Library.Multiset"
begin

unbundle bit_operations_syntax

text \<open>
  The stand-alone decision engine of \<open>crates/policy-engine\<close>: \<open>src/lib.rs\<close> (the types, the outcome of a
  constraint and of a rule, the deny-overrides combination) and the parts of \<open>src/ffi.rs\<close> around it
  (the fail-closed entry point and the packing of a pointer and a length into one \<open>i64\<close>). The crate
  has its own copy of the policy types, restricted to atomic constraints.
\<close>

section \<open>Types\<close>

datatype pe_policy_kind = PeSet | PeOffer | PeAgreement

record pe_constraint =
  pe_left_operand :: string
  pe_operator :: string
  pe_right_operand :: string

record pe_rule =
  pe_action :: string
  pe_constraints :: "pe_constraint list"

record pe_policy =
  pe_id :: "string option"
  pe_kind :: pe_policy_kind
  pe_assigner :: "string option"
  pe_assignee :: "string option"
  pe_permissions :: "pe_rule list"
  pe_prohibitions :: "pe_rule list"
  pe_obligations :: "pe_rule list"

datatype claim_value = Single string | CList "string list"

type_synonym pe_claims = "(string, claim_value) btree"

fun contains :: "claim_value \<Rightarrow> string \<Rightarrow> bool" where
  "contains (Single s) needle = (s = needle)"
| "contains (CList vs) needle = list_ex (\<lambda>v. v = needle) vs"

fun contains_any :: "claim_value \<Rightarrow> string list \<Rightarrow> bool" where
  "contains_any (Single s) cands = List.member cands s"
| "contains_any (CList vs) cands = list_ex (\<lambda>v. List.member cands v) vs"

record evaluate_request =
  req_dataset_id :: string
  req_policies :: "pe_policy list"
  req_claims :: pe_claims

datatype decision = Allow | Deny

record evaluate_response =
  resp_dataset_id :: string
  resp_decision :: decision
  resp_reason :: string

datatype outcome = Match | Miss | Unevaluable

section \<open>Outcomes\<close>

definition operand_candidates :: "string \<Rightarrow> string list" where
  "operand_candidates s = filter (\<lambda>c. c \<noteq> []) (map trim (split_on CHR '','' s))"

definition constraint_outcome :: "pe_constraint \<Rightarrow> pe_claims \<Rightarrow> outcome" where
  "constraint_outcome c claims =
     (case map_of claims (pe_left_operand c) of
        None \<Rightarrow> Unevaluable
      | Some value \<Rightarrow>
          (if pe_operator c = ''eq'' then
             (if contains value (pe_right_operand c) then Match else Miss)
           else if pe_operator c = ''neq'' then
             (if \<not> contains value (pe_right_operand c) then Match else Miss)
           else if pe_operator c = ''isAnyOf'' then
             (if contains_any value (operand_candidates (pe_right_operand c)) then Match else Miss)
           else Unevaluable))"

fun constraints_outcome :: "outcome \<Rightarrow> pe_constraint list \<Rightarrow> pe_claims \<Rightarrow> outcome" where
  "constraints_outcome acc [] claims = acc"
| "constraints_outcome acc (c # cs) claims =
     (case constraint_outcome c claims of
        Miss \<Rightarrow> Miss
      | Unevaluable \<Rightarrow> constraints_outcome Unevaluable cs claims
      | Match \<Rightarrow> constraints_outcome acc cs claims)"

definition rule_outcome :: "pe_rule \<Rightarrow> pe_claims \<Rightarrow> outcome" where
  "rule_outcome r claims = constraints_outcome Match (pe_constraints r) claims"

section \<open>The decision\<close>

definition policy_label :: "pe_policy \<Rightarrow> string" where
  "policy_label p = (case pe_id p of Some i \<Rightarrow> i | None \<Rightarrow> ''<unnamed>'')"

definition describe_rule :: "pe_rule \<Rightarrow> string" where
  "describe_rule r =
     (if pe_constraints r = [] then ''unconditional''
      else join '' and '' (map (\<lambda>c. pe_left_operand c @ '' '' @ pe_operator c @ '' '' @ pe_right_operand c)
        (pe_constraints r)))"

text \<open>The rules of all policies in loop order, each with its policy and its index in that policy.\<close>

definition indexed_rules ::
    "(pe_policy \<Rightarrow> pe_rule list) \<Rightarrow> pe_policy list \<Rightarrow> (pe_policy \<times> nat \<times> pe_rule) list" where
  "indexed_rules rs ps = concat (map (\<lambda>p. map (\<lambda>(i, r). (p, i, r)) (List.enumerate 0 (rs p))) ps)"

definition evaluate :: "evaluate_request \<Rightarrow> evaluate_response" where
  "evaluate req =
     (case find (\<lambda>(p, i, r). rule_outcome r (req_claims req) \<noteq> Miss)
             (indexed_rules pe_prohibitions (req_policies req)) of
        Some (p, i, r) \<Rightarrow>
          \<lparr>resp_dataset_id = req_dataset_id req, resp_decision = Deny,
           resp_reason = ''prohibition['' @ show_nat i @ ''] of policy '' @ [CHR 0x27] @ policy_label p
             @ [CHR 0x27] @ '' ''
             @ (if rule_outcome r (req_claims req) = Match then ''matched''
                else ''could not be evaluated, failing closed'')
             @ '': '' @ describe_rule r\<rparr>
      | None \<Rightarrow>
          if \<not> list_ex (\<lambda>p. pe_permissions p \<noteq> []) (req_policies req) then
            \<lparr>resp_dataset_id = req_dataset_id req, resp_decision = Allow,
             resp_reason = ''no permission rules declared on any attached policy; open by default''\<rparr>
          else (case find (\<lambda>(p, i, r). rule_outcome r (req_claims req) = Match)
                  (indexed_rules pe_permissions (req_policies req)) of
             Some (p, i, r) \<Rightarrow>
               \<lparr>resp_dataset_id = req_dataset_id req, resp_decision = Allow,
                resp_reason = ''permission['' @ show_nat i @ ''] of policy '' @ [CHR 0x27]
                  @ policy_label p @ [CHR 0x27] @ '' matched: '' @ describe_rule r\<rparr>
           | None \<Rightarrow>
               \<lparr>resp_dataset_id = req_dataset_id req, resp_decision = Deny,
                resp_reason = ''permission rules exist but none matched the caller'' @ [CHR 0x27]
                  @ ''s claims''\<rparr>))"

section \<open>The entry point of the wasm module\<close>

text \<open>
  \<open>parse\<close> is serde's decoding of the request bytes (the error is its message) and \<open>print\<close> its
  encoding of a response; \<open>reserve\<close> is the allocator, \<open>None\<close> when it cannot serve a request.
\<close>

definition ffi_evaluate ::
    "(string \<Rightarrow> string + evaluate_request) \<Rightarrow> (evaluate_response \<Rightarrow> string) \<Rightarrow> string \<Rightarrow> string" where
  "ffi_evaluate parse print req_bytes =
     print (case parse req_bytes of
        Inr request \<Rightarrow> evaluate request
      | Inl err \<Rightarrow>
          \<lparr>resp_dataset_id = [], resp_decision = Deny,
           resp_reason = ''policy-engine: request JSON did not match the schema: '' @ err\<rparr>)"

definition ffi_alloc :: "(nat \<Rightarrow> 32 word option) \<Rightarrow> 32 word \<Rightarrow> 32 word" where
  "ffi_alloc reserve len =
     (if len <s 0 then 0
      else case reserve (unat len) of None \<Rightarrow> 0 | Some ptr \<Rightarrow> ptr)"

definition pack :: "32 word \<Rightarrow> 32 word \<Rightarrow> 64 word" where
  "pack ptr len = push_bit 32 (scast ptr) OR (scast len AND 0xFFFFFFFF)"

section \<open>Outcomes as an order\<close>

text \<open>
  Ordered by how much they say against a rule, a rule's outcome is the largest outcome of its
  constraints: one definite miss decides it, otherwise one unevaluable constraint does.
\<close>

fun outcome_rank :: "outcome \<Rightarrow> nat" where
  "outcome_rank Match = 0"
| "outcome_rank Unevaluable = 1"
| "outcome_rank Miss = 2"

lemma outcome_rank_inject [simp]: "outcome_rank a = outcome_rank b \<longleftrightarrow> a = b"
  by (cases a; cases b) simp_all

instantiation outcome :: linorder
begin

definition less_eq_outcome :: "outcome \<Rightarrow> outcome \<Rightarrow> bool" where
  "less_eq_outcome a b \<longleftrightarrow> outcome_rank a \<le> outcome_rank b"

definition less_outcome :: "outcome \<Rightarrow> outcome \<Rightarrow> bool" where
  "less_outcome a b \<longleftrightarrow> outcome_rank a < outcome_rank b"

instance
  by standard (auto simp: less_eq_outcome_def less_outcome_def simp flip: outcome_rank_inject)

end

lemma max_outcome [simp]:
  "max Match b = b" "max a Match = a" "max Miss b = Miss" "max a Miss = Miss"
  "max Unevaluable Unevaluable = Unevaluable"
  by (cases a; cases b; simp add: max_def less_eq_outcome_def)+

lemma constraints_outcome_fold:
  "acc \<noteq> Miss \<Longrightarrow> constraints_outcome acc cs claims = fold max (map (\<lambda>c. constraint_outcome c claims) cs) acc"
proof (induction cs arbitrary: acc)
  case (Cons c cs)
  have "fold max os Miss = Miss" for os :: "outcome list"
    by (induction os) simp_all
  with Cons show ?case
    by (cases "constraint_outcome c claims"; cases acc) simp_all
qed simp

lemma rule_outcome_Max:
  "rule_outcome r claims = Max (set (Match # map (\<lambda>c. constraint_outcome c claims) (pe_constraints r)))"
  unfolding Max.set_eq_fold by (simp add: rule_outcome_def constraints_outcome_fold)

lemma rule_outcome_iffs:
  "rule_outcome r claims = Miss \<longleftrightarrow> (\<exists>c\<in>set (pe_constraints r). constraint_outcome c claims = Miss)"
  "rule_outcome r claims = Match \<longleftrightarrow> (\<forall>c\<in>set (pe_constraints r). constraint_outcome c claims = Match)"
proof -
  have *: "constraints_outcome acc cs claims = Miss \<longleftrightarrow>
      acc = Miss \<and> cs = [] \<or> (\<exists>c\<in>set cs. constraint_outcome c claims = Miss)" if "acc \<noteq> Miss" for acc cs
    using that by (induction cs arbitrary: acc) (auto split: outcome.splits)
  then show "rule_outcome r claims = Miss \<longleftrightarrow> (\<exists>c\<in>set (pe_constraints r). constraint_outcome c claims = Miss)"
    by (simp add: rule_outcome_def)
  have "constraints_outcome acc cs claims = Match \<longleftrightarrow>
      acc = Match \<and> (\<forall>c\<in>set cs. constraint_outcome c claims = Match)" for acc cs
    by (induction cs arbitrary: acc) (auto split: outcome.splits)
  then show "rule_outcome r claims = Match \<longleftrightarrow> (\<forall>c\<in>set (pe_constraints r). constraint_outcome c claims = Match)"
    by (simp add: rule_outcome_def)
qed

section \<open>Deny-overrides\<close>

lemma find_None_iff_list_ex: "find P xs = None \<longleftrightarrow> \<not> list_ex P xs"
  by (auto simp: find_None_iff list_ex_iff)

lemma list_ex_indexed_rules:
  "list_ex (\<lambda>(p, i, r). P r) (indexed_rules rs ps) \<longleftrightarrow> (\<exists>p\<in>set ps. \<exists>r\<in>set (rs p). P r)"
proof (induction ps)
  case (Cons p ps)
  have "list_ex (\<lambda>(p, i, r). P r) (map (\<lambda>(i, r). (p, i, r)) xs) = list_ex P (map snd xs)" for xs
    by (induction xs) auto
  from this [of "List.enumerate 0 (rs p)"] Cons show ?case
    by (simp only: indexed_rules_def list.map concat.simps list_ex_append map_snd_enumerate)
      (simp add: list_ex_iff)
qed (simp add: indexed_rules_def)

definition prohibited :: "evaluate_request \<Rightarrow> bool" where
  "prohibited req \<longleftrightarrow>
     (\<exists>p\<in>set (req_policies req). \<exists>r\<in>set (pe_prohibitions p). rule_outcome r (req_claims req) \<noteq> Miss)"

definition permitted :: "evaluate_request \<Rightarrow> bool" where
  "permitted req \<longleftrightarrow>
     (\<exists>p\<in>set (req_policies req). \<exists>r\<in>set (pe_permissions p). rule_outcome r (req_claims req) = Match)"

definition declares_permission :: "evaluate_request \<Rightarrow> bool" where
  "declares_permission req \<longleftrightarrow> (\<exists>p\<in>set (req_policies req). pe_permissions p \<noteq> [])"

lemma decision_steps:
  "resp_decision (evaluate req) =
     (if prohibited req then Deny
      else if \<not> declares_permission req then Allow
      else if permitted req then Allow else Deny)"
proof -
  note ex = list_ex_indexed_rules [of "\<lambda>r. rule_outcome r (req_claims req) \<noteq> Miss"]
    list_ex_indexed_rules [of "\<lambda>r. rule_outcome r (req_claims req) = Match"]
  have "(find (\<lambda>(p, i, r). rule_outcome r (req_claims req) \<noteq> Miss)
      (indexed_rules pe_prohibitions (req_policies req)) = None) \<longleftrightarrow> \<not> prohibited req"
    "(find (\<lambda>(p, i, r). rule_outcome r (req_claims req) = Match)
      (indexed_rules pe_permissions (req_policies req)) = None) \<longleftrightarrow> \<not> permitted req"
    by (simp_all add: find_None_iff_list_ex ex prohibited_def permitted_def)
  moreover have "list_ex (\<lambda>p. pe_permissions p \<noteq> []) (req_policies req) \<longleftrightarrow> declares_permission req"
    by (auto simp: declares_permission_def list_ex_iff)
  ultimately show ?thesis
    by (auto simp: evaluate_def split: option.splits)
qed


text \<open>More claims settle outcomes that were open and change no definite one.\<close>

lemma constraint_outcome_mono:
  assumes "map_of claims \<subseteq>\<^sub>m map_of claims'" "constraint_outcome c claims \<noteq> Unevaluable"
  shows "constraint_outcome c claims' = constraint_outcome c claims"
proof (cases "map_of claims (pe_left_operand c)")
  case None
  with assms(2) show ?thesis by (simp add: constraint_outcome_def)
next
  case (Some v)
  then have "map_of claims' (pe_left_operand c) = Some v"
    using assms(1) by (metis domI map_le_def)
  with Some show ?thesis by (simp add: constraint_outcome_def)
qed

lemma rule_outcome_mono:
  assumes "map_of claims \<subseteq>\<^sub>m map_of claims'" "rule_outcome r claims \<noteq> Unevaluable"
  shows "rule_outcome r claims' = rule_outcome r claims"
proof (cases "rule_outcome r claims")
  case Match
  then have "rule_outcome r claims' = Match"
    using constraint_outcome_mono [OF assms(1)] by (simp add: rule_outcome_iffs)
  with Match show ?thesis by simp
next
  case Miss
  then have "rule_outcome r claims' = Miss"
    using constraint_outcome_mono [OF assms(1)]
    by (metis rule_outcome_iffs(1) outcome.distinct(5))
  with Miss show ?thesis by simp
qed (use assms(2) in simp)

text \<open>
  The engine fails closed on missing claims: a request that is allowed stays allowed when the
  caller presents further claims, so leaving a claim out never turns a denial into an allowance.
\<close>

theorem evaluate_fails_closed:
  assumes "map_of (req_claims req) \<subseteq>\<^sub>m map_of claims'" "resp_decision (evaluate req) = Allow"
  shows "resp_decision (evaluate (req\<lparr>req_claims := claims'\<rparr>)) = Allow"
proof -
  have "\<not> prohibited req" "\<not> declares_permission req \<or> permitted req"
    using assms(2) by (auto simp: decision_steps split: if_splits)
  then show ?thesis
    using rule_outcome_mono [OF assms(1)]
    unfolding decision_steps prohibited_def permitted_def declares_permission_def
    by simp (metis outcome.distinct)
qed

definition sample_request :: evaluate_request where
  "sample_request =
     \<lparr>req_dataset_id = ''d'',
      req_policies = [\<lparr>pe_id = None, pe_kind = PeOffer, pe_assigner = None, pe_assignee = None,
        pe_permissions = [\<lparr>pe_action = ''use'', pe_constraints =
          [\<lparr>pe_left_operand = ''nationality'', pe_operator = ''eq'', pe_right_operand = ''FR''\<rparr>]\<rparr>],
        pe_prohibitions = [], pe_obligations = []\<rparr>],
      req_claims = [(''nationality'', Single ''FR'')]\<rparr>"

theorem evaluate_fails_closed_witness:
  "resp_decision (evaluate (sample_request\<lparr>req_claims :=
     [(''nationality'', Single ''FR''), (''role'', Single ''x'')]\<rparr>)) = Allow"
proof (rule evaluate_fails_closed)
  show "map_of (req_claims sample_request)
      \<subseteq>\<^sub>m map_of [(''nationality'', Single ''FR''), (''role'', Single ''x'')]"
    by (simp add: sample_request_def map_le_def)
  show "resp_decision (evaluate sample_request) = Allow"
    by (simp add: decision_steps prohibited_def permitted_def declares_permission_def
        sample_request_def rule_outcome_iffs constraint_outcome_def)
qed

text \<open>A request that does not parse is answered with a denial.\<close>

lemma ffi_evaluate_malformed:
  "parse b = Inl e \<Longrightarrow> \<exists>r. ffi_evaluate parse print b = print r \<and> resp_decision r = Deny"
  by (simp add: ffi_evaluate_def) (metis evaluate_response.select_convs(2))

text \<open>
  The packed result carries both halves: shifting right by 32 and truncating gives the pointer,
  truncating gives the length, for every 32-bit pointer and length, negative lengths included (whose
  sign extension must not reach the pointer half).
\<close>

theorem pack_unpack:
  "(ucast (signed_drop_bit 32 (pack ptr len)) :: 32 word) = ptr \<and> (ucast (pack ptr len) :: 32 word) = len"
proof
  have m: "(0xFFFFFFFF :: 64 word) = mask 32"
    by (simp add: mask_eq_exp_minus_1)
  show "(ucast (signed_drop_bit 32 (pack ptr len)) :: 32 word) = ptr"
    by (rule bit_word_eqI) (auto simp: pack_def m bit_simps)
  show "(ucast (pack ptr len) :: 32 word) = len"
    by (rule bit_word_eqI) (auto simp: pack_def m bit_simps)
qed

end
