(* ===== verification/Catalog_Core.thy ===== *)
theory Catalog_Core
  imports Prelude
begin

text \<open>
  The domain types of \<open>crates/catalog-core/src/lib.rs\<close>: nodes, catalogs, datasets, services and the
  ODRL policy model, with the canonical spelling of actions and the marker that stands for policy
  content the crawler could not read. A \<open>BTreeMap<String, String>\<close> is a key-ordered entry list.
\<close>

section \<open>Nodes and crawl work\<close>

type_synonym node_id = string

record target_node =
  tn_id :: node_id
  tn_name :: string
  target_url :: string
  supported_protocols :: "string list"

record crawl_work_item =
  work_node :: target_node
  retries :: nat

definition crawl_work_item_new :: "target_node \<Rightarrow> crawl_work_item" where
  "crawl_work_item_new n = \<lparr>work_node = n, retries = 0\<rparr>"

section \<open>Distributions and services\<close>

record distribution =
  format :: string
  access_service :: string

record data_service =
  service_id :: string
  endpoint_url :: string
  endpoint_description :: "string option"

section \<open>The ODRL policy model\<close>

datatype policy_kind = KindSet | KindOffer | KindAgreement

definition policy_kind_default :: policy_kind where
  "policy_kind_default = KindSet"

record atomic_constraint =
  left_operand :: string
  operator :: string
  right_operand :: string

datatype constraint =
    Atomic atomic_constraint
  | Logical logical_constraint
and logical_constraint =
    And "constraint list"
  | Or "constraint list"
  | Xone "constraint list"
  | AndSequence "constraint list"

fun children :: "logical_constraint \<Rightarrow> constraint list" where
  "children (And cs) = cs"
| "children (Or cs) = cs"
| "children (Xone cs) = cs"
| "children (AndSequence cs) = cs"

definition UNMAPPABLE_OPERATOR :: string where
  "UNMAPPABLE_OPERATOR = ''urn:ds42:broker:unmappable''"

definition UNMAPPABLE_ACTION :: string where
  "UNMAPPABLE_ACTION = ''urn:ds42:broker:unmappable-action''"

definition ODRL_NS :: string where
  "ODRL_NS = ''http://www.w3.org/ns/odrl/2/''"

definition normalize_action :: "string \<Rightarrow> string" where
  "normalize_action a =
     (if a = [] then []
      else case strip_prefix ODRL_NS a of
        Some name \<Rightarrow> ''odrl:'' @ name
      | None \<Rightarrow> if CHR '':'' \<in> set a then a else ''odrl:'' @ a)"

definition UNMAPPABLE_EXCERPT_MAX :: nat where
  "UNMAPPABLE_EXCERPT_MAX = 256"

definition atomic :: "string \<Rightarrow> string \<Rightarrow> string \<Rightarrow> constraint" where
  "atomic l op r = Atomic \<lparr>left_operand = l, operator = op, right_operand = r\<rparr>"

definition unmappable :: "string \<Rightarrow> constraint" where
  "unmappable raw = atomic [] UNMAPPABLE_OPERATOR (utf8_take UNMAPPABLE_EXCERPT_MAX raw)"

fun is_unmappable :: "constraint \<Rightarrow> bool" where
  "is_unmappable (Atomic a) = (operator a = UNMAPPABLE_OPERATOR)"
| "is_unmappable (Logical l) = False"

definition and_of :: "constraint list \<Rightarrow> constraint" where "and_of cs = Logical (And cs)"
definition or_of :: "constraint list \<Rightarrow> constraint" where "or_of cs = Logical (Or cs)"
definition xone_of :: "constraint list \<Rightarrow> constraint" where "xone_of cs = Logical (Xone cs)"
definition and_sequence_of :: "constraint list \<Rightarrow> constraint" where
  "and_sequence_of cs = Logical (AndSequence cs)"

definition MAX_CONSTRAINT_DEPTH :: nat where
  "MAX_CONSTRAINT_DEPTH = 64"

definition LOGICAL_CONSTRAINT_BUILDERS :: "(string \<times> (constraint list \<Rightarrow> constraint)) list" where
  "LOGICAL_CONSTRAINT_BUILDERS =
     [(''xone'', xone_of), (''or'', or_of), (''and'', and_of), (''andSequence'', and_sequence_of)]"

record rule =
  action :: string
  constraints :: "constraint list"

record policy =
  policy_id :: "string option"
  kind :: policy_kind
  assigner :: "string option"
  assignee :: "string option"
  permissions :: "rule list"
  prohibitions :: "rule list"
  obligations :: "rule list"

section \<open>Datasets and catalogs\<close>

record dataset =
  dataset_id :: string
  ds_properties :: "(string, string) btree"
  distributions :: "distribution list"
  policies :: "policy list"

record catalog =
  catalog_id :: string
  origin_node :: node_id
  participant_id :: "string option"
  datasets :: "dataset list"
  data_services :: "data_service list"
  properties :: "(string, string) btree"

definition catalog_new :: "string \<Rightarrow> node_id \<Rightarrow> catalog" where
  "catalog_new i n = \<lparr>catalog_id = i, origin_node = n, participant_id = None, datasets = [],
     data_services = [], properties = []\<rparr>"

section \<open>Nesting depth\<close>

text \<open>
  The number of group levels below a constraint, and every constraint of a rule, policy, dataset or
  catalog. The bound \<open>MAX_CONSTRAINT_DEPTH\<close> of the parser, the store and the filter is a bound on
  this height.
\<close>

function height :: "constraint \<Rightarrow> nat" where
  "height (Atomic a) = 0"
| "height (Logical l) = (if children l = [] then 0 else Suc (Max (set (map height (children l)))))"
  by pat_completeness auto

lemma list_elem_size: "c \<in> set cs \<Longrightarrow> size c < Suc (size_list size cs)"
  by (induction cs) auto

lemma children_size: "c \<in> set (children l) \<Longrightarrow> size c < size (Logical l)"
  by (cases l) (auto dest: list_elem_size simp: less_SucI)

termination height
  by (relation "measure size") (use children_size in auto)

declare height.simps(2) [simp del]

lemma height_child: "c \<in> set (children l) \<Longrightarrow> height c < height (Logical l)"
  by (force simp: height.simps(2) less_Suc_eq_le)

lemma height_Logical_le:
  "height (Logical l) \<le> Suc n \<longleftrightarrow> (\<forall>c\<in>set (children l). height c \<le> n)"
  by (cases "children l = []") (auto simp: height.simps(2))

lemma height_Logical_le_0: "height (Logical l) \<le> 0 \<longleftrightarrow> children l = []"
  by (simp add: height.simps(2))

lemma height_builders [simp]:
  "height (and_of cs) \<le> Suc n \<longleftrightarrow> (\<forall>c\<in>set cs. height c \<le> n)"
  "height (or_of cs) \<le> Suc n \<longleftrightarrow> (\<forall>c\<in>set cs. height c \<le> n)"
  "height (xone_of cs) \<le> Suc n \<longleftrightarrow> (\<forall>c\<in>set cs. height c \<le> n)"
  "height (and_sequence_of cs) \<le> Suc n \<longleftrightarrow> (\<forall>c\<in>set cs. height c \<le> n)"
  by (simp_all add: and_of_def or_of_def xone_of_def and_sequence_of_def height_Logical_le)

lemma height_atomic [simp]: "height (atomic l op r) = 0" "height (unmappable raw) = 0"
  by (simp_all add: atomic_def unmappable_def)

definition policy_rules :: "policy \<Rightarrow> rule list" where
  "policy_rules p = permissions p @ prohibitions p @ obligations p"

definition rule_depth_ok :: "rule \<Rightarrow> bool" where
  "rule_depth_ok r \<longleftrightarrow> (\<forall>c\<in>set (constraints r). height c \<le> MAX_CONSTRAINT_DEPTH)"

definition policy_depth_ok :: "policy \<Rightarrow> bool" where
  "policy_depth_ok p \<longleftrightarrow> (\<forall>r\<in>set (policy_rules p). rule_depth_ok r)"

definition catalog_depth_ok :: "catalog \<Rightarrow> bool" where
  "catalog_depth_ok c \<longleftrightarrow> (\<forall>d\<in>set (datasets c). \<forall>p\<in>set (policies d). policy_depth_ok p)"

text \<open>
  What the store needs of a catalog to keep it exactly: ids that name one resource each, ordered property
  maps, and constraints within the depth bound.
\<close>

definition catalog_wf :: "catalog \<Rightarrow> bool" where
  "catalog_wf c \<longleftrightarrow>
     distinct (map dataset_id (datasets c)) \<and> distinct (map service_id (data_services c)) \<and>
     btree_ok (properties c) \<and> (\<forall>d\<in>set (datasets c). btree_ok (ds_properties d)) \<and>
     catalog_depth_ok c"

text \<open>
  Induction over a constraint with the hypothesis for every child of a group, whichever
  combinator it has.
\<close>

lemma constraint_induct [case_names Atomic Logical]:
  assumes "\<And>a. P (Atomic a)" "\<And>l. (\<And>c. c \<in> set (children l) \<Longrightarrow> P c) \<Longrightarrow> P (Logical l)"
  shows "P c"
proof (induction c rule: measure_induct_rule [where f = size])
  case (less c)
  then show ?case
    using assms children_size by (cases c) blast+
qed

section \<open>Actions and markers\<close>

lemma normalize_action_Nil [simp]: "normalize_action [] = []"
  by (simp add: normalize_action_def)

lemma normalize_action_spellings:
  assumes "a \<noteq> []" "CHR '':'' \<notin> set a"
  shows "normalize_action a = ''odrl:'' @ a"
    and "normalize_action (''odrl:'' @ a) = ''odrl:'' @ a"
    and "normalize_action (ODRL_NS @ a) = ''odrl:'' @ a"
proof -
  have "\<not> prefix ODRL_NS a"
    using assms(2) by (auto simp: ODRL_NS_def prefix_def)
  then show "normalize_action a = ''odrl:'' @ a"
    using assms by (simp add: normalize_action_def strip_prefix_def)
  show "normalize_action (''odrl:'' @ a) = ''odrl:'' @ a"
    by (simp add: normalize_action_def strip_prefix_def ODRL_NS_def)
  show "normalize_action (ODRL_NS @ a) = ''odrl:'' @ a"
    by (simp add: normalize_action_def) (simp add: ODRL_NS_def)
qed

lemma normalize_action_normal:
  "normalize_action a = [] \<or> CHR '':'' \<in> set (normalize_action a) \<and> \<not> prefix ODRL_NS (normalize_action a)"
  by (auto simp: normalize_action_def strip_prefix_def ODRL_NS_def)

lemma normalize_action_fixed:
  "CHR '':'' \<in> set a \<Longrightarrow> \<not> prefix ODRL_NS a \<Longrightarrow> normalize_action a = a"
  by (auto simp: normalize_action_def strip_prefix_def)

text \<open>
  The canonical spelling is canonical: normalizing twice is normalizing once, so the crawler's
  normalization at parse time and the filter's at evaluation time agree on every stored action; and
  an ODRL term has one spelling whether it arrives bare, with the \<open>odrl:\<close> prefix or as the full IRI.
\<close>

theorem normalize_action_canonical:
  "normalize_action (normalize_action a) = normalize_action a \<and>
   (a \<noteq> [] \<longrightarrow> CHR '':'' \<notin> set a \<longrightarrow>
      normalize_action (''odrl:'' @ a) = normalize_action a \<and>
      normalize_action (ODRL_NS @ a) = normalize_action a)"
  using normalize_action_normal [of a] normalize_action_spellings [of a]
  by (auto simp: normalize_action_fixed)

theorem normalize_action_canonical_witness:
  "normalize_action (normalize_action ''use'') = ''odrl:use'' \<and>
   normalize_action (ODRL_NS @ ''use'') = ''odrl:use''"
proof -
  have "normalize_action ''use'' = ''odrl:use''"
    by code_simp
  then show ?thesis
    using normalize_action_canonical [of "''use''"] by simp
qed

text \<open>The marker is recognised, and its excerpt is a prefix of the raw text cut at a character boundary.\<close>

lemma is_unmappable_marker [simp]: "is_unmappable (unmappable raw)"
  by (simp add: unmappable_def atomic_def)

lemma unmappable_excerpt:
  assumes "unmappable raw = Atomic a"
  shows "prefix (right_operand a) raw \<and> utf8_len (right_operand a) = min 256 (utf8_len raw)"
  using assms by (auto simp: unmappable_def atomic_def UNMAPPABLE_EXCERPT_MAX_def utf8_take_prefix
      utf8_take_len)

end
