(* ===== verification/Json.thy ===== *)
theory Json
  imports Prelude
begin

text \<open>
  JSON values as \<open>serde_json::Value\<close>, with the accessors the crawler, the holder and the routes
  call on them. An object is the entry list of serde's ordered map, in key order. Numbers
  keep serde's three representations; a float is finite and is given by its mantissa and binary
  exponent, the value \<open>m * 2 ^ e\<close>. Parsing and printing JSON text is serde's own code: where the
  source prints a value, the model takes the printer as a parameter.
\<close>

datatype number = PosInt nat | NegInt int | Float int int

datatype json =
    JNull
  | JBool bool
  | JNumber number
  | JString string
  | JArray "json list"
  | JObject "(string \<times> json) list"

fun jget :: "json \<Rightarrow> string \<Rightarrow> json option" where
  "jget (JObject m) k = map_of m k"
| "jget _ k = None"

fun as_str :: "json \<Rightarrow> string option" where
  "as_str (JString s) = Some s"
| "as_str _ = None"

fun as_array :: "json \<Rightarrow> json list option" where
  "as_array (JArray vs) = Some vs"
| "as_array _ = None"

fun is_object :: "json \<Rightarrow> bool" where
  "is_object (JObject m) = True"
| "is_object _ = False"

fun as_u64 :: "json \<Rightarrow> nat option" where
  "as_u64 (JNumber (PosInt n)) = Some n"
| "as_u64 _ = None"

text \<open>\<open>value.get(key).and_then(Value::as_str)\<close> and \<open>value.get(key).and_then(Value::as_array)\<close>.\<close>

definition get_str :: "json \<Rightarrow> string \<Rightarrow> string option" where
  "get_str v k = Option.bind (jget v k) as_str"

definition get_array :: "json \<Rightarrow> string \<Rightarrow> json list option" where
  "get_array v k = Option.bind (jget v k) as_array"

lemma get_str_Some_iff: "get_str v k = Some s \<longleftrightarrow> jget v k = Some (JString s)"
  by (auto simp: get_str_def bind_eq_Some_conv elim: as_str.elims)

lemma get_array_Some_iff: "get_array v k = Some vs \<longleftrightarrow> jget v k = Some (JArray vs)"
  by (auto simp: get_array_def bind_eq_Some_conv elim: as_array.elims)

text \<open>A value read out of another one is smaller: the measure of every recursion over JSON.\<close>

lemma entry_size: "(k, w) \<in> set m \<Longrightarrow> size w < size (JObject m)"
  by (induction m) auto

lemma jget_size: "jget v k = Some w \<Longrightarrow> size w < size v"
  by (cases v) (auto dest!: map_of_SomeD dest: entry_size)

lemma array_elem_size: "x \<in> set vs \<Longrightarrow> size x < size (JArray vs)"
  by (induction vs) auto

lemma get_array_elem_size: "get_array v k = Some vs \<Longrightarrow> x \<in> set vs \<Longrightarrow> size x < size v"
  using jget_size array_elem_size less_trans by (fastforce simp: get_array_Some_iff)

section \<open>Nesting\<close>

text \<open>The levels of arrays and objects of a value, which serde's parser limits to 128.\<close>

fun json_depth :: "json \<Rightarrow> nat" where
  "json_depth (JArray vs) = Suc (foldr (\<lambda>v. max (json_depth v)) vs 0)"
| "json_depth (JObject m) = Suc (foldr (\<lambda>e. max (json_depth (snd e))) m 0)"
| "json_depth _ = 0"

lemma foldr_max_le: "foldr (\<lambda>x. max (f x)) xs (0 :: nat) \<le> n \<longleftrightarrow> list_all (\<lambda>x. f x \<le> n) xs"
  by (induction xs) auto

lemma json_depth_le [simp]:
  "json_depth (JArray vs) \<le> n \<longleftrightarrow> 0 < n \<and> list_all (\<lambda>v. json_depth v \<le> n - 1) vs"
  "json_depth (JObject m) \<le> n \<longleftrightarrow> 0 < n \<and> list_all (\<lambda>e. json_depth (snd e) \<le> n - 1) m"
  by (cases n; simp add: foldr_max_le)+

declare json_depth.simps(1,2) [simp del]

end
