(* ===== verification/Odrl_Filter.thy ===== *)
theory Odrl_Filter
  imports Catalog_Core Json
begin

text \<open>
  The entitlement decision of \<open>crates/ds-catalog-broker-rs/src/odrl_filter.rs\<close>: which harvested
  datasets a caller may see. The ODRL engine itself is the external crate \<open>ds-odrl-engine-rs\<close>; its
  evaluation is the parameter \<open>eval\<close>, and its constraint type is the free type over the five
  constructor functions the source calls, so any engine factors through it. Serde's printing of the
  cache key and the clock are parameters as well.
\<close>

section \<open>Configuration\<close>

datatype unmappable_constraint_action = SkipConstraint | DropPolicy | HideDataset

datatype no_policy_visibility = VisOpen | VisClosed

record policy_filter_config =
  unmappable_action :: unmappable_constraint_action
  no_policy :: no_policy_visibility
  filter_when_oauth2_disabled :: bool

definition policy_filter_config_default :: policy_filter_config where
  "policy_filter_config_default =
     \<lparr>unmappable_action = HideDataset, no_policy = VisOpen, filter_when_oauth2_disabled = True\<rparr>"

section \<open>The engine's types\<close>

datatype engine_operator =
  OpEq | OpNeq | OpIsAnyOf | OpIsAllOf | OpIsNoneOf | OpIsPartOf | OpLt | OpLteq | OpGt | OpGteq

datatype engine_constraint =
    EAtomic string engine_operator string
  | EAnd "engine_constraint list"
  | EOr "engine_constraint list"
  | EXone "engine_constraint list"
  | EAndSequence "engine_constraint list"

record engine_rule =
  er_action :: string
  er_constraints :: "engine_constraint list"

datatype conflict_strategy = ConflictDefault
datatype behaviour = BehaviourOpen | BehaviourClosed
datatype duty_mode = DutyAdvise

record wire_policy =
  wp_id :: string
  wp_kind :: string
  wp_assigner :: string
  wp_assignee :: "string option"
  wp_permissions :: "engine_rule list"
  wp_prohibitions :: "engine_rule list"
  wp_obligations :: "engine_rule list"
  wp_conflict :: conflict_strategy
  wp_inherit_from :: "string option"

record wire_action_decl =
  wa_id :: string
  wa_included_in :: "string option"

record request_config =
  rc_type :: string
  rc_id :: string
  rc_actions :: "wire_action_decl list"
  rc_duty_mode :: duty_mode
  rc_behaviour :: behaviour
  rc_party_identity_claim :: "string option"
  rc_agreement_assignee_claim :: "string option"

datatype engine_claim = ESingle string | EMulti "string list"

type_synonym claims = "(string, engine_claim) btree"

record engine_request =
  eq_dataset_id :: string
  eq_action :: string
  eq_config :: request_config
  eq_policies :: "wire_policy list"
  eq_claims :: claims
  eq_asset_collections :: "string list"
  eq_context :: "string option"

datatype wire_decision = WireAllow | WireDeny | WireError

type_synonym engine = "engine_request \<Rightarrow> wire_decision"

section \<open>Claims\<close>

definition claim_of_json :: "string \<Rightarrow> json \<Rightarrow> engine_claim option" where
  "claim_of_json key v =
     (case (if key = ''scope'' then as_str v else None) of
        Some scope \<Rightarrow> Some (EMulti (split_ascii_whitespace scope))
      | None \<Rightarrow>
          (case v of
             JString s \<Rightarrow> Some (ESingle s)
           | JArray items \<Rightarrow>
               (if list_all (\<lambda>i. as_str i \<noteq> None) items
                then Some (EMulti (map (\<lambda>i. the (as_str i)) items)) else None)
           | _ \<Rightarrow> None))"

fun jwt_claims_to_engine_claims :: "json \<Rightarrow> claims" where
  "jwt_claims_to_engine_claims (JObject m) =
     fold (\<lambda>(k, v) mapped. case claim_of_json k v of Some c \<Rightarrow> btree_insert k c mapped | None \<Rightarrow> mapped) m []"
| "jwt_claims_to_engine_claims _ = []"

definition PER_TOKEN_CLAIMS :: "string list" where
  "PER_TOKEN_CLAIMS = [''jti'', ''iat'', ''exp'', ''nbf'']"

definition canonical_claims :: "json option \<Rightarrow> claims" where
  "canonical_claims claims =
     filter (\<lambda>(name, c). \<not> List.member PER_TOKEN_CLAIMS name)
       (jwt_claims_to_engine_claims (case claims of Some v \<Rightarrow> v | None \<Rightarrow> JNull))"

definition allow_list_key :: "(claims \<Rightarrow> string) \<Rightarrow> json option \<Rightarrow> string" where
  "allow_list_key print claims = print (canonical_claims claims)"

definition with_context_claims :: "string \<Rightarrow> claims \<Rightarrow> claims" where
  "with_context_claims now claims = btree_insert ''dateTime'' (ESingle now) claims"

section \<open>Mapping a harvested policy to the engine\<close>

datatype unmappable_constraint = UnmappableConstraint

text \<open>\<open>Unreachable\<close> stands for the \<open>unreachable!\<close> of \<open>catalog_policy_to_wire_policy\<close>, a panic.\<close>

datatype policy_mapping_error = HideDatasetForUnmappableConstraint | Unreachable

definition parse_operator :: "string \<Rightarrow> engine_operator option" where
  "parse_operator op =
     map_of [(''eq'', OpEq), (''neq'', OpNeq), (''isAnyOf'', OpIsAnyOf), (''isAllOf'', OpIsAllOf),
       (''isNoneOf'', OpIsNoneOf), (''isPartOf'', OpIsPartOf), (''lt'', OpLt), (''lteq'', OpLteq),
       (''gt'', OpGt), (''gteq'', OpGteq)]
       (case strip_prefix ''odrl:'' op of Some bare \<Rightarrow> bare | None \<Rightarrow> op)"

definition normalize_left_operand :: "string \<Rightarrow> string" where
  "normalize_left_operand l =
     (case strip_prefix ODRL_NS l of
        Some r \<Rightarrow> r
      | None \<Rightarrow> (case strip_prefix ''odrl:'' l of Some r \<Rightarrow> r | None \<Rightarrow> l))"

fun engine_ctor :: "logical_constraint \<Rightarrow> engine_constraint list \<Rightarrow> engine_constraint" where
  "engine_ctor (And cs) = EAnd"
| "engine_ctor (Or cs) = EOr"
| "engine_ctor (Xone cs) = EXone"
| "engine_ctor (AndSequence cs) = EAndSequence"

definition unmappable_result ::
    "policy_filter_config \<Rightarrow> unmappable_constraint + engine_constraint option" where
  "unmappable_result config =
     (case unmappable_action config of
        SkipConstraint \<Rightarrow> Inr None
      | DropPolicy \<Rightarrow> Inl UnmappableConstraint
      | HideDataset \<Rightarrow> Inl UnmappableConstraint)"

function catalog_constraint_to_engine_constraint_at_depth ::
    "constraint \<Rightarrow> policy_filter_config \<Rightarrow> nat \<Rightarrow> unmappable_constraint + engine_constraint option" where
  "catalog_constraint_to_engine_constraint_at_depth (Atomic a) config depth =
     (if depth > MAX_CONSTRAINT_DEPTH then unmappable_result config
      else case parse_operator (operator a) of
        Some op \<Rightarrow> Inr (Some (EAtomic (normalize_left_operand (left_operand a)) op (right_operand a)))
      | None \<Rightarrow> unmappable_result config)"
| "catalog_constraint_to_engine_constraint_at_depth (Logical l) config depth =
     (if depth > MAX_CONSTRAINT_DEPTH then unmappable_result config
      else rbind (traverse (\<lambda>child. catalog_constraint_to_engine_constraint_at_depth child config (depth + 1))
             (children l))
        (\<lambda>mapped. Inr (Some (engine_ctor l (somes mapped)))))"
  by pat_completeness auto

termination
  by (relation "measure (\<lambda>(c, config, depth). size c)") (use children_size in auto)

definition catalog_constraint_to_engine_constraint ::
    "constraint \<Rightarrow> policy_filter_config \<Rightarrow> unmappable_constraint + engine_constraint option" where
  "catalog_constraint_to_engine_constraint c config =
     catalog_constraint_to_engine_constraint_at_depth c config 0"

definition catalog_rule_to_engine_rule ::
    "rule \<Rightarrow> policy_filter_config \<Rightarrow> unmappable_constraint + engine_rule option" where
  "catalog_rule_to_engine_rule r config =
     rbind (traverse (\<lambda>c. catalog_constraint_to_engine_constraint c config) (constraints r))
       (\<lambda>cs. Inr (Some \<lparr>er_action = normalize_action (action r), er_constraints = somes cs\<rparr>))"

fun policy_kind_wire_name :: "policy_kind \<Rightarrow> string" where
  "policy_kind_wire_name KindSet = ''Set''"
| "policy_kind_wire_name KindOffer = ''Offer''"
| "policy_kind_wire_name KindAgreement = ''Agreement''"

definition map_rules :: "rule list \<Rightarrow> policy_filter_config \<Rightarrow> unmappable_constraint + engine_rule list" where
  "map_rules rs config =
     rbind (traverse (\<lambda>r. catalog_rule_to_engine_rule r config) rs) (\<lambda>rs'. Inr (somes rs'))"

definition catalog_policy_to_wire_policy ::
    "policy \<Rightarrow> string \<Rightarrow> policy_filter_config \<Rightarrow> policy_mapping_error + wire_policy option" where
  "catalog_policy_to_wire_policy p fallback_id config =
     (case rbind (map_rules (permissions p) config) (\<lambda>perms.
           rbind (map_rules (prohibitions p) config) (\<lambda>prohs.
           rbind (map_rules (obligations p) config) (\<lambda>obls.
             Inr \<lparr>wp_id = (case policy_id p of Some i \<Rightarrow> i | None \<Rightarrow> fallback_id),
                  wp_kind = policy_kind_wire_name (kind p),
                  wp_assigner = (case assigner p of Some a \<Rightarrow> a | None \<Rightarrow> []),
                  wp_assignee = assignee p,
                  wp_permissions = perms, wp_prohibitions = prohs, wp_obligations = obls,
                  wp_conflict = ConflictDefault, wp_inherit_from = None\<rparr>))) of
        Inr wire_policy \<Rightarrow> Inr (Some wire_policy)
      | Inl UnmappableConstraint \<Rightarrow>
          (case unmappable_action config of
             DropPolicy \<Rightarrow> Inr None
           | HideDataset \<Rightarrow> Inl HideDatasetForUnmappableConstraint
           | SkipConstraint \<Rightarrow> Inl Unreachable))"

section \<open>The decision\<close>

definition wire_rules :: "wire_policy \<Rightarrow> engine_rule list" where
  "wire_rules wp = wp_permissions wp @ wp_prohibitions wp @ wp_obligations wp"

text \<open>\<open>BTreeSet<String>\<close> as a strictly increasing list.\<close>

definition btree_set :: "string list \<Rightarrow> string list" where
  "btree_set xs = map fst (btree_of_list (map (\<lambda>x. (x, ())) xs))"

definition build_request ::
    "dataset \<Rightarrow> wire_policy \<Rightarrow> string \<Rightarrow> claims \<Rightarrow> policy_filter_config \<Rightarrow> engine_request" where
  "build_request d wp act cl config =
     (let act' = normalize_action act
      in \<lparr>eq_dataset_id = dataset_id d, eq_action = act',
          eq_config =
            \<lparr>rc_type = ''odrl:Profile'',
             rc_id = ''urn:ds-catalog-broker-rs:odrl-filter-config'',
             rc_actions = map (\<lambda>i. \<lparr>wa_id = i, wa_included_in = None\<rparr>)
               (btree_set (act' # map er_action (wire_rules wp))),
             rc_duty_mode = DutyAdvise,
             rc_behaviour = (case no_policy config of VisOpen \<Rightarrow> BehaviourOpen | VisClosed \<Rightarrow> BehaviourClosed),
             rc_party_identity_claim = Some ''sub'',
             rc_agreement_assignee_claim = None\<rparr>,
          eq_policies = [wp], eq_claims = cl, eq_asset_collections = [], eq_context = None\<rparr>)"

definition fallback_policy_id :: "dataset \<Rightarrow> nat \<Rightarrow> string" where
  "fallback_policy_id d i = dataset_id d @ ''-policy-'' @ show_nat i"

text \<open>The loop over the alternative offers; \<open>Unreachable\<close> is a panic, shown never to occur.\<close>

fun visible_loop ::
    "engine \<Rightarrow> dataset \<Rightarrow> claims \<Rightarrow> string \<Rightarrow> policy_filter_config \<Rightarrow> nat \<Rightarrow> policy list \<Rightarrow> bool" where
  "visible_loop eval d cl act config i [] = False"
| "visible_loop eval d cl act config i (p # ps) =
     (case catalog_policy_to_wire_policy p (fallback_policy_id d i) config of
        Inl e \<Rightarrow> False
      | Inr None \<Rightarrow> visible_loop eval d cl act config (Suc i) ps
      | Inr (Some wp) \<Rightarrow>
          if eval (build_request d wp act cl config) = WireAllow then True
          else visible_loop eval d cl act config (Suc i) ps)"

definition dataset_is_visible ::
    "engine \<Rightarrow> dataset \<Rightarrow> claims \<Rightarrow> string \<Rightarrow> policy_filter_config \<Rightarrow> bool" where
  "dataset_is_visible eval d cl act config =
     (if policies d = [] then no_policy config = VisOpen
      else visible_loop eval d cl act config 0 (policies d))"

section \<open>What the mapping keeps\<close>

text \<open>
  The reference mapping has no depth counter and no error: it renames a constraint tree node by node.
  It is what the code computes exactly on the trees it can map.
\<close>

function ops_known :: "constraint \<Rightarrow> bool" where
  "ops_known (Atomic a) = (parse_operator (operator a) \<noteq> None)"
| "ops_known (Logical l) = (\<forall>c\<in>set (children l). ops_known c)"
  by pat_completeness auto

termination
  by (relation "measure size") (use children_size in auto)

function engine_image :: "constraint \<Rightarrow> engine_constraint" where
  "engine_image (Atomic a) =
     EAtomic (normalize_left_operand (left_operand a)) (the (parse_operator (operator a))) (right_operand a)"
| "engine_image (Logical l) = engine_ctor l (map engine_image (children l))"
  by pat_completeness auto

termination
  by (relation "measure size") (use children_size in auto)

definition mappable :: "constraint \<Rightarrow> bool" where
  "mappable c \<longleftrightarrow> height c \<le> MAX_CONSTRAINT_DEPTH \<and> ops_known c"

definition policy_mappable :: "policy \<Rightarrow> bool" where
  "policy_mappable p \<longleftrightarrow> (\<forall>r\<in>set (policy_rules p). \<forall>c\<in>set (constraints r). mappable c)"

definition engine_rule_image :: "rule \<Rightarrow> engine_rule" where
  "engine_rule_image r =
     \<lparr>er_action = normalize_action (action r), er_constraints = map engine_image (constraints r)\<rparr>"

definition wire_image :: "policy \<Rightarrow> string \<Rightarrow> wire_policy" where
  "wire_image p fallback_id =
     \<lparr>wp_id = (case policy_id p of Some i \<Rightarrow> i | None \<Rightarrow> fallback_id),
      wp_kind = policy_kind_wire_name (kind p),
      wp_assigner = (case assigner p of Some a \<Rightarrow> a | None \<Rightarrow> []),
      wp_assignee = assignee p,
      wp_permissions = map engine_rule_image (permissions p),
      wp_prohibitions = map engine_rule_image (prohibitions p),
      wp_obligations = map engine_rule_image (obligations p),
      wp_conflict = ConflictDefault, wp_inherit_from = None\<rparr>"

lemma unmappable_result_strict [simp]:
  "unmappable_action config \<noteq> SkipConstraint \<Longrightarrow> unmappable_result config = Inl UnmappableConstraint"
  by (cases "unmappable_action config") (simp_all add: unmappable_result_def)

lemma unmappable_result_skip [simp]:
  "unmappable_action config = SkipConstraint \<Longrightarrow> unmappable_result config = Inr None"
  by (simp add: unmappable_result_def)

lemma map_constraint_ok:
  "depth + height c \<le> MAX_CONSTRAINT_DEPTH \<Longrightarrow> ops_known c \<Longrightarrow>
   catalog_constraint_to_engine_constraint_at_depth c config depth = Inr (Some (engine_image c))"
proof (induction c arbitrary: depth rule: constraint_induct)
  case (Atomic a)
  then show ?case by (auto split: option.splits)
next
  case (Logical l)
  have "depth + 1 + height c \<le> MAX_CONSTRAINT_DEPTH" if "c \<in> set (children l)" for c
    using height_child [OF that] Logical.prems(1) by simp
  then have "traverse (\<lambda>child. catalog_constraint_to_engine_constraint_at_depth child config (depth + 1))
      (children l) = Inr (map (\<lambda>c. Some (engine_image c)) (children l))"
    using Logical by (intro traverse_all_Inr) auto
  then show ?case using Logical.prems(1) by simp
qed

lemma unmappable_constraint_unique: "(e :: unmappable_constraint) = UnmappableConstraint"
  by (cases e) simp

lemma not_height_le_children:
  "\<not> (depth + height (Logical l) \<le> n \<and> ops_known (Logical l)) \<Longrightarrow> depth \<le> n \<Longrightarrow>
   \<exists>c\<in>set (children l). \<not> (depth + 1 + height c \<le> n \<and> ops_known c)"
proof (rule ccontr)
  assume a: "\<not> (depth + height (Logical l) \<le> n \<and> ops_known (Logical l))" "depth \<le> n"
    and "\<not> (\<exists>c\<in>set (children l). \<not> (depth + 1 + height c \<le> n \<and> ops_known c))"
  then have all: "\<And>c. c \<in> set (children l) \<Longrightarrow> depth + 1 + height c \<le> n \<and> ops_known c" by blast
  show False
  proof (cases "children l = []")
    case False
    then obtain m where "n = Suc (depth + m)"
      using all by (metis Suc_le_D Suc_eq_plus1 add_Suc add_leD1 hd_in_set le_iff_add)
    then have "height (Logical l) \<le> Suc m"
      using all by (auto simp: height_Logical_le)
    then show False using a(1) all \<open>n = Suc (depth + m)\<close> by auto
  qed (use a in \<open>simp add: height.simps(2)\<close>)
qed

lemma map_constraint_error:
  assumes strict: "unmappable_action config \<noteq> SkipConstraint"
  shows "\<not> (depth + height c \<le> MAX_CONSTRAINT_DEPTH \<and> ops_known c) \<Longrightarrow>
   catalog_constraint_to_engine_constraint_at_depth c config depth = Inl UnmappableConstraint"
proof (induction c arbitrary: depth rule: constraint_induct)
  case (Atomic a)
  then show ?case using strict by (auto split: option.splits)
next
  case (Logical l)
  show ?case
  proof (cases "depth > MAX_CONSTRAINT_DEPTH")
    case False
    then obtain c where "c \<in> set (children l)"
      "\<not> (depth + 1 + height c \<le> MAX_CONSTRAINT_DEPTH \<and> ops_known c)"
      using not_height_le_children [OF Logical.prems] by auto
    then have "traverse (\<lambda>child. catalog_constraint_to_engine_constraint_at_depth child config (depth + 1))
        (children l) = Inl UnmappableConstraint"
      using Logical.IH unmappable_constraint_unique by (intro traverse_error) auto
    then show ?thesis using False by simp
  qed (use strict in simp)
qed

lemma map_rule_ok:
  "(\<And>c. c \<in> set (constraints r) \<Longrightarrow> mappable c) \<Longrightarrow>
   catalog_rule_to_engine_rule r config = Inr (Some (engine_rule_image r))"
proof -
  assume "\<And>c. c \<in> set (constraints r) \<Longrightarrow> mappable c"
  then have "traverse (\<lambda>c. catalog_constraint_to_engine_constraint c config) (constraints r)
      = Inr (map (\<lambda>c. Some (engine_image c)) (constraints r))"
    by (intro traverse_all_Inr)
      (simp add: catalog_constraint_to_engine_constraint_def map_constraint_ok mappable_def)
  then show ?thesis by (simp add: catalog_rule_to_engine_rule_def engine_rule_image_def)
qed

lemma map_rules_ok:
  "(\<And>r c. r \<in> set rs \<Longrightarrow> c \<in> set (constraints r) \<Longrightarrow> mappable c) \<Longrightarrow>
   map_rules rs config = Inr (map engine_rule_image rs)"
proof -
  assume "\<And>r c. r \<in> set rs \<Longrightarrow> c \<in> set (constraints r) \<Longrightarrow> mappable c"
  then have "traverse (\<lambda>r. catalog_rule_to_engine_rule r config) rs
      = Inr (map (\<lambda>r. Some (engine_rule_image r)) rs)"
    by (intro traverse_all_Inr map_rule_ok) blast
  then show ?thesis by (simp add: map_rules_def)
qed

lemma map_rules_error:
  assumes strict: "unmappable_action config \<noteq> SkipConstraint"
    and "r \<in> set rs" "c \<in> set (constraints r)" "\<not> mappable c"
  shows "map_rules rs config = Inl UnmappableConstraint"
proof -
  have "catalog_constraint_to_engine_constraint c config = Inl UnmappableConstraint"
    using map_constraint_error [OF strict, of 0 c] assms(4)
    by (simp add: catalog_constraint_to_engine_constraint_def mappable_def)
  then have "traverse (\<lambda>c. catalog_constraint_to_engine_constraint c config) (constraints r)
      = Inl UnmappableConstraint"
    using assms(3) unmappable_constraint_unique by (intro traverse_error) auto
  then have "catalog_rule_to_engine_rule r config = Inl UnmappableConstraint"
    by (simp add: catalog_rule_to_engine_rule_def)
  then have "traverse (\<lambda>r. catalog_rule_to_engine_rule r config) rs = Inl UnmappableConstraint"
    using assms(2) unmappable_constraint_unique by (intro traverse_error) auto
  then show ?thesis by (simp add: map_rules_def)
qed

lemma policy_to_wire_mappable:
  assumes "policy_mappable p"
  shows "catalog_policy_to_wire_policy p fid config = Inr (Some (wire_image p fid))"
proof -
  have "map_rules (permissions p) config = Inr (map engine_rule_image (permissions p))"
    "map_rules (prohibitions p) config = Inr (map engine_rule_image (prohibitions p))"
    "map_rules (obligations p) config = Inr (map engine_rule_image (obligations p))"
    using assms by (auto intro!: map_rules_ok simp: policy_mappable_def policy_rules_def)
  then show ?thesis by (simp add: catalog_policy_to_wire_policy_def wire_image_def)
qed

lemma policy_to_wire_unmappable:
  assumes "\<not> policy_mappable p" "unmappable_action config \<noteq> SkipConstraint"
  shows "catalog_policy_to_wire_policy p fid config =
    (if unmappable_action config = DropPolicy then Inr None else Inl HideDatasetForUnmappableConstraint)"
proof -
  obtain r c where "r \<in> set (policy_rules p)" "c \<in> set (constraints r)" "\<not> mappable c"
    using assms(1) by (auto simp: policy_mappable_def)
  then consider "map_rules (permissions p) config = Inl UnmappableConstraint"
    | "map_rules (prohibitions p) config = Inl UnmappableConstraint"
    | "map_rules (obligations p) config = Inl UnmappableConstraint"
    using map_rules_error [OF assms(2)] by (auto simp: policy_rules_def)
  then have "rbind (map_rules (permissions p) config) (\<lambda>perms.
      rbind (map_rules (prohibitions p) config) (\<lambda>prohs.
      rbind (map_rules (obligations p) config) (\<lambda>obls. Inr (w perms prohs obls))))
      = (Inl UnmappableConstraint :: unmappable_constraint + wire_policy)" for w
    by cases (cases "map_rules (permissions p) config"; cases "map_rules (prohibitions p) config";
        simp add: unmappable_constraint_unique)+
  then show ?thesis
    using assms(2) by (cases "unmappable_action config") (simp_all add: catalog_policy_to_wire_policy_def)
qed

section \<open>Dropping what cannot be mapped\<close>

text \<open>
  What \<open>SkipConstraint\<close> does, as a function on the policy itself: a constraint at or below the depth
  bound with an unknown operator disappears from its group or rule, a subtree beyond the bound
  disappears as a whole.
\<close>

function prune_at :: "nat \<Rightarrow> constraint \<Rightarrow> constraint option" where
  "prune_at depth (Atomic a) =
     (if depth > MAX_CONSTRAINT_DEPTH \<or> parse_operator (operator a) = None then None else Some (Atomic a))"
| "prune_at depth (Logical l) =
     (if depth > MAX_CONSTRAINT_DEPTH then None
      else let cs = somes (map (prune_at (Suc depth)) (children l)) in
        Some (Logical (case l of And _ \<Rightarrow> And cs | Or _ \<Rightarrow> Or cs | Xone _ \<Rightarrow> Xone cs
          | AndSequence _ \<Rightarrow> AndSequence cs)))"
  by pat_completeness auto

termination
  by (relation "measure (\<lambda>(depth, c). size c)") (use children_size in auto)

definition prune_rule :: "rule \<Rightarrow> rule" where
  "prune_rule r = r\<lparr>constraints := somes (map (prune_at 0) (constraints r))\<rparr>"

definition prune_policy :: "policy \<Rightarrow> policy" where
  "prune_policy p = p\<lparr>permissions := map prune_rule (permissions p),
     prohibitions := map prune_rule (prohibitions p), obligations := map prune_rule (obligations p)\<rparr>"

lemma somes_map_option: "somes (map (\<lambda>x. map_option g (f x)) xs) = map g (somes (map f xs))"
proof (induction xs)
  case (Cons x xs)
  then show ?case by (cases "f x") simp_all
qed simp

lemma map_constraint_skip_eq:
  assumes skip: "unmappable_action config = SkipConstraint"
  shows "catalog_constraint_to_engine_constraint_at_depth c config depth
    = Inr (map_option engine_image (prune_at depth c))"
proof (induction c arbitrary: depth rule: constraint_induct)
  case (Atomic a)
  then show ?case using skip by (auto split: option.splits)
next
  case (Logical l)
  have "traverse (\<lambda>child. catalog_constraint_to_engine_constraint_at_depth child config (depth + 1)) (children l)
      = Inr (map (\<lambda>c. map_option engine_image (prune_at (Suc depth) c)) (children l))"
    using Logical.IH by (intro traverse_all_Inr) simp
  then show ?case
    using skip by (cases l) (simp_all add: Let_def somes_map_option)
qed

lemma map_rules_skip_eq:
  assumes skip: "unmappable_action config = SkipConstraint"
  shows "map_rules rs config = Inr (map (\<lambda>r. engine_rule_image (prune_rule r)) rs)"
proof -
  have "catalog_rule_to_engine_rule r config = Inr (Some (engine_rule_image (prune_rule r)))" for r
  proof -
    have "traverse (\<lambda>c. catalog_constraint_to_engine_constraint c config) (constraints r)
        = Inr (map (\<lambda>c. map_option engine_image (prune_at 0 c)) (constraints r))"
      by (intro traverse_all_Inr)
        (simp add: catalog_constraint_to_engine_constraint_def map_constraint_skip_eq [OF skip])
    then show ?thesis
      by (simp add: catalog_rule_to_engine_rule_def engine_rule_image_def prune_rule_def somes_map_option)
  qed
  then have "traverse (\<lambda>r. catalog_rule_to_engine_rule r config) rs
      = Inr (map (\<lambda>r. Some (engine_rule_image (prune_rule r))) rs)"
    by (intro traverse_all_Inr)
  then show ?thesis by (simp add: map_rules_def)
qed

lemma policy_to_wire_skip:
  assumes "unmappable_action config = SkipConstraint"
  shows "catalog_policy_to_wire_policy p fid config = Inr (Some (wire_image (prune_policy p) fid))"
  by (simp add: catalog_policy_to_wire_policy_def map_rules_skip_eq [OF assms] wire_image_def
      prune_policy_def comp_def)

text \<open>
  Claim C14. The mapping of a harvested policy to the engine, for every configuration: with
  \<open>SkipConstraint\<close> it is the node-by-node image of the policy without its unmappable constraints, and
  nothing fails; otherwise a policy whose constraints all have a known operator and lie within the depth bound
  gets its exact image, and any other policy is dropped or hides the dataset, as configured. The
  \<open>unreachable!\<close> of the source is not reached.
\<close>

theorem policy_mapping_exact:
  "catalog_policy_to_wire_policy p fid config =
     (if unmappable_action config = SkipConstraint then Inr (Some (wire_image (prune_policy p) fid))
      else if policy_mappable p then Inr (Some (wire_image p fid))
      else if unmappable_action config = DropPolicy then Inr None
      else Inl HideDatasetForUnmappableConstraint)"
  using policy_to_wire_skip policy_to_wire_mappable policy_to_wire_unmappable by simp

section \<open>Visibility\<close>

lemma visible_loop_iff:
  assumes strict: "unmappable_action config \<noteq> SkipConstraint"
  shows "visible_loop eval d cl act config n ps \<longleftrightarrow>
    (\<exists>i<length ps. policy_mappable (ps ! i) \<and>
       eval (build_request d (wire_image (ps ! i) (fallback_policy_id d (n + i))) act cl config) = WireAllow \<and>
       (unmappable_action config = HideDataset \<longrightarrow> (\<forall>j<i. policy_mappable (ps ! j))))"
proof (induction ps arbitrary: n)
  case (Cons p ps)
  let ?ok = "\<lambda>qs k i. policy_mappable (qs ! i) \<and>
      eval (build_request d (wire_image (qs ! i) (fallback_policy_id d (k + i))) act cl config) = WireAllow"
  have split: "(\<exists>i<length (p # ps). P i) \<longleftrightarrow> P 0 \<or> (\<exists>i<length ps. P (Suc i))" for P
    by (auto simp: less_Suc_eq_0_disj)
  have all: "(\<forall>j<Suc i. policy_mappable ((p # ps) ! j)) \<longleftrightarrow>
      policy_mappable p \<and> (\<forall>j<i. policy_mappable (ps ! j))" for i
    by (auto simp: less_Suc_eq_0_disj)
  show ?case
  proof (cases "policy_mappable p")
    case True
    then show ?thesis
      unfolding split all using Cons.IH [of "Suc n"] by (auto simp: policy_to_wire_mappable)
  next
    case False
    then show ?thesis
      unfolding split all using Cons.IH [of "Suc n"] strict
      by (cases "unmappable_action config") (auto simp: policy_to_wire_unmappable)
  qed
qed simp


definition open_offer :: policy where
  "open_offer = \<lparr>policy_id = None, kind = KindOffer, assigner = None, assignee = None,
     permissions = [\<lparr>action = ''use'', constraints = []\<rparr>], prohibitions = [], obligations = []\<rparr>"

definition marked_offer :: policy where
  "marked_offer = open_offer\<lparr>permissions := [\<lparr>action = ''use'', constraints = [unmappable ''x'']\<rparr>]\<rparr>"

definition two_offers :: dataset where
  "two_offers = \<lparr>dataset_id = ''d'', ds_properties = [], distributions = [],
     policies = [open_offer, marked_offer]\<rparr>"

lemma parse_marker [simp]: "parse_operator UNMAPPABLE_OPERATOR = None"
  by (simp add: parse_operator_def UNMAPPABLE_OPERATOR_def strip_prefix_def)

lemma marker_not_mappable [simp]: "\<not> mappable (unmappable raw)"
  by (simp add: mappable_def unmappable_def atomic_def)

lemma example_offers [simp]: "policy_mappable open_offer" "\<not> policy_mappable marked_offer"
  by (simp_all add: policy_mappable_def policy_rules_def open_offer_def marked_offer_def)


function has_marker :: "constraint \<Rightarrow> bool" where
  "has_marker (Atomic a) = is_unmappable (Atomic a)"
| "has_marker (Logical l) = (\<exists>c\<in>set (children l). has_marker c)"
  by pat_completeness auto

termination
  by (relation "measure size") (use children_size in auto)

lemma has_marker_ops: "has_marker c \<Longrightarrow> \<not> ops_known c"
  by (induction c rule: constraint_induct) auto

definition policy_marked :: "policy \<Rightarrow> bool" where
  "policy_marked p \<longleftrightarrow> (\<exists>r\<in>set (policy_rules p). \<exists>c\<in>set (constraints r). has_marker c)"

lemma policy_marked_not_mappable: "policy_marked p \<Longrightarrow> \<not> policy_mappable p"
  using has_marker_ops by (auto simp: policy_marked_def policy_mappable_def mappable_def)

text \<open>
  Claim C15. A marker never grants: when every offer of a dataset contains, anywhere in a rule's constraints, the
  marker the crawler writes for content it could not read, no engine and no claims make the dataset
  visible, unless the deployment chose to skip such constraints.
\<close>

theorem marker_never_grants:
  assumes "unmappable_action config \<noteq> SkipConstraint" "policies d \<noteq> []"
    "\<forall>p\<in>set (policies d). policy_marked p"
  shows "\<not> dataset_is_visible eval d cl act config"
proof -
  have "\<not> policy_mappable (policies d ! i)" if "i < length (policies d)" for i
    using that assms(3) policy_marked_not_mappable by simp
  then show ?thesis
    using assms(2) visible_loop_iff [OF assms(1), of eval d cl act 0 "policies d"]
    by (auto simp: dataset_is_visible_def)
qed

theorem marker_never_grants_witness:
  "\<not> dataset_is_visible (\<lambda>_. WireAllow) (two_offers\<lparr>policies := [marked_offer]\<rparr>) [] ''use''
     (policy_filter_config_default\<lparr>unmappable_action := DropPolicy\<rparr>)"
  by (rule marker_never_grants)
    (simp_all add: policy_marked_def policy_rules_def marked_offer_def open_offer_def unmappable_def atomic_def)

text \<open>
  Under \<open>HideDataset\<close> the position of an offer matters: an offer the engine allows makes the
  dataset visible before any later offer is looked at, so a later unmappable offer hides nothing, whereas
  the same unmappable offer in front hides the dataset from everyone.
\<close>

theorem unmappable_offer_order:
  assumes "unmappable_action config = HideDataset" "policy_mappable p" "\<not> policy_mappable q"
    "policies d = p # q # ps"
    "eval (build_request d (wire_image p (fallback_policy_id d 0)) act cl config) = WireAllow"
  shows "dataset_is_visible eval d cl act config \<and>
    \<not> dataset_is_visible eval (d\<lparr>policies := q # p # ps\<rparr>) cl act config"
  using assms by (simp add: dataset_is_visible_def policy_to_wire_mappable policy_to_wire_unmappable)

theorem unmappable_offer_order_witness:
  "dataset_is_visible (\<lambda>_. WireAllow) two_offers [] ''use'' policy_filter_config_default \<and>
   \<not> dataset_is_visible (\<lambda>_. WireAllow) (two_offers\<lparr>policies := [marked_offer, open_offer]\<rparr>) [] ''use''
       policy_filter_config_default"
  using unmappable_offer_order [of policy_filter_config_default open_offer marked_offer two_offers "[]"
      "\<lambda>_. WireAllow" "''use''" "[]"]
  by (simp add: policy_filter_config_default_def two_offers_def)

section \<open>The request\<close>

lemma btree_set_props [simp]: "set (btree_set xs) = set xs" "sorted_wrt (<) (btree_set xs)"
proof -
  have dom: "fst ` set (fold (\<lambda>(k, v). btree_insert k v) ys m) = fst ` set ys \<union> fst ` set m"
    for ys :: "(string \<times> unit) list" and m
  proof (induction ys arbitrary: m)
    case (Cons y ys)
    then show ?case by (cases y) (auto simp: fst_set_btree_insert)
  qed simp
  show "set (btree_set xs) = set xs"
    by (simp add: btree_set_def btree_of_list_def dom image_image)
  show "sorted_wrt (<) (btree_set xs)"
    using btree_of_list_ok [of "map (\<lambda>x. (x, ())) xs"] by (simp add: btree_set_def btree_ok_def)
qed

text \<open>
  Every request sent to the engine judges exactly one offer under the caller's identity claim, and
  declares, once each, exactly the requested action and the actions of that offer's rules, all in canonical
  spelling; so no requested action is unknown to the engine, even for an offer without rules.
\<close>

theorem request_declares_its_actions:
  "let req = build_request d (wire_image p fid) act cl config
   in eq_policies req = [wire_image p fid] \<and> eq_claims req = cl \<and>
      eq_action req = normalize_action act \<and>
      wa_id ` set (rc_actions (eq_config req)) =
        insert (normalize_action act) (normalize_action ` action ` set (policy_rules p)) \<and>
      distinct (map wa_id (rc_actions (eq_config req))) \<and>
      rc_party_identity_claim (eq_config req) = Some ''sub'' \<and>
      (rc_behaviour (eq_config req) = BehaviourOpen) = (no_policy config = VisOpen)"
proof -
  have rules: "er_action ` set (wire_rules (wire_image p fid)) = normalize_action ` action ` set (policy_rules p)"
    by (auto simp: wire_rules_def wire_image_def policy_rules_def engine_rule_image_def image_image
        image_Un)
  have "distinct (btree_set xs)" for xs
    using btree_set_props(2) strict_sorted_iff by blast
  then show ?thesis
    using rules by (auto simp: build_request_def Let_def image_image comp_def
        split: no_policy_visibility.splits)
qed

section \<open>Claims and the cache key\<close>

lemma claims_fold:
  assumes "distinct (map fst m)" "btree_ok acc" "fst ` set m \<inter> fst ` set acc = {}"
  shows "map_of (fold (\<lambda>(k, v) mapped. case claim_of_json k v of Some c \<Rightarrow> btree_insert k c mapped
      | None \<Rightarrow> mapped) m acc) k
    = (case map_of m k of Some v \<Rightarrow> claim_of_json k v | None \<Rightarrow> map_of acc k)"
  using assms
proof (induction m arbitrary: acc)
  case (Cons kv m)
  obtain k' v where kv: "kv = (k', v)" by (cases kv)
  have none: "map_of m k' = None" using Cons.prems(1) kv by (simp add: map_of_eq_None_iff)
  have none': "map_of acc k' = None" using Cons.prems(3) kv by (simp add: map_of_eq_None_iff)
  show ?case
  proof (cases "claim_of_json k' v")
    case None
    then show ?thesis using Cons kv none none' by auto
  next
    case (Some c)
    have "fst ` set m \<inter> fst ` set (btree_insert k' c acc) = {}"
      using Cons.prems kv by (auto simp: fst_set_btree_insert)
    then show ?thesis using Cons kv none Some by (auto split: option.splits)
  qed
qed simp

lemma claims_fold_ok:
  "btree_ok acc \<Longrightarrow> btree_ok (fold (\<lambda>(k, v) mapped. case claim_of_json k v of Some c \<Rightarrow> btree_insert k c mapped
      | None \<Rightarrow> mapped) m acc)"
  by (induction m arbitrary: acc) (auto split: option.splits)

lemma jwt_claims_ok [simp]: "btree_ok (jwt_claims_to_engine_claims v)"
  by (cases v) (simp_all add: claims_fold_ok)

text \<open>
  The engine's claims are the token's claims read one by one: a claim is present exactly when its
  value has an engine shape, with a string \<open>scope\<close> split on white space; and the host's \<open>dateTime\<close>
  replaces any \<open>dateTime\<close> the token carries and changes no other claim.
\<close>

theorem claims_by_name:
  assumes "distinct (map fst m)"
  shows "map_of (with_context_claims now (jwt_claims_to_engine_claims (JObject m))) k =
    (if k = ''dateTime'' then Some (ESingle now) else Option.bind (map_of m k) (claim_of_json k))"
  using claims_fold [OF assms, of "[]" k]
  by (simp add: with_context_claims_def split: option.splits)

theorem claims_by_name_witness:
  "map_of (with_context_claims ''now'' (jwt_claims_to_engine_claims
      (JObject [(''dateTime'', JString ''x''), (''n'', JNull), (''scope'', JString ''a b'')]))) ''scope''
     = Some (EMulti [''a'', ''b''])"
proof -
  have "split_ascii_whitespace ''a b'' = [''a'', ''b'']"
    by code_simp
  then show ?thesis by (subst claims_by_name) (simp_all add: claim_of_json_def)
qed

lemma map_of_filter_key: "map_of (filter (\<lambda>(n, c). P n) m) k = (if P k then map_of m k else None)"
  by (induction m) auto

text \<open>
  Callers share a cached allow-list only when the engine sees the same claims of them, the
  per-token ones apart; this rests on the printer of the key being injective.
\<close>

theorem same_key_same_claims:
  assumes "inj print" "allow_list_key print c1 = allow_list_key print c2" "\<not> List.member PER_TOKEN_CLAIMS k"
  shows "map_of (jwt_claims_to_engine_claims (case c1 of Some v \<Rightarrow> v | None \<Rightarrow> JNull)) k =
    map_of (jwt_claims_to_engine_claims (case c2 of Some v \<Rightarrow> v | None \<Rightarrow> JNull)) k"
proof -
  have "canonical_claims c1 = canonical_claims c2"
    using assms(1,2) by (simp add: allow_list_key_def inj_eq)
  then have "map_of (canonical_claims c1) k = map_of (canonical_claims c2) k" by simp
  then show ?thesis using assms(3) by (simp add: canonical_claims_def map_of_filter_key)
qed

text \<open>A printer that has this property: lengths in front of strings and lists.\<close>

definition show_str :: "string \<Rightarrow> string" where
  "show_str s = show_nat (length s) @ '':'' @ s"

fun show_strs :: "string list \<Rightarrow> string" where
  "show_strs [] = ''.''"
| "show_strs (s # ss) = '','' @ show_str s @ show_strs ss"

fun show_claims :: "claims \<Rightarrow> string" where
  "show_claims [] = []"
| "show_claims ((k, ESingle s) # cl) = ''S'' @ show_str k @ show_str s @ show_claims cl"
| "show_claims ((k, EMulti ss) # cl) = ''M'' @ show_str k @ show_strs ss @ show_claims cl"

lemma show_nat_delimited: "show_nat m @ CHR '':'' # r = show_nat n @ CHR '':'' # q \<Longrightarrow> m = n \<and> r = q"
proof -
  assume eq: "show_nat m @ CHR '':'' # r = show_nat n @ CHR '':'' # q"
  have "CHR '':'' \<notin> set (show_nat k)" for k
    using show_nat_chars is_digit_props by blast
  then have "Some (show_nat m, r) = Some (show_nat n, q)"
    using eq split_once_append by metis
  then show ?thesis by simp
qed

lemma show_str_delimited: "show_str s @ r = show_str t @ q \<longleftrightarrow> s = t \<and> r = q"
  using show_nat_delimited [of "length s" "s @ r" "length t" "t @ q"] by (auto simp: show_str_def)

lemma show_strs_delimited: "show_strs ss @ r = show_strs ts @ q \<longleftrightarrow> ss = ts \<and> r = q"
  by (induction ss ts rule: list_induct2') (auto simp: show_str_delimited)

lemma inj_show_claims: "inj show_claims"
proof
  fix a b :: claims
  show "show_claims a = show_claims b \<Longrightarrow> a = b"
  proof (induction a b rule: list_induct2')
    case (4 x xs y ys)
    then show ?case
      by (cases x; cases y; cases "snd x"; cases "snd y")
        (auto simp: show_str_delimited show_strs_delimited)
  next
    case (2 x xs)
    then show ?case by (cases x; cases "snd x") auto
  next
    case (3 y ys)
    then show ?case by (cases y; cases "snd y") auto
  qed simp
qed

theorem same_key_same_claims_witness:
  "map_of (jwt_claims_to_engine_claims (JObject [(''jti'', JString ''1''), (''sub'', JString ''a'')])) ''sub'' =
   map_of (jwt_claims_to_engine_claims (JObject [(''jti'', JString ''2''), (''sub'', JString ''a'')])) ''sub''"
  using same_key_same_claims [OF inj_show_claims,
      of "Some (JObject [(''jti'', JString ''1''), (''sub'', JString ''a'')])"
         "Some (JObject [(''jti'', JString ''2''), (''sub'', JString ''a'')])" "''sub''"]
  by (simp add: allow_list_key_def canonical_claims_def claim_of_json_def PER_TOKEN_CLAIMS_def)

text \<open>
  The key leaves \<open>jti\<close> out although the engine is given it: two tokens with one key may present the
  engine with different claims, so for an offer that names \<open>jti\<close> the decisions may differ.
\<close>

theorem key_ignores_jti:
  assumes "j1 \<noteq> j2"
  shows "allow_list_key print (Some (JObject [(''jti'', JString j1)]))
      = allow_list_key print (Some (JObject [(''jti'', JString j2)])) \<and>
    map_of (jwt_claims_to_engine_claims (JObject [(''jti'', JString j1)])) ''jti''
      \<noteq> map_of (jwt_claims_to_engine_claims (JObject [(''jti'', JString j2)])) ''jti''"
  using assms by (simp add: allow_list_key_def canonical_claims_def claim_of_json_def PER_TOKEN_CLAIMS_def)

end
