(* ===== verification/Net_Http.thy ===== *)
theory Net_Http
  imports Prelude
begin

text \<open>
  What the clients of the program use of the standard library's addresses and of an HTTP exchange:
  \<open>str::parse::<IpAddr>\<close> with \<open>is_loopback\<close>, and a reply as it is read, status first and then the body in
  chunks. The peer's replies are a parameter wherever a request is sent.
\<close>

section \<open>IP literals\<close>

definition hex_value :: "char \<Rightarrow> nat option" where
  "hex_value c =
     (let n = of_char c :: nat in
        if 48 \<le> n \<and> n \<le> 57 then Some (n - 48)
        else if 97 \<le> n \<and> n \<le> 102 then Some (n - 87)
        else if 65 \<le> n \<and> n \<le> 70 then Some (n - 55) else None)"

text \<open>A group of an IPv6 address: one to four hexadecimal digits.\<close>

definition v6_group :: "string \<Rightarrow> nat option" where
  "v6_group s =
     (if s = [] \<or> length s > 4 \<or> list_ex (\<lambda>c. hex_value c = None) s then None
      else Some (foldl (\<lambda>n c. 16 * n + the (hex_value c)) 0 s))"

text \<open>An octet: one to three decimal digits without a leading zero, at most 255.\<close>

definition v4_octet :: "string \<Rightarrow> nat option" where
  "v4_octet s =
     (if s = [] \<or> length s > 3 \<or> list_ex (\<lambda>c. \<not> is_digit c) s \<or> length s > 1 \<and> hd s = CHR ''0'' then None
      else let n = digits_val 0 s in if n \<le> 255 then Some n else None)"

definition parse_ipv4 :: "string \<Rightarrow> nat list option" where
  "parse_ipv4 s =
     (let octets = map v4_octet (split_on (CHR ''.'') s)
      in if length octets = 4 \<and> None \<notin> set octets then Some (map the octets) else None)"

text \<open>
  One side of an IPv6 address: groups between colons; \<open>v4\<close> tells whether the last may be a dotted quad, which
  stands for two groups.
\<close>

fun v6_groups :: "bool \<Rightarrow> string list \<Rightarrow> nat list option" where
  "v6_groups v4 [] = Some []"
| "v6_groups v4 [g] =
     (case (if v4 then parse_ipv4 g else None) of
        Some [a, b, c, d] \<Rightarrow> Some [256 * a + b, 256 * c + d]
      | _ \<Rightarrow> map_option (\<lambda>n. [n]) (v6_group g))"
| "v6_groups v4 (g # gs) =
     (case v6_group g of None \<Rightarrow> None | Some n \<Rightarrow> map_option ((#) n) (v6_groups v4 gs))"

definition v6_side :: "bool \<Rightarrow> string \<Rightarrow> nat list option" where
  "v6_side v4 s = (if s = [] then Some [] else v6_groups v4 (split_on (CHR '':'') s))"

fun split_gap :: "string \<Rightarrow> (string \<times> string) option" where
  "split_gap [] = None"
| "split_gap (c # cs) =
     (if prefix ''::'' (c # cs) then Some ([], drop 2 (c # cs))
      else map_option (\<lambda>(a, b). (c # a, b)) (split_gap cs))"

definition parse_ipv6 :: "string \<Rightarrow> nat list option" where
  "parse_ipv6 s =
     (case split_gap s of
        None \<Rightarrow> (case v6_side True s of Some gs \<Rightarrow> if length gs = 8 then Some gs else None | None \<Rightarrow> None)
      | Some (a, b) \<Rightarrow>
          (case (v6_side False a, v6_side True b) of
             (Some l, Some r) \<Rightarrow>
               if length l + length r \<le> 7 then Some (l @ replicate (8 - length l - length r) 0 @ r) else None
           | _ \<Rightarrow> None))"

definition is_loopback_literal :: "string \<Rightarrow> bool" where
  "is_loopback_literal s =
     (case parse_ipv4 s of
        Some octets \<Rightarrow> hd octets = 127
      | None \<Rightarrow> parse_ipv6 s = Some [0, 0, 0, 0, 0, 0, 0, 1])"

lemmas loopback_simps = is_loopback_literal_def parse_ipv4_def v4_octet_def parse_ipv6_def v6_side_def v6_group_def
  hex_value_def is_digit_def digit_val_def

lemma loopback_examples:
  "is_loopback_literal ''127.0.0.1''" "is_loopback_literal ''::1''" "\<not> is_loopback_literal ''localhost''"
  "\<not> is_loopback_literal ''127.1''" "\<not> is_loopback_literal ''10.0.0.1''"
  by (simp_all add: loopback_simps numeral_eq_Suc)

section \<open>Replies\<close>

datatype http_reply =
    TransportError string
  | Reply nat "nat option" "(string + string) list"

definition is_success :: "nat \<Rightarrow> bool" where
  "is_success status \<longleftrightarrow> 200 \<le> status \<and> status < 300"

datatype body_error = BodyTransport string | TooLarge nat

text \<open>The chunks of a body, each read or failed, collected up to a limit.\<close>

fun read_chunks :: "nat \<Rightarrow> string \<Rightarrow> (string + string) list \<Rightarrow> body_error + string" where
  "read_chunks limit body [] = Inr body"
| "read_chunks limit body (Inl e # chunks) = Inl (BodyTransport e)"
| "read_chunks limit body (Inr chunk # chunks) =
     (if length body + length chunk > limit then Inl (TooLarge limit)
      else read_chunks limit (body @ chunk) chunks)"

definition read_body_limited :: "nat option \<Rightarrow> (string + string) list \<Rightarrow> nat \<Rightarrow> body_error + string" where
  "read_body_limited content_length chunks limit =
     (if (case content_length of Some len \<Rightarrow> len > limit | None \<Rightarrow> False) then Inl (TooLarge limit)
      else read_chunks limit [] chunks)"

lemma read_chunks_ok:
  "read_chunks limit body chunks = Inr b \<longleftrightarrow>
   (\<forall>c\<in>set chunks. \<not> isl c) \<and> b = body @ concat (map projr chunks) \<and> (chunks = [] \<or> length b \<le> limit)"
proof (induction limit body chunks rule: read_chunks.induct)
  case (3 limit body chunk chunks)
  then show ?case by (cases chunks) auto
qed auto

lemma read_chunks_bound: "read_chunks limit body chunks = Inr b \<Longrightarrow> length body \<le> limit \<Longrightarrow> length b \<le> limit"
  by (auto simp: read_chunks_ok)

text \<open>A body that is read whole is within the limit, whatever length the peer declared.\<close>

lemma read_body_limited_ok:
  "read_body_limited cl chunks limit = Inr b \<Longrightarrow>
   b = concat (map projr chunks) \<and> (\<forall>c\<in>set chunks. \<not> isl c) \<and> length b \<le> limit"
  by (auto simp: read_body_limited_def read_chunks_ok split: if_splits)

end
