(* ===== verification/Dcp_Core.thy ===== *)
theory Dcp_Core
  imports Json Net_Http
begin

text \<open>
  The Decentralized Claims Protocol as the crawler's holder plays it: \<open>crates/dcp-core/src/lib.rs\<close>. Compact JWS,
  \<open>did:web\<close> resolution, and a holder identity that mints self-issued tokens for the participants it calls and
  answers their call-backs with its credential.

  Parameters: the record \<open>jose\<close> bundles base64url, JSON text, the deserializer of DID documents and P-256
  (crates \<open>base64\<close>, \<open>serde_json\<close>, \<open>p256\<close>); an HTTP request is a function from the URL to the reply; the clock
  and the random ids are arguments. Errors keep one constructor per message.
\<close>

section \<open>Compact JWS\<close>

record jwk =
  jwk_x :: string
  jwk_y :: string

record verification_method =
  vm_id :: string
  public_key_jwk :: "jwk option"

record did_service =
  svc_type :: string
  service_endpoint :: string

record did_doc =
  verification_methods :: "verification_method list"
  doc_services :: "did_service list"

type_synonym public_key = "string \<times> string"

record jose =
  b64_encode :: "string \<Rightarrow> string"
  b64_decode :: "string \<Rightarrow> string + string"
  json_print :: "json \<Rightarrow> string"
  json_read :: "string \<Rightarrow> string + json"
  did_doc_read :: "string \<Rightarrow> string + did_doc"
  ec_point_valid :: "public_key \<Rightarrow> bool"
  signature_form :: "string \<Rightarrow> bool"
  sig_verify :: "public_key \<Rightarrow> string \<Rightarrow> string \<Rightarrow> bool"
  sig_sign :: "string \<Rightarrow> string \<Rightarrow> string"
  public_key_of :: "string \<Rightarrow> public_key"

datatype dcp_error =
    NotBase64 string | NotJson string
  | MissingJwsHeader | MissingJwsPayload | MissingJwsSignature | TooManySegments
  | MalformedSignature | SignatureInvalid
  | NotDidWeb | DidRefused string string | DidUnreachable string | DidStatus nat | DidTooBig
  | DidReadFailed string | DidInvalid string
  | NoVerificationMethod string | NoPublicKeyJwk string | JwkLength | JwkPoint | NoService string
  | NoIss | NoKid | NoNestedToken | NoJti | NotIssued | WrongCaller string | WrongAudience string | TokenExpired

fun map_error :: "('a \<Rightarrow> 'e) \<Rightarrow> 'a + 'b \<Rightarrow> 'e + 'b" where
  "map_error f (Inl e) = Inl (f e)"
| "map_error f (Inr x) = Inr x"

lemma map_error_Inr [result_simps]: "map_error f r = Inr x \<longleftrightarrow> r = Inr x"
  by (cases r) auto

definition decode_jws_unverified :: "jose \<Rightarrow> string \<Rightarrow> dcp_error + string \<times> json \<times> json" where
  "decode_jws_unverified E token =
     (case split_on (CHR ''.'') token of
        [] \<Rightarrow> Inl MissingJwsHeader
      | [header_b64] \<Rightarrow> Inl MissingJwsPayload
      | [header_b64, payload_b64] \<Rightarrow> Inl MissingJwsSignature
      | [header_b64, payload_b64, sig_b64] \<Rightarrow>
          rbind (map_error NotBase64 (b64_decode E header_b64)) (\<lambda>h.
          rbind (map_error NotJson (json_read E h)) (\<lambda>header.
          rbind (map_error NotBase64 (b64_decode E payload_b64)) (\<lambda>p.
          rbind (map_error NotJson (json_read E p)) (\<lambda>payload.
            Inr (header_b64 @ ''.'' @ payload_b64, header, payload)))))
      | _ \<Rightarrow> Inl TooManySegments)"

definition verify_jws_signature :: "jose \<Rightarrow> string \<Rightarrow> public_key \<Rightarrow> dcp_error + unit" where
  "verify_jws_signature E token key =
     (case split_on (CHR ''.'') token of
        [] \<Rightarrow> Inl MissingJwsHeader
      | [header_b64] \<Rightarrow> Inl MissingJwsPayload
      | [header_b64, payload_b64] \<Rightarrow> Inl MissingJwsSignature
      | header_b64 # payload_b64 # sig_b64 # rest \<Rightarrow>
          rbind (map_error NotBase64 (b64_decode E sig_b64)) (\<lambda>sig.
            if \<not> signature_form E sig then Inl MalformedSignature
            else if sig_verify E key (header_b64 @ ''.'' @ payload_b64) sig then Inr () else Inl SignatureInvalid))"

definition sign_jws :: "jose \<Rightarrow> json \<Rightarrow> string \<Rightarrow> string \<Rightarrow> string" where
  "sign_jws E payload signing_key kid =
     (let header = JObject [(''alg'', JString ''ES256''), (''kid'', JString kid)];
          signing_input = b64_encode E (json_print E header) @ ''.'' @ b64_encode E (json_print E payload)
      in signing_input @ ''.'' @ b64_encode E (sig_sign E signing_key signing_input))"

section \<open>did:web\<close>

definition urlencoding_decode :: "string \<Rightarrow> string" where
  "urlencoding_decode segment = replace_str ''%3a'' '':'' (replace_str ''%3A'' '':'' segment)"

definition did_web_to_url :: "string \<Rightarrow> bool \<Rightarrow> dcp_error + string" where
  "did_web_to_url did insecure_http =
     (case strip_prefix ''did:web:'' did of
        None \<Rightarrow> Inl NotDidWeb
      | Some rest \<Rightarrow>
          let segments = split_on (CHR '':'') rest;
              host = urlencoding_decode (hd segments);
              path_segments = map urlencoding_decode (tl segments);
              scheme = (if insecure_http then ''http'' else ''https'')
          in Inr (if path_segments = [] then scheme @ ''://'' @ host @ ''/.well-known/did.json''
                  else scheme @ ''://'' @ host @ ''/'' @ join ''/'' path_segments @ ''/did.json''))"

definition MAX_DID_DOCUMENT_BYTES :: nat where "MAX_DID_DOCUMENT_BYTES = 64 * 1024"

text \<open>The part of \<open>s\<close> before the last \<open>c\<close>, or all of it: \<open>rsplit_once(c).map_or(s, |(h, _)| h)\<close>.\<close>

definition before_last :: "char \<Rightarrow> string \<Rightarrow> string" where
  "before_last c s = (if c \<in> set s then rev (tl (dropWhile (\<lambda>x. x \<noteq> c) (rev s))) else s)"

definition did_url_allowed :: "string \<Rightarrow> bool" where
  "did_url_allowed url =
     (if prefix ''https://'' url then True
      else case strip_prefix ''http://'' url of
        None \<Rightarrow> False
      | Some rest \<Rightarrow>
          let authority = takeWhile (\<lambda>c. c \<notin> set ''/?#'') rest
          in if CHR ''@'' \<in> set authority then False
             else is_loopback_literal
               (case strip_prefix ''['' authority of
                  Some bracketed \<Rightarrow> takeWhile (\<lambda>c. c \<noteq> CHR '']'') bracketed
                | None \<Rightarrow> before_last (CHR '':'') authority))"

text \<open>The second result lists the URLs requested.\<close>

definition resolve_did ::
    "jose \<Rightarrow> (string \<Rightarrow> http_reply) \<Rightarrow> string \<Rightarrow> bool \<Rightarrow> (dcp_error + did_doc) \<times> string list" where
  "resolve_did E get did insecure_http =
     (case did_web_to_url did insecure_http of
        Inl e \<Rightarrow> (Inl e, [])
      | Inr url \<Rightarrow>
          if \<not> did_url_allowed url then (Inl (DidRefused did url), [])
          else
            ((case get url of
                TransportError e \<Rightarrow> Inl (DidUnreachable e)
              | Reply status content_length chunks \<Rightarrow>
                  if \<not> is_success status then Inl (DidStatus status)
                  else
                    rbind (map_error (\<lambda>e. case e of TooLarge l \<Rightarrow> DidTooBig | BodyTransport m \<Rightarrow> DidReadFailed m)
                        (read_body_limited content_length chunks MAX_DID_DOCUMENT_BYTES)) (\<lambda>body.
                      map_error DidInvalid (did_doc_read E body))),
             [url]))"

definition jwk_to_verifying_key :: "jose \<Rightarrow> jwk \<Rightarrow> dcp_error + public_key" where
  "jwk_to_verifying_key E k =
     rbind (map_error NotBase64 (b64_decode E (jwk_x k))) (\<lambda>x.
     rbind (map_error NotBase64 (b64_decode E (jwk_y k))) (\<lambda>y.
       if length x \<noteq> 32 \<or> length y \<noteq> 32 then Inl JwkLength
       else if ec_point_valid E (x, y) then Inr (x, y) else Inl JwkPoint))"

definition find_verifying_key :: "jose \<Rightarrow> did_doc \<Rightarrow> string \<Rightarrow> dcp_error + public_key" where
  "find_verifying_key E doc kid =
     rbind (of_option (NoVerificationMethod kid) (find (\<lambda>m. vm_id m = kid) (verification_methods doc))) (\<lambda>m.
     rbind (of_option (NoPublicKeyJwk kid) (public_key_jwk m)) (jwk_to_verifying_key E))"

definition service_endpoint_url :: "did_doc \<Rightarrow> string \<Rightarrow> dcp_error + string" where
  "service_endpoint_url doc service_type =
     of_option (NoService service_type)
       (map_option service_endpoint (find (\<lambda>s. svc_type s = service_type) (doc_services doc)))"

section \<open>The holder\<close>

record dcp_key_pair =
  own_did :: string
  own_key_id :: string
  signing_key_bytes :: string
  public_key_xy :: public_key

definition generate_key_pair :: "jose \<Rightarrow> string \<Rightarrow> string \<Rightarrow> dcp_key_pair" where
  "generate_key_pair E random_key did =
     \<lparr>own_did = did, own_key_id = did @ ''#dsp-key'', signing_key_bytes = random_key,
      public_key_xy = public_key_of E random_key\<rparr>"

definition did_document :: "jose \<Rightarrow> dcp_key_pair \<Rightarrow> (string \<times> string) list \<Rightarrow> json" where
  "did_document E kp services =
     JObject
      [(''@context'', JArray [JString ''https://www.w3.org/ns/did/v1'']),
       (''id'', JString (own_did kp)),
       (''service'', JArray (map (\<lambda>(ty, endpoint).
          JObject [(''serviceEndpoint'', JString endpoint), (''type'', JString ty)]) services)),
       (''verificationMethod'', JArray [JObject
          [(''controller'', JString (own_did kp)),
           (''id'', JString (own_key_id kp)),
           (''publicKeyJwk'', JObject
             [(''crv'', JString ''P-256''), (''kty'', JString ''EC''),
              (''x'', JString (b64_encode E (fst (public_key_xy kp)))),
              (''y'', JString (b64_encode E (snd (public_key_xy kp))))]),
           (''type'', JString ''JsonWebKey2020'')]])]"

record issued_token =
  it_provider_did :: string
  it_exp :: nat

record holder_identity =
  key_pair :: dcp_key_pair
  own_did_host :: string
  insecure_http :: bool
  credential_jws :: string
  required_scope :: string
  issued :: "(string \<times> issued_token) list"

definition MAX_ISSUED_TOKENS :: nat where "MAX_ISSUED_TOKENS = 10000"

definition holder_new :: "jose \<Rightarrow> string \<Rightarrow> string \<Rightarrow> bool \<Rightarrow> string \<Rightarrow> string \<Rightarrow> holder_identity" where
  "holder_new E random_key host insecure jws scope =
     \<lparr>key_pair = generate_key_pair E random_key (''did:web:'' @ replace_str '':'' ''%3A'' host @ '':dsp:holder''),
      own_did_host = host, insecure_http = insecure, credential_jws = jws, required_scope = scope, issued = []\<rparr>"

definition remember_issued_capped ::
    "nat \<Rightarrow> nat \<Rightarrow> string \<Rightarrow> string \<Rightarrow> nat \<Rightarrow> holder_identity \<Rightarrow> holder_identity" where
  "remember_issued_capped cap now jti provider_did exp h =
     (let live = filter (\<lambda>(k, t). it_exp t > now) (issued h);
          room = (if length live \<ge> cap
                  then (case oldest it_exp live of Some k \<Rightarrow> AList.delete k live | None \<Rightarrow> live) else live)
      in h\<lparr>issued := AList.update jti \<lparr>it_provider_did = provider_did, it_exp = exp\<rparr> room\<rparr>)"

definition remember_issued :: "nat \<Rightarrow> string \<Rightarrow> string \<Rightarrow> nat \<Rightarrow> holder_identity \<Rightarrow> holder_identity" where
  "remember_issued = remember_issued_capped MAX_ISSUED_TOKENS"

definition issued_to :: "nat \<Rightarrow> string \<Rightarrow> holder_identity \<Rightarrow> string option" where
  "issued_to now jti h =
     (case map_of (issued h) jti of Some t \<Rightarrow> if it_exp t > now then Some (it_provider_did t) else None | None \<Rightarrow> None)"

definition own_did_document :: "jose \<Rightarrow> holder_identity \<Rightarrow> json" where
  "own_did_document E h =
     did_document E (key_pair h)
       [(''CredentialService'',
         (if insecure_http h then ''http'' else ''https'') @ ''://'' @ own_did_host h @ ''/dsp/holder'')]"

text \<open>
  Minting reads the clock twice, \<open>now\<close> for the tokens and \<open>swept\<close> when the expired bindings are removed, and
  draws two ids.
\<close>

definition access_token :: "jose \<Rightarrow> holder_identity \<Rightarrow> nat \<Rightarrow> string \<Rightarrow> string" where
  "access_token E h now jti =
     sign_jws E (JObject
        [(''aud'', JString (own_did (key_pair h))), (''exp'', JNumber (PosInt (now + 300))),
         (''iat'', JNumber (PosInt now)), (''iss'', JString (own_did (key_pair h))), (''jti'', JString jti),
         (''nbf'', JNumber (PosInt now)), (''sub'', JString (own_did (key_pair h)))])
       (signing_key_bytes (key_pair h)) (own_key_id (key_pair h))"

definition mint_self_issued_token ::
    "jose \<Rightarrow> string \<Rightarrow> nat \<Rightarrow> nat \<Rightarrow> string \<Rightarrow> string \<Rightarrow> holder_identity \<Rightarrow> string \<times> holder_identity" where
  "mint_self_issued_token E target_provider_did now swept access_jti jti h =
     (sign_jws E (JObject
        [(''aud'', JString target_provider_did), (''exp'', JNumber (PosInt (now + 300))),
         (''iat'', JNumber (PosInt now)), (''iss'', JString (own_did (key_pair h))), (''jti'', JString jti),
         (''nbf'', JNumber (PosInt now)), (''sub'', JString (own_did (key_pair h))),
         (''token'', JString (access_token E h now access_jti))])
       (signing_key_bytes (key_pair h)) (own_key_id (key_pair h)),
      remember_issued swept access_jti target_provider_did (now + 300) h)"

section \<open>Answering a call-back\<close>

text \<open>The checks before any network access: who calls, with which key, and for which issued token.\<close>

definition bound_call :: "jose \<Rightarrow> nat \<Rightarrow> holder_identity \<Rightarrow> string \<Rightarrow> dcp_error + string \<times> string \<times> string \<times> json" where
  "bound_call E now h token =
     rbind (decode_jws_unverified E token) (\<lambda>(input, header, payload).
     rbind (of_option NoIss (get_str payload ''iss'')) (\<lambda>caller_did.
     rbind (of_option NoKid (get_str header ''kid'')) (\<lambda>kid.
     rbind (of_option NoNestedToken (get_str payload ''token'')) (\<lambda>nested.
     rbind (decode_jws_unverified E nested) (\<lambda>(nested_input, nested_header, nested_payload).
     rbind (of_option NoJti (get_str nested_payload ''jti'')) (\<lambda>nonce.
     rbind (of_option NotIssued (issued_to now nonce h)) (\<lambda>provider.
       if provider \<noteq> caller_did then Inl (WrongCaller caller_did)
       else rbind (verify_jws_signature E nested (public_key_of E (signing_key_bytes (key_pair h)))) (\<lambda>_.
         Inr (caller_did, kid, nonce, payload)))))))))"

definition presentation_jws :: "jose \<Rightarrow> holder_identity \<Rightarrow> string \<Rightarrow> string \<Rightarrow> nat \<Rightarrow> string \<Rightarrow> string" where
  "presentation_jws E h caller_did nonce now jti =
     sign_jws E (JObject
        [(''aud'', JString caller_did), (''exp'', JNumber (PosInt (now + 300))), (''iat'', JNumber (PosInt now)),
         (''iss'', JString (own_did (key_pair h))), (''jti'', JString jti), (''nonce'', JString nonce),
         (''sub'', JString (own_did (key_pair h))),
         (''vp'', JObject
           [(''@context'', JArray [JString ''https://www.w3.org/2018/credentials/v1'']),
            (''type'', JArray [JString ''VerifiablePresentation'']),
            (''verifiableCredential'', JArray [JString (credential_jws h)])])])
       (signing_key_bytes (key_pair h)) (own_key_id (key_pair h))"

text \<open>The clock is read three times, and the URLs requested are the second result.\<close>

definition answer_presentation_query ::
    "jose \<Rightarrow> (string \<Rightarrow> http_reply) \<Rightarrow> nat \<times> nat \<times> nat \<Rightarrow> string \<Rightarrow> holder_identity \<Rightarrow> string \<Rightarrow>
     (dcp_error + string list) \<times> string list" where
  "answer_presentation_query E get clocks jti h token =
     (case clocks of (t_issued, t_exp, now) \<Rightarrow>
        case bound_call E t_issued h token of
          Inl e \<Rightarrow> (Inl e, [])
        | Inr (caller_did, kid, nonce, payload) \<Rightarrow>
            (case resolve_did E get caller_did (insecure_http h) of
               (resolved, requested) \<Rightarrow>
                 (rbind resolved (\<lambda>caller_doc.
                  rbind (find_verifying_key E caller_doc kid) (\<lambda>caller_key.
                  rbind (verify_jws_signature E token caller_key) (\<lambda>_.
                    let aud = (case get_str payload ''aud'' of Some a \<Rightarrow> a | None \<Rightarrow> []);
                        exp = (case Option.bind (jget payload ''exp'') as_u64 of Some n \<Rightarrow> n | None \<Rightarrow> 0)
                    in if aud \<noteq> own_did (key_pair h) then Inl (WrongAudience aud)
                       else if exp \<le> t_exp then Inl TokenExpired
                       else Inr [presentation_jws E h caller_did nonce now jti]))),
                  requested)))"

end
