(* ===== verification/Crawl_Config.thy ===== *)
theory Crawl_Config
  imports Dcp_Core
begin

text \<open>
  The crawler's registry of participants and its holder configuration: \<open>crates/crawler/src/config.rs\<close>. Reading a
  file is a parameter.
\<close>

section \<open>Participants\<close>

datatype credential_protocol = ProtocolNone | ProtocolDcp | ProtocolOid4Vp

definition credential_protocol_from_str :: "string \<Rightarrow> string + credential_protocol" where
  "credential_protocol_from_str raw =
     (if raw = ''none'' then Inr ProtocolNone
      else if raw = ''dcp'' then Inr ProtocolDcp
      else if raw = ''oid4vp'' then Inr ProtocolOid4Vp
      else Inl raw)"

record participant_entry =
  pe_part_id :: string
  pe_name :: string
  catalog_request_url :: string
  pe_protocol :: credential_protocol
  provider_did :: "string option"
  oid4vp_response_uri :: "string option"

record holder_config =
  hc_own_did_host :: string
  hc_insecure_http :: bool
  credential_jws_file :: string
  hc_required_scope :: string

record participants_config =
  interval_secs :: nat
  pc_participants :: "participant_entry list"
  pc_holder :: "holder_config option"

datatype jws_problem =
    NotThreeSegments | EmptySegment | SignatureNotBase64 | NotBase64Json | NoAlg | AlgEmptyOrNone | NotACredential

datatype config_error =
    DuplicateParticipantId string
  | MissingProviderDid string
  | MissingOid4VpResponseUri string
  | MissingHolder string
  | CredentialFile string string
  | EmptyCredentialFile string
  | InvalidCredentialJws string jws_problem

text \<open>The loop over the participants; \<open>ids\<close> are those seen.\<close>

fun check_participants :: "string set \<Rightarrow> participant_entry list \<Rightarrow> holder_config option \<Rightarrow> config_error + unit" where
  "check_participants ids [] holder = Inr ()"
| "check_participants ids (p # ps) holder =
     (if pe_part_id p \<in> ids then Inl (DuplicateParticipantId (pe_part_id p))
      else
        (case pe_protocol p of
           ProtocolNone \<Rightarrow> check_participants (insert (pe_part_id p) ids) ps holder
         | ProtocolDcp \<Rightarrow>
             if provider_did p = None then Inl (MissingProviderDid (pe_part_id p))
             else if holder = None then Inl (MissingHolder (pe_part_id p))
             else check_participants (insert (pe_part_id p) ids) ps holder
         | ProtocolOid4Vp \<Rightarrow>
             if oid4vp_response_uri p = None then Inl (MissingOid4VpResponseUri (pe_part_id p))
             else if holder = None then Inl (MissingHolder (pe_part_id p))
             else check_participants (insert (pe_part_id p) ids) ps holder))"

definition participants_config_new ::
    "nat \<Rightarrow> participant_entry list \<Rightarrow> holder_config option \<Rightarrow> config_error + participants_config" where
  "participants_config_new interval ps holder =
     rbind (check_participants {} ps holder) (\<lambda>_.
       Inr \<lparr>interval_secs = interval, pc_participants = ps, pc_holder = holder\<rparr>)"

section \<open>The holder's credential\<close>

definition check_compact_jws :: "jose \<Rightarrow> string \<Rightarrow> jws_problem + unit" where
  "check_compact_jws E jws =
     (case split_on (CHR ''.'') jws of
        [a, b, signature] \<Rightarrow>
          if a = [] \<or> b = [] \<or> signature = [] then Inl EmptySegment
          else rbind (map_error (\<lambda>_. SignatureNotBase64) (b64_decode E signature)) (\<lambda>_.
            rbind (map_error (\<lambda>_. NotBase64Json) (decode_jws_unverified E jws)) (\<lambda>(input, header, payload).
            rbind (of_option NoAlg (get_str header ''alg'')) (\<lambda>alg.
              if alg = [] \<or> trim alg \<noteq> alg \<or> eq_ignore_ascii_case alg ''none'' then Inl AlgEmptyOrNone
              else
                let credential = (case jget payload ''vc'' of Some v \<Rightarrow> v | None \<Rightarrow> payload);
                    is_credential = (case jget credential ''type'' of
                        Some (JString kind) \<Rightarrow> kind = ''VerifiableCredential''
                      | Some (JArray kinds) \<Rightarrow> list_ex (\<lambda>kind. kind = JString ''VerifiableCredential'') kinds
                      | _ \<Rightarrow> False)
                in if is_credential then Inr () else Inl NotACredential)))
      | _ \<Rightarrow> Inl NotThreeSegments)"

definition read_credential_jws ::
    "jose \<Rightarrow> (string \<Rightarrow> string + string) \<Rightarrow> holder_config \<Rightarrow> config_error + string" where
  "read_credential_jws E read_to_string hc =
     rbind (map_error (CredentialFile (credential_jws_file hc)) (read_to_string (credential_jws_file hc))) (\<lambda>raw.
       let jws = trim raw
       in if jws = [] then Inl (EmptyCredentialFile (credential_jws_file hc))
          else rbind (map_error (InvalidCredentialJws (credential_jws_file hc)) (check_compact_jws E jws)) (\<lambda>_. Inr jws))"

section \<open>What a valid configuration is\<close>

definition gate_ok :: "holder_config option \<Rightarrow> participant_entry \<Rightarrow> bool" where
  "gate_ok holder p \<longleftrightarrow>
     (pe_protocol p \<noteq> ProtocolNone \<longrightarrow> holder \<noteq> None) \<and>
     (pe_protocol p = ProtocolDcp \<longrightarrow> provider_did p \<noteq> None) \<and>
     (pe_protocol p = ProtocolOid4Vp \<longrightarrow> oid4vp_response_uri p \<noteq> None)"

lemma check_participants_ok:
  "check_participants ids ps holder = Inr () \<longleftrightarrow>
   distinct (map pe_part_id ps) \<and> pe_part_id ` set ps \<inter> ids = {} \<and> (\<forall>p\<in>set ps. gate_ok holder p)"
  by (induction ids ps holder rule: check_participants.induct)
    (auto simp: gate_ok_def split: credential_protocol.splits)

lemma config_new_ok:
  "participants_config_new interval ps holder = Inr c \<longleftrightarrow>
   c = \<lparr>interval_secs = interval, pc_participants = ps, pc_holder = holder\<rparr> \<and>
   distinct (map pe_part_id ps) \<and> (\<forall>p\<in>set ps. gate_ok holder p)"
proof -
  have "(\<exists>u. check_participants {} ps holder = Inr u) \<longleftrightarrow> check_participants {} ps holder = Inr ()" by auto
  then show ?thesis by (auto simp: participants_config_new_def result_simps check_participants_ok)
qed

end
