(* ===== verification/Crawl_Parse.thy ===== *)
theory Crawl_Parse
  imports Odrl_Filter Crawl_Config
begin

text \<open>
  Reading a crawled DSP catalog response: \<open>parse_catalog_response\<close> of \<open>crates/crawler/src/lib.rs\<close> and
  everything below it, from the JSON value to a \<open>catalog\<close>. The parser is the broker's trust boundary, so the
  lemmas say what no response can achieve: a dropped restriction, a nesting the store refuses, a
  duplicate id, or a claimed identity.

  Parameters: \<open>print\<close> is serde's \<open>Value::to_string\<close>, used for the excerpts in markers and for numbers
  that are not integral floats; \<open>uuid\<close> is the one random id the function may draw.
\<close>

section \<open>JSON-LD helpers\<close>

definition participant_id_mismatch :: "participant_entry \<Rightarrow> string \<Rightarrow> bool" where
  "participant_id_mismatch participant declared =
     (case provider_did participant of Some did \<Rightarrow> did \<noteq> declared | None \<Rightarrow> False)"

lemma list_or_set_size:
  "(case map_of m ''@list'' of Some inner \<Rightarrow> Some inner | None \<Rightarrow> map_of m ''@set'') = Some w \<Longrightarrow>
   size w < size (JObject m)"
  by (auto split: option.splits dest!: map_of_SomeD entry_size)

function one_or_many :: "json option \<Rightarrow> json list" where
  "one_or_many None = []"
| "one_or_many (Some (JArray items)) = items"
| "one_or_many (Some (JObject m)) =
     (if length m = 1 then
        (case (case map_of m ''@list'' of Some inner \<Rightarrow> Some inner | None \<Rightarrow> map_of m ''@set'') of
           Some inner \<Rightarrow> one_or_many (Some inner)
         | None \<Rightarrow> [JObject m])
      else [JObject m])"
| "one_or_many (Some JNull) = [JNull]"
| "one_or_many (Some (JBool b)) = [JBool b]"
| "one_or_many (Some (JNumber n)) = [JNumber n]"
| "one_or_many (Some (JString s)) = [JString s]"
  by pat_completeness auto

termination
  by (relation "measure (\<lambda>v. case v of None \<Rightarrow> 0 | Some w \<Rightarrow> Suc (size w))")
    (auto dest: list_or_set_size)

definition aliases :: "string \<Rightarrow> string list" where
  "aliases name = [name, ''odrl:'' @ name, ODRL_NS @ name]"

definition aliased_all :: "json \<Rightarrow> string \<Rightarrow> json list" where
  "aliased_all v name = somes (map (jget v) (aliases name))"

definition one_or_many_aliased :: "json \<Rightarrow> string \<Rightarrow> json list" where
  "one_or_many_aliased v name = concat (map (\<lambda>w. one_or_many (Some w)) (aliased_all v name))"

lemma one_or_many_size: "w \<in> set (one_or_many v) \<Longrightarrow> \<exists>u. v = Some u \<and> size w \<le> size u"
proof (induction v rule: one_or_many.induct)
  case (2 items)
  then show ?case using array_elem_size by fastforce
next
  case (3 m)
  show ?case
  proof (cases "length m = 1 \<and> (map_of m ''@list'' \<noteq> None \<or> map_of m ''@set'' \<noteq> None)")
    case True
    then obtain inner where inner:
      "(case map_of m ''@list'' of Some inner \<Rightarrow> Some inner | None \<Rightarrow> map_of m ''@set'') = Some inner"
      by (cases "map_of m ''@list''") auto
    then have "size w \<le> size inner"
      using 3 True by auto
    with list_or_set_size [OF inner] show ?thesis by auto
  next
    case False
    then show ?thesis using 3(2) by (auto split: if_splits option.splits)
  qed
qed simp_all

lemma aliased_all_size: "w \<in> set (aliased_all v name) \<Longrightarrow> size w < size v"
  by (auto simp: aliased_all_def set_somes jget_size)

lemma one_or_many_aliased_size: "w \<in> set (one_or_many_aliased v name) \<Longrightarrow> size w < size v"
  using one_or_many_size aliased_all_size by (fastforce simp: one_or_many_aliased_def)

section \<open>Scalars\<close>

text \<open>
  \<open>render_number\<close> tests \<open>fract() == 0.0\<close> and \<open>abs() < 1e15\<close>, both exact on the float \<open>m * 2 ^ e\<close>.
\<close>

fun integral_float :: "number \<Rightarrow> int option" where
  "integral_float (Float m e) =
     (if e \<ge> 0 then Some (m * 2 ^ nat e)
      else if m mod 2 ^ nat (- e) = 0 then Some (m div 2 ^ nat (- e)) else None)"
| "integral_float _ = None"

definition render_number :: "(json \<Rightarrow> string) \<Rightarrow> number \<Rightarrow> string" where
  "render_number print n =
     (case integral_float n of
        Some i \<Rightarrow> if \<bar>i\<bar> < 10 ^ 15 then show_int i else print (JNumber n)
      | None \<Rightarrow> print (JNumber n))"

definition render_bool :: "bool \<Rightarrow> string" where
  "render_bool b = (if b then ''true'' else ''false'')"

function json_ld_scalar :: "(json \<Rightarrow> string) \<Rightarrow> json \<Rightarrow> string option" where
  "json_ld_scalar print (JString s) = Some s"
| "json_ld_scalar print (JNumber n) = Some (render_number print n)"
| "json_ld_scalar print (JBool b) = Some (render_bool b)"
| "json_ld_scalar print (JObject m) =
     (case map_of m ''@value'' of
        Some (JString s) \<Rightarrow> Some s
      | Some (JNumber n) \<Rightarrow> Some (render_number print n)
      | Some (JBool b) \<Rightarrow> Some (render_bool b)
      | Some _ \<Rightarrow> None
      | None \<Rightarrow>
          if list_all (\<lambda>(k, v). k = ''@id'' \<or> k = ''@type'') m
          then Option.bind (map_of m ''@id'') as_str else None)"
| "json_ld_scalar print (JArray items) =
     (case items of [v] \<Rightarrow> json_ld_scalar print v | _ \<Rightarrow> None)"
| "json_ld_scalar print JNull = None"
  by pat_completeness auto

termination
  by (relation "measure (\<lambda>(print, v). size v)") auto

datatype field = Absent | Value string | Unreadable

fun field_value :: "field \<Rightarrow> string option" where
  "field_value (Value v) = Some v"
| "field_value _ = None"

definition get_field :: "(json \<Rightarrow> string) \<Rightarrow> json \<Rightarrow> string \<Rightarrow> field" where
  "get_field print v name =
     (case aliased_all v name of
        [] \<Rightarrow> Absent
      | [raw] \<Rightarrow> (case json_ld_scalar print raw of Some s \<Rightarrow> Value s | None \<Rightarrow> Unreadable)
      | _ \<Rightarrow> Unreadable)"

section \<open>Constraints, rules and policies\<close>

definition has_atomic_key :: "json \<Rightarrow> bool" where
  "has_atomic_key v =
     list_ex (\<lambda>k. aliased_all v k \<noteq> []) [''leftOperand'', ''operator'', ''rightOperand'']"

definition logical_present :: "json \<Rightarrow> (string \<times> (constraint list \<Rightarrow> constraint)) list" where
  "logical_present v = filter (\<lambda>(key, build). aliased_all v key \<noteq> []) LOGICAL_CONSTRAINT_BUILDERS"

definition atomic_triple :: "(json \<Rightarrow> string) \<Rightarrow> json \<Rightarrow> (string \<times> string \<times> string) option" where
  "atomic_triple print v =
     (case (get_field print v ''leftOperand'', get_field print v ''operator'',
            get_field print v ''rightOperand'') of
        (Value l, Value op, Value r) \<Rightarrow> Some (l, op, r)
      | _ \<Rightarrow> None)"

function parse_constraint :: "(json \<Rightarrow> string) \<Rightarrow> json \<Rightarrow> nat \<Rightarrow> constraint" where
  "parse_constraint print v depth =
     (if depth > MAX_CONSTRAINT_DEPTH then unmappable (print v)
      else if length (logical_present v) > 1 \<or> has_atomic_key v \<and> logical_present v \<noteq> []
      then unmappable (print v)
      else case atomic_triple print v of
        Some (l, op, r) \<Rightarrow> atomic l op r
      | None \<Rightarrow>
          (case logical_present v of
             (key, build) # _ \<Rightarrow>
               if depth \<ge> MAX_CONSTRAINT_DEPTH then unmappable (print v)
               else build (map (\<lambda>child. parse_constraint print child (depth + 1))
                 (one_or_many_aliased v key))
           | [] \<Rightarrow> unmappable (print v)))"
  by pat_completeness auto

termination
  by (relation "measure (\<lambda>(print, v, depth). size v)") (auto simp: one_or_many_aliased_size)

declare parse_constraint.simps [simp del]

definition parse_constraints :: "(json \<Rightarrow> string) \<Rightarrow> json list \<Rightarrow> constraint list" where
  "parse_constraints print entries = map (\<lambda>entry. parse_constraint print entry 0) entries"

definition unmappable_rule :: "(json \<Rightarrow> string) \<Rightarrow> json \<Rightarrow> rule" where
  "unmappable_rule print raw = \<lparr>action = UNMAPPABLE_ACTION, constraints = [unmappable (print raw)]\<rparr>"

definition rule_level_markers :: "(json \<Rightarrow> string) \<Rightarrow> json \<Rightarrow> constraint list" where
  "rule_level_markers print v =
     map (\<lambda>key. unmappable (key @ '': '' @ join '', '' (map print (aliased_all v key))))
       (filter (\<lambda>key. aliased_all v key \<noteq> []) [''assignee'', ''target'', ''duty''])"

definition parse_rule :: "(json \<Rightarrow> string) \<Rightarrow> json \<Rightarrow> rule" where
  "parse_rule print v =
     (if \<not> is_object v then unmappable_rule print v
      else
        let (act, marker) =
              (case get_field print v ''action'' of
                 Value a \<Rightarrow> (normalize_action a, [])
               | Absent \<Rightarrow> (UNMAPPABLE_ACTION, [unmappable (print v)])
               | Unreadable \<Rightarrow> (UNMAPPABLE_ACTION, [unmappable (print v)]))
        in \<lparr>action = act,
            constraints = marker @ parse_constraints print (one_or_many_aliased v ''constraint'')
              @ rule_level_markers print v\<rparr>)"

definition parse_rules :: "(json \<Rightarrow> string) \<Rightarrow> json \<Rightarrow> string \<Rightarrow> rule list" where
  "parse_rules print policy_value key = map (parse_rule print) (one_or_many_aliased policy_value key)"

definition parse_kind :: "json \<Rightarrow> policy_kind" where
  "parse_kind v =
     (case get_str v ''@type'' of
        Some t \<Rightarrow>
          (if t = ''Set'' then KindSet else if t = ''Offer'' then KindOffer
           else if t = ''Agreement'' then KindAgreement else policy_kind_default)
      | None \<Rightarrow> policy_kind_default)"

definition no_rule_key :: "json \<Rightarrow> bool" where
  "no_rule_key v = list_all (\<lambda>k. aliased_all v k = []) [''permission'', ''prohibition'', ''obligation'']"

definition parse_policy :: "(json \<Rightarrow> string) \<Rightarrow> json \<Rightarrow> policy" where
  "parse_policy print v =
     (let obls = parse_rules print v ''obligation''
            @ (if no_rule_key v then [unmappable_rule print v] else []);
          (asg, marker) =
            (case get_field print v ''assignee'' of
               Value a \<Rightarrow> (Some a, [])
             | Absent \<Rightarrow> (None, [])
             | Unreadable \<Rightarrow>
                 (None, [unmappable_rule print
                   (case aliased_all v ''assignee'' of [one] \<Rightarrow> one | raws \<Rightarrow> JArray raws)]))
      in \<lparr>policy_id = get_str v ''@id'', kind = parse_kind v,
          assigner = field_value (get_field print v ''assigner''), assignee = asg,
          permissions = parse_rules print v ''permission'',
          prohibitions = parse_rules print v ''prohibition'',
          obligations = obls @ marker\<rparr>)"

definition parse_policies :: "(json \<Rightarrow> string) \<Rightarrow> json \<Rightarrow> policy list" where
  "parse_policies print dataset_value =
     map (\<lambda>entry.
         if is_object entry then parse_policy print entry
         else \<lparr>policy_id = None, kind = policy_kind_default, assigner = None, assignee = None,
               permissions = [], prohibitions = [], obligations = [unmappable_rule print entry]\<rparr>)
       (one_or_many_aliased dataset_value ''hasPolicy'')"

section \<open>Datasets, services and nested catalogs\<close>

record seen_ids =
  seen_datasets :: "string set"
  seen_services :: "string set"

definition json_id :: "json \<Rightarrow> string option" where
  "json_id v = Option.bind (case jget v ''@id'' of Some i \<Rightarrow> Some i | None \<Rightarrow> jget v ''id'') as_str"

definition parse_data_service :: "json \<Rightarrow> data_service option" where
  "parse_data_service v =
     map_option (\<lambda>i. \<lparr>service_id = i,
         endpoint_url = (case get_str v ''endpointURL'' of Some u \<Rightarrow> u | None \<Rightarrow> []),
         endpoint_description = get_str v ''endpointDescription''\<rparr>) (json_id v)"

definition push_service :: "json \<Rightarrow> catalog \<times> seen_ids \<Rightarrow> catalog \<times> seen_ids" where
  "push_service v st =
     (case (parse_data_service v, st) of
        (Some s, (c, seen)) \<Rightarrow>
          (if service_id s \<in> seen_services seen then st
           else (c\<lparr>data_services := data_services c @ [s]\<rparr>,
                 seen\<lparr>seen_services := insert (service_id s) (seen_services seen)\<rparr>))
      | (None, _) \<Rightarrow> st)"

definition DATASET_KEYS :: "string list" where
  "DATASET_KEYS =
     [''title'', ''description'', ''version'', ''creatorName'', ''thumbnail'', ''keywords'']"

definition parse_ds_properties :: "json \<Rightarrow> (string, string) btree" where
  "parse_ds_properties v =
     fold (\<lambda>key m. case get_str v key of Some s \<Rightarrow> btree_insert key s m | None \<Rightarrow> m) DATASET_KEYS []"

definition parse_distribution :: "json \<Rightarrow> distribution" where
  "parse_distribution v =
     \<lparr>format = (case get_str v ''format'' of Some f \<Rightarrow> f | None \<Rightarrow> []),
      access_service =
        (case jget v ''accessService'' of
           Some (JString i) \<Rightarrow> i
         | Some (JObject m) \<Rightarrow> (case json_id (JObject m) of Some i \<Rightarrow> i | None \<Rightarrow> [])
         | _ \<Rightarrow> [])\<rparr>"

text \<open>One pass of the distribution loop: a nested service is collected, the distribution is pushed.\<close>

definition push_distribution ::
    "json \<Rightarrow> distribution list \<times> catalog \<times> seen_ids \<Rightarrow> distribution list \<times> catalog \<times> seen_ids" where
  "push_distribution v st =
     (case st of (ds, c, seen) \<Rightarrow>
        (ds @ [parse_distribution v],
         (case jget v ''accessService'' of
            Some (JObject m) \<Rightarrow> push_service (JObject m) (c, seen)
          | _ \<Rightarrow> (c, seen))))"

definition or_empty :: "'a list option \<Rightarrow> 'a list" where
  "or_empty x = (case x of Some xs \<Rightarrow> xs | None \<Rightarrow> [])"

definition push_dataset :: "(json \<Rightarrow> string) \<Rightarrow> json \<Rightarrow> catalog \<times> seen_ids \<Rightarrow> catalog \<times> seen_ids" where
  "push_dataset print v st =
     (case json_id v of
        None \<Rightarrow> st
      | Some i \<Rightarrow>
          (case st of (c, seen) \<Rightarrow>
             if i \<in> seen_datasets seen then st
             else
               (case fold push_distribution (or_empty (get_array v ''distribution''))
                       ([], c, seen\<lparr>seen_datasets := insert i (seen_datasets seen)\<rparr>) of
                  (ds, c', seen') \<Rightarrow>
                    (c'\<lparr>datasets := datasets c' @
                       [\<lparr>dataset_id = i, ds_properties = parse_ds_properties v, distributions = ds,
                         policies = parse_policies print v\<rparr>]\<rparr>,
                     seen'))))"

lemma or_empty_get_array_size: "x \<in> set (or_empty (get_array v k)) \<Longrightarrow> size x < size v"
  by (cases "get_array v k") (auto simp: or_empty_def get_array_elem_size)

function collect_datasets_and_services ::
    "(json \<Rightarrow> string) \<Rightarrow> json \<Rightarrow> catalog \<times> seen_ids \<Rightarrow> catalog \<times> seen_ids" where
  "collect_datasets_and_services print v st =
     fold (collect_datasets_and_services print) (or_empty (get_array v ''catalog''))
       (fold (push_dataset print) (or_empty (get_array v ''dataset''))
         (fold push_service (or_empty (get_array v ''service'')) st))"
  by pat_completeness auto

termination
  by (relation "measure (\<lambda>(print, v, st). size v)") (auto simp: or_empty_get_array_size)

declare collect_datasets_and_services.simps [simp del]

definition parse_catalog_response ::
    "(json \<Rightarrow> string) \<Rightarrow> string \<Rightarrow> json \<Rightarrow> participant_entry \<Rightarrow> catalog" where
  "parse_catalog_response print uuid v participant =
     (let i = (case get_str v ''@id'' of Some i \<Rightarrow> i | None \<Rightarrow> ''urn:uuid:'' @ uuid);
          c = (catalog_new i (pe_part_id participant))\<lparr>participant_id := provider_did participant\<rparr>
      in fst (collect_datasets_and_services print v (c, \<lparr>seen_datasets = {}, seen_services = {}\<rparr>)))"

section \<open>Depth\<close>

lemma logical_builders:
  "(key, build) \<in> set LOGICAL_CONSTRAINT_BUILDERS \<Longrightarrow>
   (\<exists>l. build cs = Logical l \<and> children l = cs) \<and>
   (height (build cs) \<le> Suc n \<longleftrightarrow> (\<forall>c\<in>set cs. height c \<le> n))"
  by (auto simp: LOGICAL_CONSTRAINT_BUILDERS_def and_of_def or_of_def xone_of_def
      and_sequence_of_def height_Logical_le)

lemma logical_present_builder:
  "logical_present v = (key, build) # bs \<Longrightarrow> (key, build) \<in> set LOGICAL_CONSTRAINT_BUILDERS"
  by (metis filter_is_subset list.set_intros(1) logical_present_def subsetD)

lemma parse_constraint_height:
  "height (parse_constraint print v depth) \<le> MAX_CONSTRAINT_DEPTH - depth"
proof (induction print v depth rule: parse_constraint.induct)
  case (1 print v depth)
  show ?case
  proof (cases "logical_present v")
    case Nil
    then show ?thesis by (subst parse_constraint.simps) (auto split: option.splits)
  next
    case (Cons kb bs)
    obtain key build where kb: "kb = (key, build)" by (cases kb)
    let ?kids = "map (\<lambda>child. parse_constraint print child (depth + 1)) (one_or_many_aliased v key)"
    have b: "(key, build) \<in> set LOGICAL_CONSTRAINT_BUILDERS"
      using Cons kb logical_present_builder by blast
    show ?thesis
    proof (cases "depth < MAX_CONSTRAINT_DEPTH \<and> bs = [] \<and> \<not> has_atomic_key v \<and> atomic_triple print v = None")
      case True
      then have "\<forall>c\<in>set ?kids. height c \<le> MAX_CONSTRAINT_DEPTH - (depth + 1)"
        using 1 Cons kb by auto
      moreover obtain n where "MAX_CONSTRAINT_DEPTH - depth = Suc n" "MAX_CONSTRAINT_DEPTH - (depth + 1) = n"
        using True by (metis Suc_diff_Suc Suc_eq_plus1)
      ultimately have "height (build ?kids) \<le> MAX_CONSTRAINT_DEPTH - depth"
        using logical_builders [OF b, of ?kids n] by simp
      then show ?thesis
        using True Cons kb by (subst parse_constraint.simps) simp
    next
      case False
      then show ?thesis
        using Cons kb by (subst parse_constraint.simps) (auto split: option.splits)
    qed
  qed
qed

lemma parse_rule_depth: "rule_depth_ok (parse_rule print v)"
  using parse_constraint_height [of print _ 0]
  by (auto simp: rule_depth_ok_def parse_rule_def unmappable_rule_def parse_constraints_def
      rule_level_markers_def split: field.splits)

lemma unmappable_rule_depth [simp]: "rule_depth_ok (unmappable_rule print v)"
  by (simp add: rule_depth_ok_def unmappable_rule_def)

lemma parse_policies_depth: "p \<in> set (parse_policies print v) \<Longrightarrow> policy_depth_ok p"
  by (auto simp: parse_policies_def policy_depth_ok_def policy_rules_def parse_policy_def
      parse_rules_def parse_rule_depth Let_def split: field.splits if_splits)

section \<open>Collecting datasets and services\<close>

text \<open>
  The reference reading of a response: the dataset entries in document order, own ones before those of nested
  catalogs, of which the first with each id is kept and parsed on its own.
\<close>

definition parse_dataset :: "(json \<Rightarrow> string) \<Rightarrow> json \<Rightarrow> dataset" where
  "parse_dataset print v =
     \<lparr>dataset_id = the (json_id v), ds_properties = parse_ds_properties v,
      distributions = map parse_distribution (or_empty (get_array v ''distribution'')),
      policies = parse_policies print v\<rparr>"

function dataset_entries :: "json \<Rightarrow> json list" where
  "dataset_entries v =
     filter (\<lambda>d. json_id d \<noteq> None) (or_empty (get_array v ''dataset''))
       @ concat (map dataset_entries (or_empty (get_array v ''catalog'')))"
  by pat_completeness auto

termination
  by (relation "measure size") (auto simp: or_empty_get_array_size)

declare dataset_entries.simps [simp del]

fun first_by_id :: "string set \<Rightarrow> json list \<Rightarrow> json list" where
  "first_by_id S [] = []"
| "first_by_id S (v # vs) =
     (if the (json_id v) \<in> S then first_by_id S vs
      else v # first_by_id (insert (the (json_id v)) S) vs)"

definition entry_ids :: "json list \<Rightarrow> string set" where
  "entry_ids vs = (\<lambda>v. the (json_id v)) ` set vs"

lemma first_by_id_append:
  "first_by_id S (a @ b) = first_by_id S a @ first_by_id (S \<union> entry_ids a) b"
  by (induction a arbitrary: S) (simp_all add: entry_ids_def insert_absorb Un_commute)

lemma first_by_id_distinct:
  "distinct (map (\<lambda>v. the (json_id v)) (first_by_id S vs)) \<and>
   entry_ids (first_by_id S vs) \<inter> S = {}"
proof (induction vs arbitrary: S)
  case (Cons v vs)
  show ?case
  proof (cases "the (json_id v) \<in> S")
    case False
    then show ?thesis using Cons.IH [of "insert (the (json_id v)) S"] by (auto simp: entry_ids_def)
  qed (use Cons in simp)
qed (simp add: entry_ids_def)

lemma entry_ids_simps [simp]:
  "entry_ids [] = {}" "entry_ids (v # vs) = insert (the (json_id v)) (entry_ids vs)"
  "entry_ids (a @ b) = entry_ids a \<union> entry_ids b"
  by (simp_all add: entry_ids_def image_Un)

lemma first_by_id_covers: "entry_ids (first_by_id S vs) \<union> S = entry_ids vs \<union> S"
proof (induction vs arbitrary: S)
  case (Cons v vs)
  then show ?case
    using Cons.IH [of "insert (the (json_id v)) S"] by (cases "the (json_id v) \<in> S") auto
qed simp

lemma push_service_datasets:
  "push_service v (c, seen) = (c', seen') \<Longrightarrow>
   datasets c' = datasets c \<and> seen_datasets seen' = seen_datasets seen"
  by (auto simp: push_service_def split: option.splits if_splits)

lemma push_distribution_datasets:
  "push_distribution v (ds, c, seen) = (ds', c', seen') \<Longrightarrow>
   ds' = ds @ [parse_distribution v] \<and> datasets c' = datasets c \<and> seen_datasets seen' = seen_datasets seen"
  by (auto simp: push_distribution_def split: option.splits json.splits dest: push_service_datasets)

lemma fold_push_service_datasets:
  "fold push_service vs (c, seen) = (c', seen') \<Longrightarrow>
   datasets c' = datasets c \<and> seen_datasets seen' = seen_datasets seen"
proof (induction vs arbitrary: c seen)
  case (Cons v vs)
  obtain c1 s1 where 1: "push_service v (c, seen) = (c1, s1)" by (cases "push_service v (c, seen)")
  then show ?case using Cons push_service_datasets [OF 1] by simp
qed simp

lemma fold_push_distribution_datasets:
  "fold push_distribution vs (ds, c, seen) = (ds', c', seen') \<Longrightarrow>
   ds' = ds @ map parse_distribution vs \<and> datasets c' = datasets c \<and>
   seen_datasets seen' = seen_datasets seen"
proof (induction vs arbitrary: ds c seen)
  case (Cons v vs)
  obtain d1 c1 s1 where 1: "push_distribution v (ds, c, seen) = (d1, c1, s1)"
    by (cases "push_distribution v (ds, c, seen)")
  then have "fold push_distribution vs (d1, c1, s1) = (ds', c', seen')"
    using Cons.prems by simp
  from Cons.IH [OF this] push_distribution_datasets [OF 1] show ?case by simp
qed simp

lemma push_dataset_eq:
  "push_dataset print v (c, seen) = (c', seen') \<Longrightarrow>
   datasets c' = datasets c
     @ map (parse_dataset print) (first_by_id (seen_datasets seen) (filter (\<lambda>d. json_id d \<noteq> None) [v])) \<and>
   seen_datasets seen' = seen_datasets seen \<union> entry_ids (filter (\<lambda>d. json_id d \<noteq> None) [v])"
proof (cases "json_id v")
  case (Some i)
  assume eq: "push_dataset print v (c, seen) = (c', seen')"
  obtain ds c1 s1 where f: "fold push_distribution (or_empty (get_array v ''distribution''))
      ([], c, seen\<lparr>seen_datasets := insert i (seen_datasets seen)\<rparr>) = (ds, c1, s1)"
    by (metis prod_cases3)
  show ?thesis
  proof (cases "i \<in> seen_datasets seen")
    case True
    then show ?thesis using eq Some by (auto simp: push_dataset_def)
  next
    case False
    then show ?thesis
      using eq Some f fold_push_distribution_datasets [OF f]
      by (auto simp: push_dataset_def parse_dataset_def)
  qed
qed (auto simp: push_dataset_def)

lemma fold_push_dataset_eq:
  "fold (push_dataset print) vs (c, seen) = (c', seen') \<Longrightarrow>
   datasets c' = datasets c
     @ map (parse_dataset print) (first_by_id (seen_datasets seen) (filter (\<lambda>d. json_id d \<noteq> None) vs)) \<and>
   seen_datasets seen' = seen_datasets seen \<union> entry_ids (filter (\<lambda>d. json_id d \<noteq> None) vs)"
proof (induction vs arbitrary: c seen)
  case (Cons v vs)
  let ?f = "filter (\<lambda>d. json_id d \<noteq> None)"
  obtain c1 s1 where 1: "push_dataset print v (c, seen) = (c1, s1)"
    by (cases "push_dataset print v (c, seen)")
  have app: "?f (v # vs) = ?f [v] @ ?f vs" by simp
  have "fold (push_dataset print) vs (c1, s1) = (c', seen')"
    using Cons.prems 1 by simp
  from Cons.IH [OF this] push_dataset_eq [OF 1] show ?case
    unfolding app first_by_id_append by (simp del: filter.simps add: Un_assoc)
qed simp

lemma collect_datasets_eq:
  "collect_datasets_and_services print v (c, seen) = (c', seen') \<Longrightarrow>
   datasets c' = datasets c @ map (parse_dataset print) (first_by_id (seen_datasets seen) (dataset_entries v)) \<and>
   seen_datasets seen' = seen_datasets seen \<union> entry_ids (dataset_entries v)"
proof (induction v arbitrary: c seen c' seen' rule: measure_induct_rule [where f = size])
  case (less v)
  define own where "own = filter (\<lambda>d. json_id d \<noteq> None) (or_empty (get_array v ''dataset''))"
  define nested where "nested = or_empty (get_array v ''catalog'')"
  have fold: "fold (collect_datasets_and_services print) vs (c1, s1) = (c2, s2) \<Longrightarrow> set vs \<subseteq> set nested \<Longrightarrow>
      datasets c2 = datasets c1
        @ map (parse_dataset print) (first_by_id (seen_datasets s1) (concat (map dataset_entries vs))) \<and>
      seen_datasets s2 = seen_datasets s1 \<union> entry_ids (concat (map dataset_entries vs))" for vs c1 s1 c2 s2
  proof (induction vs arbitrary: c1 s1)
    case (Cons w ws)
    have "size w < size v"
      using Cons.prems(2) by (auto simp: nested_def intro: or_empty_get_array_size)
    moreover obtain c3 s3 where "collect_datasets_and_services print w (c1, s1) = (c3, s3)"
      by (cases "collect_datasets_and_services print w (c1, s1)")
    ultimately show ?case
      using less.IH [of w c1 s1 c3 s3] Cons
      by (simp add: first_by_id_append Un_assoc)
  qed simp
  obtain c1 s1 where 1: "fold push_service (or_empty (get_array v ''service'')) (c, seen) = (c1, s1)"
    by fastforce
  obtain c2 s2 where 2: "fold (push_dataset print) (or_empty (get_array v ''dataset'')) (c1, s1) = (c2, s2)"
    by fastforce
  have 3: "fold (collect_datasets_and_services print) nested (c2, s2) = (c', seen')"
    using less.prems 1 2 by (simp add: collect_datasets_and_services.simps [of print v] nested_def)
  have "dataset_entries v = own @ concat (map dataset_entries nested)"
    by (simp add: dataset_entries.simps [of v] own_def nested_def)
  then show ?case
    using fold_push_service_datasets [OF 1] fold_push_dataset_eq [OF 2] fold [OF 3]
    by (simp add: own_def first_by_id_append Un_assoc)
qed

lemma crawled_datasets_eq:
  "datasets (parse_catalog_response print uuid v participant)
     = map (parse_dataset print) (first_by_id {} (dataset_entries v))"
proof -
  define c0 where "c0 = (catalog_new (case get_str v ''@id'' of Some i \<Rightarrow> i | None \<Rightarrow> ''urn:uuid:'' @ uuid)
      (pe_part_id participant))\<lparr>participant_id := provider_did participant\<rparr>"
  obtain c' seen' where r: "collect_datasets_and_services print v
      (c0, \<lparr>seen_datasets = {}, seen_services = {}\<rparr>) = (c', seen')" by fastforce
  then have "datasets c' = map (parse_dataset print) (first_by_id {} (dataset_entries v))"
    using collect_datasets_eq [OF r] by (simp add: c0_def catalog_new_def)
  with r show ?thesis
    by (simp add: parse_catalog_response_def c0_def [symmetric] Let_def)
qed

lemma crawled_dataset_ids:
  "distinct (map dataset_id (datasets (parse_catalog_response print uuid v participant)))"
proof -
  have "map dataset_id (map (parse_dataset print) vs) = map (\<lambda>v. the (json_id v)) vs" for vs
    by (simp add: parse_dataset_def comp_def)
  then show ?thesis
    using first_by_id_distinct [of "{}" "dataset_entries v"] by (simp only: crawled_datasets_eq)
qed

text \<open>
  Claim C32. The datasets of a crawled catalog are, whatever the response nests or repeats, the first entry
  with each id in document order, each parsed by itself: nothing of a later entry with the same id reaches the
  first one, no entry with an id is lost, and two datasets never share an id.
\<close>

theorem crawled_datasets:
  "datasets (parse_catalog_response print uuid v participant)
     = map (parse_dataset print) (first_by_id {} (dataset_entries v)) \<and>
   distinct (map dataset_id (datasets (parse_catalog_response print uuid v participant))) \<and>
   dataset_id ` set (datasets (parse_catalog_response print uuid v participant))
     = entry_ids (dataset_entries v)"
proof -
  have "dataset_id ` set (map (parse_dataset print) vs) = entry_ids vs" for vs
    by (simp add: parse_dataset_def entry_ids_def image_image)
  then show ?thesis
    using crawled_dataset_ids first_by_id_covers [of "{}" "dataset_entries v"]
    by (simp add: crawled_datasets_eq)
qed

section \<open>Services and identity\<close>

text \<open>What collecting keeps of the catalog it started from, and of the set of service ids.\<close>

definition collect_inv :: "catalog \<Rightarrow> catalog \<times> seen_ids \<Rightarrow> bool" where
  "collect_inv c0 st =
     (case st of (c, seen) \<Rightarrow>
        distinct (map service_id (data_services c)) \<and>
        service_id ` set (data_services c) = seen_services seen \<and>
        c = c0\<lparr>datasets := datasets c, data_services := data_services c\<rparr>)"

lemma push_service_inv: "collect_inv c0 st \<Longrightarrow> collect_inv c0 (push_service v st)"
proof (cases "parse_data_service v")
  case (Some s)
  assume "collect_inv c0 st"
  moreover obtain c seen where "st = (c, seen)" by (cases st)
  ultimately show ?thesis using Some by (cases c0; cases c) (auto simp: collect_inv_def push_service_def)
qed (simp add: push_service_def)

lemma push_distribution_inv:
  "collect_inv c0 (snd st) \<Longrightarrow> collect_inv c0 (snd (push_distribution v st))"
  by (cases st) (auto simp: push_distribution_def push_service_inv split: option.splits json.splits)

lemma push_dataset_inv:
  assumes "collect_inv c0 st"
  shows "collect_inv c0 (push_dataset print v st)"
proof -
  obtain c seen where st: "st = (c, seen)" by (cases st)
  show ?thesis
  proof (cases "json_id v")
    case (Some i)
    let ?seen = "seen\<lparr>seen_datasets := insert i (seen_datasets seen)\<rparr>"
    let ?r = "fold push_distribution (or_empty (get_array v ''distribution'')) ([], c, ?seen)"
    have "collect_inv c0 (snd ?r)"
      by (rule fold_invariant [where Q = "\<lambda>_. True"])
        (use assms st push_distribution_inv in \<open>simp_all add: collect_inv_def\<close>)
    moreover obtain ds c1 s1 where "?r = (ds, c1, s1)" by (metis prod_cases3)
    ultimately show ?thesis
      using assms Some st by (cases c0; cases c1) (auto simp: push_dataset_def collect_inv_def)
  qed (use assms in \<open>simp add: push_dataset_def\<close>)
qed

lemma collect_inv_collect:
  "collect_inv c0 st \<Longrightarrow> collect_inv c0 (collect_datasets_and_services print v st)"
proof (induction v arbitrary: st rule: measure_induct_rule [where f = size])
  case (less v)
  have nested: "collect_inv c0 st' \<Longrightarrow>
      collect_inv c0 (fold (collect_datasets_and_services print) (or_empty (get_array v ''catalog'')) st')" for st'
    by (rule fold_invariant [where Q = "\<lambda>w. size w < size v"])
      (auto simp: or_empty_get_array_size less.IH)
  have services: "collect_inv c0 (fold push_service vs st)" for vs
    by (rule fold_invariant [where Q = "\<lambda>_. True"]) (auto simp: less.prems push_service_inv)
  have "collect_inv c0 (fold (push_dataset print) us (fold push_service vs st))" for us vs
    by (rule fold_invariant [where Q = "\<lambda>_. True"]) (auto simp: services push_dataset_inv)
  then show ?case
    by (subst collect_datasets_and_services.simps) (rule nested)
qed

lemma parse_ds_properties_keys:
  "btree_ok (parse_ds_properties v) \<and> fst ` set (parse_ds_properties v) \<subseteq> set DATASET_KEYS"
proof -
  have "btree_ok m \<and> fst ` set m \<subseteq> K \<Longrightarrow> set keys \<subseteq> K \<Longrightarrow>
      btree_ok (fold (\<lambda>key m. case get_str v key of Some s \<Rightarrow> btree_insert key s m | None \<Rightarrow> m) keys m) \<and>
      fst ` set (fold (\<lambda>key m. case get_str v key of Some s \<Rightarrow> btree_insert key s m | None \<Rightarrow> m) keys m) \<subseteq> K"
    for keys K and m :: "(string, string) btree"
    by (induction keys arbitrary: m) (simp_all add: fst_set_btree_insert split: option.splits)
  from this [of "[]" "set DATASET_KEYS" DATASET_KEYS] show ?thesis
    by (simp add: parse_ds_properties_def)
qed

lemma crawled_datasets_parsed:
  "d \<in> set (datasets (parse_catalog_response print uuid v participant)) \<Longrightarrow> \<exists>w. d = parse_dataset print w"
  by (auto simp: crawled_datasets_eq)

lemma crawled_inv:
  "collect_inv ((catalog_new (case get_str v ''@id'' of Some i \<Rightarrow> i | None \<Rightarrow> ''urn:uuid:'' @ uuid)
       (pe_part_id participant))\<lparr>participant_id := provider_did participant\<rparr>)
     (parse_catalog_response print uuid v participant,
      snd (collect_datasets_and_services print v ((catalog_new (case get_str v ''@id'' of Some i \<Rightarrow> i
        | None \<Rightarrow> ''urn:uuid:'' @ uuid) (pe_part_id participant))\<lparr>participant_id := provider_did participant\<rparr>,
        \<lparr>seen_datasets = {}, seen_services = {}\<rparr>)))"
  by (simp add: parse_catalog_response_def Let_def)
    (rule collect_inv_collect, simp add: collect_inv_def catalog_new_def)

lemma parsed_identity:
  "origin_node (parse_catalog_response print uuid v participant) = pe_part_id participant"
  "participant_id (parse_catalog_response print uuid v participant) = provider_did participant"
  "properties (parse_catalog_response print uuid v participant) = []"
  using crawled_inv [where v = v and print = print and uuid = uuid and participant = participant]
  by (auto simp: collect_inv_def catalog_new_def elim: ssubst)

lemma crawled_wf: "catalog_wf (parse_catalog_response print uuid v participant)"
proof -
  let ?c = "parse_catalog_response print uuid v participant"
  have "distinct (map service_id (data_services ?c))" "properties ?c = []"
    using crawled_inv [where v = v and print = print and uuid = uuid and participant = participant]
    by (auto simp: collect_inv_def catalog_new_def elim: ssubst)
  moreover have "btree_ok (ds_properties d) \<and> (\<forall>p\<in>set (policies d). policy_depth_ok p)"
    if "d \<in> set (datasets ?c)" for d
    using crawled_datasets_parsed [OF that] parse_ds_properties_keys parse_policies_depth
    by (auto simp: parse_dataset_def)
  ultimately show ?thesis
    using crawled_dataset_ids by (simp add: catalog_wf_def catalog_depth_ok_def)
qed

text \<open>
  Claim C31. Whatever a participant sends, the crawled catalog is storable and bears the configured identity: ids
  are unique, every constraint lies within the depth the store accepts, dataset properties are the six
  descriptive keys, and the origin and the participant id are the configured ones, never the response's.
\<close>

theorem crawled_catalog_storable:
  "let c = parse_catalog_response print uuid v participant
   in catalog_wf c \<and> origin_node c = pe_part_id participant \<and> participant_id c = provider_did participant \<and>
      properties c = [] \<and> (\<Union>d\<in>set (datasets c). fst ` set (ds_properties d)) \<subseteq> set DATASET_KEYS"
proof -
  let ?c = "parse_catalog_response print uuid v participant"
  have "origin_node ?c = pe_part_id participant" "participant_id ?c = provider_did participant"
    "properties ?c = []" by (rule parsed_identity)+
  moreover have "fst ` set (ds_properties d) \<subseteq> set DATASET_KEYS" if "d \<in> set (datasets ?c)" for d
  proof -
    obtain w where "d = parse_dataset print w" using crawled_datasets_parsed [OF \<open>d \<in> set (datasets ?c)\<close>] by blast
    then show ?thesis using parse_ds_properties_keys by (simp add: parse_dataset_def)
  qed
  ultimately show ?thesis using crawled_wf by (simp add: Let_def UN_subset_iff)
qed

section \<open>Nothing unreadable is dropped\<close>

text \<open>
  What a policy entry must look like for the broker to read all of it, stated on the JSON alone: every constraint
  an atomic triple with a known operator or one logical group within the depth bound, every rule a node with a
  readable action and none of the rule-level keys the model lacks, the policy a node with a rule key and no
  unreadable assignee.
\<close>

function clean_constraint :: "(json \<Rightarrow> string) \<Rightarrow> json \<Rightarrow> nat \<Rightarrow> bool" where
  "clean_constraint print v depth =
     (case logical_present v of
        [] \<Rightarrow> (case atomic_triple print v of Some (l, op, r) \<Rightarrow> parse_operator op \<noteq> None | None \<Rightarrow> False)
      | [(key, build)] \<Rightarrow>
          \<not> has_atomic_key v \<and> depth < MAX_CONSTRAINT_DEPTH \<and>
          (\<forall>child\<in>set (one_or_many_aliased v key). clean_constraint print child (depth + 1))
      | _ \<Rightarrow> False)"
  by pat_completeness auto

termination
  by (relation "measure (\<lambda>(print, v, depth). size v)") (auto simp: one_or_many_aliased_size)

declare clean_constraint.simps [simp del]

definition clean_rule :: "(json \<Rightarrow> string) \<Rightarrow> json \<Rightarrow> bool" where
  "clean_rule print v \<longleftrightarrow>
     is_object v \<and> field_value (get_field print v ''action'') \<noteq> None \<and>
     list_all (\<lambda>k. aliased_all v k = []) [''assignee'', ''target'', ''duty''] \<and>
     list_all (\<lambda>c. clean_constraint print c 0) (one_or_many_aliased v ''constraint'')"

definition clean_policy :: "(json \<Rightarrow> string) \<Rightarrow> json \<Rightarrow> bool" where
  "clean_policy print v \<longleftrightarrow>
     is_object v \<and> \<not> no_rule_key v \<and> get_field print v ''assignee'' \<noteq> Unreadable \<and>
     list_all (\<lambda>key. list_all (clean_rule print) (one_or_many_aliased v key))
       [''permission'', ''prohibition'', ''obligation'']"

lemma atomic_triple_key: "atomic_triple print v = Some t \<Longrightarrow> has_atomic_key v"
  by (auto simp: atomic_triple_def has_atomic_key_def get_field_def split: field.splits list.splits)

lemma not_ops_known_marker [simp]: "\<not> ops_known (unmappable raw)"
  by (simp add: unmappable_def atomic_def)

lemma parse_constraint_clean:
  "depth \<le> MAX_CONSTRAINT_DEPTH \<Longrightarrow>
   ops_known (parse_constraint print v depth) \<longleftrightarrow> clean_constraint print v depth"
proof (induction print v depth rule: parse_constraint.induct)
  case (1 print v depth)
  consider (none) "logical_present v = []"
    | (one) key build where "logical_present v = [(key, build)]" "\<not> has_atomic_key v"
    | (mixed) "length (logical_present v) > 1 \<or> has_atomic_key v \<and> logical_present v \<noteq> []"
    by (cases "logical_present v" rule: remdups_adj.cases) auto
  then show ?case
  proof cases
    case none
    then show ?thesis
      using "1.prems" by (subst parse_constraint.simps, subst clean_constraint.simps)
        (auto simp: atomic_def split: option.splits)
  next
    case one
    then have triple: "atomic_triple print v = None"
      using atomic_triple_key [of print v] by (cases "atomic_triple print v") auto
    have b: "(key, build) \<in> set LOGICAL_CONSTRAINT_BUILDERS"
      using one logical_present_builder by blast
    have "ops_known (build cs) \<longleftrightarrow> (\<forall>c\<in>set cs. ops_known c)" for cs
    proof -
      obtain l where "build cs = Logical l" "children l = cs"
        using logical_builders [OF b, of cs] by blast
      then show ?thesis by simp
    qed
    then show ?thesis
      using 1 one triple by (subst parse_constraint.simps, subst clean_constraint.simps) auto
  next
    case mixed
    then show ?thesis
      using "1.prems" by (subst parse_constraint.simps, subst clean_constraint.simps)
        (auto split: list.splits)
  qed
qed

lemma parse_constraint_mappable: "mappable (parse_constraint print v 0) \<longleftrightarrow> clean_constraint print v 0"
  using parse_constraint_height [of print v 0] parse_constraint_clean [of 0 print v]
  by (simp add: mappable_def)

lemma parse_rule_mappable:
  "(\<forall>c\<in>set (constraints (parse_rule print v)). mappable c) \<longleftrightarrow> clean_rule print v"
proof (cases "is_object v")
  case True
  have "(\<forall>c\<in>set (rule_level_markers print v). mappable c) \<longleftrightarrow>
      list_all (\<lambda>k. aliased_all v k = []) [''assignee'', ''target'', ''duty'']"
    by (auto simp: rule_level_markers_def)
  moreover have "(\<forall>c\<in>set (parse_constraints print cs). mappable c) \<longleftrightarrow>
      list_all (\<lambda>c. clean_constraint print c 0) cs" for cs
    by (simp add: parse_constraints_def parse_constraint_mappable list_all_iff)
  ultimately show ?thesis
    using True by (cases "get_field print v ''action''")
      (auto simp: parse_rule_def clean_rule_def ball_Un)
qed (simp add: parse_rule_def unmappable_rule_def clean_rule_def)

lemma unmappable_rule_not_mappable: "\<not> (\<forall>c\<in>set (constraints (unmappable_rule print v)). mappable c)"
  by (simp add: unmappable_rule_def)

lemma parse_policy_mappable: "is_object v \<Longrightarrow> policy_mappable (parse_policy print v) \<longleftrightarrow> clean_policy print v"
proof -
  assume v: "is_object v"
  have rules: "(\<forall>r\<in>set (parse_rules print v key). \<forall>c\<in>set (constraints r). mappable c) \<longleftrightarrow>
      list_all (clean_rule print) (one_or_many_aliased v key)" for key
    by (simp add: parse_rules_def parse_rule_mappable list_all_iff)
  show ?thesis
    using v unmappable_rule_not_mappable
    by (cases "get_field print v ''assignee''"; cases "no_rule_key v")
      (auto simp: policy_mappable_def policy_rules_def parse_policy_def clean_policy_def ball_Un rules Let_def)
qed

lemma parse_policies_mappable:
  "map policy_mappable (parse_policies print v) = map (clean_policy print) (one_or_many_aliased v ''hasPolicy'')"
  using unmappable_rule_not_mappable
  by (auto simp: parse_policies_def parse_policy_mappable)
    (auto simp: policy_mappable_def policy_rules_def clean_policy_def)


text \<open>
  Claim C9. From the response to the caller: a dataset all of whose policy entries are unreadable is shown to no
  one, by no engine and for no claims, unless the deployment chose to skip what it cannot map.
\<close>

theorem unreadable_dataset_hidden:
  assumes "unmappable_action config \<noteq> SkipConstraint"
    "one_or_many_aliased v ''hasPolicy'' \<noteq> []"
    "\<forall>p\<in>set (one_or_many_aliased v ''hasPolicy''). \<not> clean_policy print p"
  shows "\<not> dataset_is_visible eval (parse_dataset print v) cl act config"
proof -
  have "\<forall>p\<in>set (policies (parse_dataset print v)). \<not> policy_mappable p"
    using assms(3) arg_cong [OF parse_policies_mappable [of print v], where f = set]
    by (auto simp: parse_dataset_def image_iff)
  then have "\<not> policy_mappable (policies (parse_dataset print v) ! i)"
    if "i < length (policies (parse_dataset print v))" for i
    using that by simp
  moreover have "policies (parse_dataset print v) \<noteq> []"
    using assms(2) by (simp add: parse_dataset_def parse_policies_def)
  ultimately show ?thesis
    using visible_loop_iff [OF assms(1)] by (auto simp: dataset_is_visible_def)
qed

theorem unreadable_dataset_hidden_witness:
  "\<not> dataset_is_visible (\<lambda>_. WireAllow) (parse_dataset (\<lambda>_. []) (JObject [(''hasPolicy'', JString ''urn:p'')]))
     [] ''use'' policy_filter_config_default"
proof (rule unreadable_dataset_hidden)
  let ?v = "JObject [(''hasPolicy'', JString ''urn:p'')]"
  have e: "one_or_many_aliased ?v ''hasPolicy'' = [JString ''urn:p'']"
    by (simp add: one_or_many_aliased_def aliased_all_def aliases_def ODRL_NS_def)
  show "one_or_many_aliased ?v ''hasPolicy'' \<noteq> []"
    "\<forall>p\<in>set (one_or_many_aliased ?v ''hasPolicy''). \<not> clean_policy (\<lambda>_. []) p"
    by (simp_all add: e clean_policy_def)
qed (simp add: policy_filter_config_default_def)

end
