(* ===== verification/Rdf_Terms.thy ===== *)
theory Rdf_Terms
  imports Catalog_Core "HOL-Library.Word"
begin

text \<open>
  RDF terms, the vocabulary and the resource IRIs of the semantic cache:
  \<open>crates/rdf-store/src/oxigraph_backend/vocab.rs\<close>, \<open>iris.rs\<close> and the index literals and errors of
  \<open>mod.rs\<close>. A \<open>NamedNode\<close> is its IRI string.

  The crates \<open>urlencoding\<close> and \<open>oxiri\<close> are parameters, bundled in a record \<open>codec\<close>: percent-encoding,
  percent-decoding and the test whether a string is an IRI. The locale \<open>iri_codec\<close> states what the store
  relies on; it is interpreted at the end on the encoding of RFC 3986.
\<close>

section \<open>Terms\<close>

datatype rdf_term =
    NamedNode string
  | BlankNode string
  | Literal string string

record triple =
  subj :: rdf_term
  pred :: string
  obj :: rdf_term

definition XSD_STRING :: string where
  "XSD_STRING = ''http://www.w3.org/2001/XMLSchema#string''"

definition XSD_INTEGER :: string where
  "XSD_INTEGER = ''http://www.w3.org/2001/XMLSchema#integer''"

definition string_literal :: "string \<Rightarrow> rdf_term" where
  "string_literal s = Literal s XSD_STRING"

text \<open>\<open>Literal::from(index as i64)\<close>.\<close>

definition index_literal :: "nat \<Rightarrow> rdf_term" where
  "index_literal n = Literal (show_int (sint (word_of_nat n :: 64 word))) XSD_INTEGER"

lemma index_literal_eq: "n < 2 ^ 63 \<Longrightarrow> index_literal n = Literal (show_nat n) XSD_INTEGER"
proof -
  assume n: "n < 2 ^ 63"
  then have "sint (word_of_nat n :: 64 word) = int n"
    by (simp add: sint_uint unsigned_of_nat take_bit_nat_eq_self signed_take_bit_int_eq_self)
  then show ?thesis by (simp add: index_literal_def show_int_def)
qed

text \<open>One constructor per error site of \<open>read.rs\<close>, \<open>write.rs\<close>, \<open>iris.rs\<close> and \<open>vocab.rs\<close>.\<close>

datatype store_error =
    UnexpectedPrefix string string
  | BadPercentEncoding string
  | NotLiteralOrIri rdf_term
  | NotNamedNode rdf_term string
  | UnknownPolicyType string
  | MissingValue string string
  | BadSequenceIndex string
  | SequenceIndexNotLiteral rdf_term
  | CatalogSubjectNotNamed
  | TooDeep string
  | GroupMismatch string string
  | UnreadableConstraint string "rdf_term option"
  | Backend string

section \<open>Vocabulary\<close>

definition NODE_NS :: string where
  "NODE_NS = ''https://federated-catalog-rs.internal/nodes/''"

definition INTERNAL_NS :: string where
  "INTERNAL_NS = ''https://federated-catalog-rs.internal/ns#''"

definition INTERNAL_PROPERTY_PREFIX :: string where
  "INTERNAL_PROPERTY_PREFIX = ''https://federated-catalog-rs.internal/ns#property/''"

definition DCAT_NS :: string where "DCAT_NS = ''http://www.w3.org/ns/dcat#''"
definition DCT_NS :: string where "DCT_NS = ''http://purl.org/dc/terms/''"

definition RDF_TYPE_IRI :: string where
  "RDF_TYPE_IRI = ''http://www.w3.org/1999/02/22-rdf-syntax-ns#type''"

definition dcat :: "string \<Rightarrow> string" where "dcat l = DCAT_NS @ l"
definition dct :: "string \<Rightarrow> string" where "dct l = DCT_NS @ l"
definition internal :: "string \<Rightarrow> string" where "internal l = INTERNAL_NS @ l"
definition odrl :: "string \<Rightarrow> string" where "odrl l = ODRL_NS @ l"
definition rdf_type :: string where "rdf_type = RDF_TYPE_IRI"

abbreviation dcat_catalog_class :: string where "dcat_catalog_class \<equiv> dcat ''Catalog''"
abbreviation dcat_dataset_class :: string where "dcat_dataset_class \<equiv> dcat ''Dataset''"
abbreviation dcat_distribution_class :: string where "dcat_distribution_class \<equiv> dcat ''Distribution''"
abbreviation dcat_data_service_class :: string where "dcat_data_service_class \<equiv> dcat ''DataService''"
abbreviation dcat_dataset_pred :: string where "dcat_dataset_pred \<equiv> dcat ''dataset''"
abbreviation dcat_service_pred :: string where "dcat_service_pred \<equiv> dcat ''service''"
abbreviation dcat_distribution_pred :: string where "dcat_distribution_pred \<equiv> dcat ''distribution''"
abbreviation dcat_access_service_pred :: string where "dcat_access_service_pred \<equiv> dcat ''accessService''"
abbreviation dcat_endpoint_url_pred :: string where "dcat_endpoint_url_pred \<equiv> dcat ''endpointURL''"
abbreviation dcat_endpoint_description_pred :: string where
  "dcat_endpoint_description_pred \<equiv> dcat ''endpointDescription''"
abbreviation dct_format_pred :: string where "dct_format_pred \<equiv> dct ''format''"
abbreviation participant_id_pred :: string where "participant_id_pred \<equiv> internal ''participantId''"
abbreviation sequence_index_pred :: string where "sequence_index_pred \<equiv> internal ''sequenceIndex''"
abbreviation logical_operator_pred :: string where "logical_operator_pred \<equiv> internal ''logicalOperator''"
abbreviation policy_id_pred :: string where "policy_id_pred \<equiv> internal ''policyId''"
abbreviation odrl_has_policy_pred :: string where "odrl_has_policy_pred \<equiv> odrl ''hasPolicy''"
abbreviation odrl_permission_pred :: string where "odrl_permission_pred \<equiv> odrl ''permission''"
abbreviation odrl_prohibition_pred :: string where "odrl_prohibition_pred \<equiv> odrl ''prohibition''"
abbreviation odrl_obligation_pred :: string where "odrl_obligation_pred \<equiv> odrl ''obligation''"
abbreviation odrl_action_pred :: string where "odrl_action_pred \<equiv> odrl ''action''"
abbreviation odrl_constraint_pred :: string where "odrl_constraint_pred \<equiv> odrl ''constraint''"
abbreviation odrl_left_operand_pred :: string where "odrl_left_operand_pred \<equiv> odrl ''leftOperand''"
abbreviation odrl_operator_pred :: string where "odrl_operator_pred \<equiv> odrl ''operator''"
abbreviation odrl_right_operand_pred :: string where "odrl_right_operand_pred \<equiv> odrl ''rightOperand''"
abbreviation odrl_assigner_pred :: string where "odrl_assigner_pred \<equiv> odrl ''assigner''"
abbreviation odrl_assignee_pred :: string where "odrl_assignee_pred \<equiv> odrl ''assignee''"

definition logical_constraint_preds :: "(string \<times> (constraint list \<Rightarrow> constraint)) list" where
  "logical_constraint_preds = map (\<lambda>(name, build). (odrl name, build)) LOGICAL_CONSTRAINT_BUILDERS"

fun odrl_policy_class :: "policy_kind \<Rightarrow> string" where
  "odrl_policy_class KindSet = odrl ''Set''"
| "odrl_policy_class KindOffer = odrl ''Offer''"
| "odrl_policy_class KindAgreement = odrl ''Agreement''"

definition policy_kind_from_class :: "string \<Rightarrow> store_error + policy_kind" where
  "policy_kind_from_class class =
     (if class = odrl_policy_class KindSet then Inr KindSet
      else if class = odrl_policy_class KindOffer then Inr KindOffer
      else if class = odrl_policy_class KindAgreement then Inr KindAgreement
      else Inl (UnknownPolicyType class))"

text \<open>Two terms of the vocabulary are equal only when namespace and local name are.\<close>

named_theorems vocab_simps

lemma vocab_local [simp, vocab_simps]:
  "dcat a = dcat b \<longleftrightarrow> a = b" "dct a = dct b \<longleftrightarrow> a = b"
  "internal a = internal b \<longleftrightarrow> a = b" "odrl a = odrl b \<longleftrightarrow> a = b"
  by (simp_all add: dcat_def dct_def internal_def odrl_def)

lemma vocab_ns [simp, vocab_simps]:
  "dcat a \<noteq> dct b" "dct b \<noteq> dcat a" "dcat a \<noteq> internal b" "internal b \<noteq> dcat a"
  "dcat a \<noteq> odrl b" "odrl b \<noteq> dcat a" "dcat a \<noteq> rdf_type" "rdf_type \<noteq> dcat a"
  "dct a \<noteq> internal b" "internal b \<noteq> dct a" "dct a \<noteq> odrl b" "odrl b \<noteq> dct a"
  "dct a \<noteq> rdf_type" "rdf_type \<noteq> dct a" "internal a \<noteq> odrl b" "odrl b \<noteq> internal a"
  "internal a \<noteq> rdf_type" "rdf_type \<noteq> internal a" "odrl a \<noteq> rdf_type" "rdf_type \<noteq> odrl a"
  by (simp_all add: dcat_def dct_def internal_def odrl_def rdf_type_def DCAT_NS_def DCT_NS_def
      INTERNAL_NS_def ODRL_NS_def RDF_TYPE_IRI_def)

lemma policy_class_inverse [simp]: "policy_kind_from_class (odrl_policy_class k) = Inr k"
  by (cases k) (simp_all add: policy_kind_from_class_def)

lemma policy_class_odrl: "\<exists>l. odrl_policy_class k = odrl l"
  by (cases k) auto

section \<open>Resource IRIs\<close>

record codec =
  url_encode :: "string \<Rightarrow> string"
  url_decode :: "string \<Rightarrow> string option"
  iri_valid :: "string \<Rightarrow> bool"

definition node_base :: "codec \<Rightarrow> node_id \<Rightarrow> string" where
  "node_base K n = NODE_NS @ url_encode K n"

definition node_iri :: "codec \<Rightarrow> node_id \<Rightarrow> string" where
  "node_iri K n = node_base K n"

definition catalog_iri :: "codec \<Rightarrow> string \<Rightarrow> string \<Rightarrow> string" where
  "catalog_iri K base i = base @ ''/catalogs/'' @ url_encode K i"

definition dataset_iri :: "codec \<Rightarrow> string \<Rightarrow> string \<Rightarrow> string" where
  "dataset_iri K base i = base @ ''/datasets/'' @ url_encode K i"

definition dataset_resource_iri :: "codec \<Rightarrow> node_id \<Rightarrow> string \<Rightarrow> string" where
  "dataset_resource_iri K n i = dataset_iri K (node_base K n) i"

definition distribution_iri :: "codec \<Rightarrow> string \<Rightarrow> string \<Rightarrow> nat \<Rightarrow> string" where
  "distribution_iri K base i index =
     base @ ''/datasets/'' @ url_encode K i @ ''/distributions/'' @ show_nat index"

definition service_iri :: "codec \<Rightarrow> string \<Rightarrow> string \<Rightarrow> string" where
  "service_iri K base i = base @ ''/services/'' @ url_encode K i"

definition service_resource_iri :: "codec \<Rightarrow> node_id \<Rightarrow> string \<Rightarrow> string" where
  "service_resource_iri K n i = service_iri K (node_base K n) i"

definition policy_iri :: "codec \<Rightarrow> string \<Rightarrow> string \<Rightarrow> nat \<Rightarrow> string" where
  "policy_iri K base i index =
     base @ ''/datasets/'' @ url_encode K i @ ''/policies/'' @ show_nat index"

definition rule_iri :: "string \<Rightarrow> string \<Rightarrow> nat \<Rightarrow> string" where
  "rule_iri p segment index = p @ ''/'' @ segment @ ''/'' @ show_nat index"

definition constraint_iri :: "string \<Rightarrow> nat \<Rightarrow> string" where
  "constraint_iri r index = r @ ''/constraints/'' @ show_nat index"

definition strip_prefix_decode :: "codec \<Rightarrow> string \<Rightarrow> string \<Rightarrow> store_error + string" where
  "strip_prefix_decode K i p =
     (case strip_prefix p i of
        None \<Rightarrow> Inl (UnexpectedPrefix i p)
      | Some rest \<Rightarrow> of_option (BadPercentEncoding i) (url_decode K rest))"

definition decode_node_id :: "codec \<Rightarrow> string \<Rightarrow> store_error + node_id" where
  "decode_node_id K graph_iri = strip_prefix_decode K graph_iri NODE_NS"

definition iri_or_literal_term :: "codec \<Rightarrow> string \<Rightarrow> rdf_term" where
  "iri_or_literal_term K v = (if iri_valid K v then NamedNode v else string_literal v)"

fun term_as_string :: "rdf_term \<Rightarrow> store_error + string" where
  "term_as_string (Literal v t) = Inr v"
| "term_as_string (NamedNode i) = Inr i"
| "term_as_string (BlankNode b) = Inl (NotLiteralOrIri (BlankNode b))"

fun expect_named_node :: "rdf_term \<Rightarrow> string \<Rightarrow> store_error + string" where
  "expect_named_node (NamedNode i) context = Inr i"
| "expect_named_node t context = Inl (NotNamedNode t context)"

definition property_predicate :: "codec \<Rightarrow> string \<Rightarrow> string" where
  "property_predicate K key =
     (if iri_valid K key then key else INTERNAL_PROPERTY_PREFIX @ url_encode K key)"

definition decode_property_key :: "codec \<Rightarrow> string \<Rightarrow> string" where
  "decode_property_key K p =
     (case strip_prefix INTERNAL_PROPERTY_PREFIX p of
        Some rest \<Rightarrow> (case url_decode K rest of Some k \<Rightarrow> k | None \<Rightarrow> rest)
      | None \<Rightarrow> p)"

lemma iri_or_literal_string [simp]: "term_as_string (iri_or_literal_term K v) = Inr v"
  by (simp add: iri_or_literal_term_def string_literal_def)

lemma string_literal_string [simp]: "term_as_string (string_literal v) = Inr v"
  by (simp add: string_literal_def)

section \<open>Resources below a resource\<close>

text \<open>
  \<open>under r x\<close>: the IRI \<open>x\<close> is \<open>r\<close> or is minted below it. Siblings whose last segments differ and
  contain no slash have nothing below them in common.
\<close>

definition under :: "string \<Rightarrow> string \<Rightarrow> bool" where
  "under r x \<longleftrightarrow> x = r \<or> prefix (r @ ''/'') x"

lemma under_refl [simp]: "under r r"
  by (simp add: under_def)

lemma under_extend: "under (r @ ''/'' @ s) x \<Longrightarrow> under r x"
  by (auto simp: under_def prefix_def)

lemma under_trans: "under a b \<Longrightarrow> under b c \<Longrightarrow> under a c"
  by (auto simp: under_def prefix_def)

lemma slash_free_split:
  assumes "a @ r = b @ q" "CHR ''/'' \<notin> set a" "CHR ''/'' \<notin> set b"
    "r = [] \<or> (\<exists>r'. r = CHR ''/'' # r')" "q = [] \<or> (\<exists>q'. q = CHR ''/'' # q')"
  shows "a = b \<and> r = q"
  using assms
proof (induction a arbitrary: b)
  case Nil
  then show ?case by (cases b) auto
next
  case (Cons c a)
  then show ?case by (cases b) auto
qed

lemma under_form: "under (r @ s) x \<Longrightarrow> \<exists>p. x = r @ s @ p \<and> (p = [] \<or> (\<exists>p'. p = CHR ''/'' # p'))"
  by (auto simp: under_def prefix_def)

lemma under_segment:
  assumes "under (r @ ''/'' @ a) x" "under (r @ ''/'' @ b) x" "CHR ''/'' \<notin> set a" "CHR ''/'' \<notin> set b"
  shows "a = b"
proof -
  obtain p where p: "x = r @ (''/'' @ a) @ p" "p = [] \<or> (\<exists>p'. p = CHR ''/'' # p')"
    using under_form [OF assms(1)] by blast
  obtain q where q: "x = r @ (''/'' @ b) @ q" "q = [] \<or> (\<exists>q'. q = CHR ''/'' # q')"
    using under_form [OF assms(2)] by blast
  have "a @ p = b @ q" using p(1) q(1) by simp
  then show ?thesis using slash_free_split p(2) q(2) assms(3,4) by blast
qed

lemma not_under_parent: "\<not> under (r @ ''/'' @ s) r"
  by (auto simp: under_def prefix_def)

lemma under_cases: "under r x \<Longrightarrow> x = r \<or> (\<exists>s. x = r @ ''/'' @ s)"
  by (auto simp: under_def prefix_def)

section \<open>What the store relies on\<close>

definition unreserved :: "char \<Rightarrow> bool" where
  "unreserved c =
     (let n = of_char c :: nat in
        48 \<le> n \<and> n \<le> 57 \<or> 65 \<le> n \<and> n \<le> 90 \<or> 97 \<le> n \<and> n \<le> 122 \<or> c \<in> set ''-._~'')"

definition hex_digit :: "char \<Rightarrow> bool" where
  "hex_digit c = (c \<in> set ''0123456789ABCDEF'')"

text \<open>Text of unreserved characters and percent triples, without and with slashes.\<close>

fun pct_text :: "char set \<Rightarrow> string \<Rightarrow> bool" where
  "pct_text S [] = True"
| "pct_text S (c # cs) =
     (if c = CHR ''%'' then (case cs of a # b # r \<Rightarrow> hex_digit a \<and> hex_digit b \<and> pct_text S r | _ \<Rightarrow> False)
      else (unreserved c \<or> c \<in> S) \<and> pct_text S cs)"

definition VOCABULARY :: "string list" where
  "VOCABULARY = rdf_type
     # map dcat [''Catalog'', ''Dataset'', ''Distribution'', ''DataService'', ''dataset'', ''service'',
         ''distribution'', ''accessService'', ''endpointURL'', ''endpointDescription'']
     @ [dct ''format'']
     @ map internal [''participantId'', ''sequenceIndex'', ''logicalOperator'', ''policyId'']
     @ map odrl [''hasPolicy'', ''permission'', ''prohibition'', ''obligation'', ''action'', ''constraint'',
         ''leftOperand'', ''operator'', ''rightOperand'', ''assigner'', ''assignee'', ''and'', ''or'',
         ''xone'', ''andSequence'', ''Set'', ''Offer'', ''Agreement'']"

text \<open>
  The documented behaviour of the two crates: decoding undoes encoding, encoded text is percent-encoded,
  text under the broker's own namespaces made of such segments is an IRI, the constants of the
  vocabulary are IRIs, and an IRI has a scheme.
\<close>

locale iri_codec =
  fixes K :: codec
  assumes decode_encode: "url_decode K (url_encode K s) = Some s"
    and encode_pct: "pct_text {} (url_encode K s)"
    and node_iri_valid: "pct_text {CHR ''/''} s \<Longrightarrow> iri_valid K (NODE_NS @ s)"
    and property_iri_valid: "pct_text {} s \<Longrightarrow> iri_valid K (INTERNAL_PROPERTY_PREFIX @ s)"
    and vocabulary_valid: "s \<in> set VOCABULARY \<Longrightarrow> iri_valid K s"
    and iri_has_scheme: "iri_valid K s \<Longrightarrow> CHR '':'' \<in> set s"
begin

lemma encode_inject: "url_encode K a = url_encode K b \<longleftrightarrow> a = b"
  using decode_encode by (metis option.inject)

lemma pct_text_chars: "pct_text {} s \<Longrightarrow> c \<in> set s \<Longrightarrow> unreserved c \<or> hex_digit c \<or> c = CHR ''%''"
  by (induction "{} :: char set" s rule: pct_text.induct) (auto split: if_splits list.splits)

lemma encode_no_slash: "CHR ''/'' \<notin> set (url_encode K s)"
  using pct_text_chars [OF encode_pct, of "CHR ''/''" s] by (auto simp: unreserved_def hex_digit_def Let_def)

lemma strip_encoded: "strip_prefix_decode K (p @ url_encode K i) p = Inr i"
  by (simp add: strip_prefix_decode_def decode_encode)

lemma key_roundtrip:
  "\<not> prefix INTERNAL_PROPERTY_PREFIX key \<or> \<not> iri_valid K key \<Longrightarrow>
   decode_property_key K (property_predicate K key) = key"
  by (auto simp: decode_property_key_def property_predicate_def decode_encode strip_prefix_None_iff
      split: option.splits dest: strip_prefix_None_iff [THEN iffD2])

lemma plain_key: "CHR '':'' \<notin> set key \<Longrightarrow> \<not> iri_valid K key"
  using iri_has_scheme by blast

end

end
