(* ===== verification/Rdf_Write.thy ===== *)
theory Rdf_Write
  imports Rdf_Terms
begin

text \<open>
  Encoding a catalog as triples: \<open>crates/rdf-store/src/oxigraph_backend/write.rs\<close>. The source pushes quads to a
  buffer; here each function returns the triples it pushes, in order, and \<open>Inl\<close> where the source returns an
  error. The buffer's graph name is added by the store (theory \<open>Catalog_Store\<close>).
\<close>

definition tr :: "string \<Rightarrow> string \<Rightarrow> rdf_term \<Rightarrow> triple" where
  "tr s p v = \<lparr>subj = NamedNode s, pred = p, obj = v\<rparr>"

fun group_pred :: "logical_constraint \<Rightarrow> string" where
  "group_pred (And cs) = odrl ''and''"
| "group_pred (Or cs) = odrl ''or''"
| "group_pred (Xone cs) = odrl ''xone''"
| "group_pred (AndSequence cs) = odrl ''andSequence''"

section \<open>The writers\<close>

function write_constraint ::
    "codec \<Rightarrow> constraint \<Rightarrow> string \<Rightarrow> nat \<Rightarrow> nat \<Rightarrow> store_error + triple list" where
  "write_constraint K (Atomic a) node index depth =
     (if depth > MAX_CONSTRAINT_DEPTH then Inl (TooDeep node)
      else Inr [tr node sequence_index_pred (index_literal index),
                tr node odrl_left_operand_pred (iri_or_literal_term K (left_operand a)),
                tr node odrl_operator_pred (iri_or_literal_term K (operator a)),
                tr node odrl_right_operand_pred (string_literal (right_operand a))])"
| "write_constraint K (Logical l) node index depth =
     (if depth > MAX_CONSTRAINT_DEPTH then Inl (TooDeep node)
      else rbind (indexed_result (\<lambda>i child.
               rbind (write_constraint K child (constraint_iri node i) i (depth + 1))
                 (\<lambda>ts. Inr (tr node (group_pred l) (NamedNode (constraint_iri node i)) # ts)))
             (children l))
        (\<lambda>ts. Inr (tr node sequence_index_pred (index_literal index)
                 # tr node logical_operator_pred (NamedNode (group_pred l)) # ts)))"
  by pat_completeness auto

termination
  by (relation "measure (\<lambda>(K, c, node, index, depth). size c)") (use children_size nth_mem in auto)

definition write_rule :: "codec \<Rightarrow> rule \<Rightarrow> string \<Rightarrow> nat \<Rightarrow> store_error + triple list" where
  "write_rule K r node index =
     rbind (indexed_result (\<lambda>i c.
         rbind (write_constraint K c (constraint_iri node i) i 0)
           (\<lambda>ts. Inr (tr node odrl_constraint_pred (NamedNode (constraint_iri node i)) # ts)))
         (constraints r))
       (\<lambda>ts. Inr (tr node sequence_index_pred (index_literal index)
                # tr node odrl_action_pred (iri_or_literal_term K (action r)) # ts))"

definition write_rules ::
    "codec \<Rightarrow> rule list \<Rightarrow> string \<Rightarrow> string \<Rightarrow> string \<Rightarrow> store_error + triple list" where
  "write_rules K rs policy_node predicate segment =
     indexed_result (\<lambda>i r.
       rbind (write_rule K r (rule_iri policy_node segment i) i)
         (\<lambda>ts. Inr (tr policy_node predicate (NamedNode (rule_iri policy_node segment i)) # ts))) rs"

definition opt_triple :: "string \<Rightarrow> string \<Rightarrow> ('a \<Rightarrow> rdf_term) \<Rightarrow> 'a option \<Rightarrow> triple list" where
  "opt_triple s p f x = (case x of Some v \<Rightarrow> [tr s p (f v)] | None \<Rightarrow> [])"

definition write_policy :: "codec \<Rightarrow> policy \<Rightarrow> string \<Rightarrow> nat \<Rightarrow> store_error + triple list" where
  "write_policy K p node index =
     rbind (write_rules K (permissions p) node odrl_permission_pred ''permissions'') (\<lambda>perms.
     rbind (write_rules K (prohibitions p) node odrl_prohibition_pred ''prohibitions'') (\<lambda>prohs.
     rbind (write_rules K (obligations p) node odrl_obligation_pred ''obligations'') (\<lambda>obls.
       Inr ([tr node rdf_type (NamedNode (odrl_policy_class (kind p))),
             tr node sequence_index_pred (index_literal index)]
         @ opt_triple node policy_id_pred string_literal (policy_id p)
         @ opt_triple node odrl_assigner_pred (iri_or_literal_term K) (assigner p)
         @ opt_triple node odrl_assignee_pred (iri_or_literal_term K) (assignee p)
         @ perms @ prohs @ obls))))"

definition write_properties :: "codec \<Rightarrow> string \<Rightarrow> (string, string) btree \<Rightarrow> triple list" where
  "write_properties K s m = map (\<lambda>(key, v). tr s (property_predicate K key) (string_literal v)) m"

definition write_distribution :: "codec \<Rightarrow> string \<Rightarrow> string \<Rightarrow> nat \<Rightarrow> distribution \<Rightarrow> triple list" where
  "write_distribution K base d_id i d =
     (let node = distribution_iri K base d_id i
      in [tr (dataset_iri K base d_id) dcat_distribution_pred (NamedNode node),
          tr node rdf_type (NamedNode dcat_distribution_class),
          tr node sequence_index_pred (index_literal i),
          tr node dct_format_pred (string_literal (format d)),
          tr node dcat_access_service_pred (NamedNode (service_iri K base (access_service d)))])"

definition write_dataset ::
    "codec \<Rightarrow> string \<Rightarrow> string \<Rightarrow> nat \<Rightarrow> dataset \<Rightarrow> store_error + triple list" where
  "write_dataset K base catalog_node index d =
     (let node = dataset_iri K base (dataset_id d)
      in rbind (indexed_result (\<lambda>i p.
             let policy_node = policy_iri K base (dataset_id d) i
             in rbind (write_policy K p policy_node i)
               (\<lambda>ts. Inr (tr node odrl_has_policy_pred (NamedNode policy_node) # ts))) (policies d))
           (\<lambda>pols. Inr ([tr catalog_node dcat_dataset_pred (NamedNode node),
                tr node rdf_type (NamedNode dcat_dataset_class),
                tr node sequence_index_pred (index_literal index)]
              @ write_properties K node (ds_properties d)
              @ indexed (write_distribution K base (dataset_id d)) (distributions d)
              @ pols)))"

definition write_data_service :: "codec \<Rightarrow> string \<Rightarrow> string \<Rightarrow> nat \<Rightarrow> data_service \<Rightarrow> triple list" where
  "write_data_service K base catalog_node index s =
     (let node = service_iri K base (service_id s)
      in [tr catalog_node dcat_service_pred (NamedNode node),
          tr node rdf_type (NamedNode dcat_data_service_class),
          tr node sequence_index_pred (index_literal index),
          tr node dcat_endpoint_url_pred (iri_or_literal_term K (endpoint_url s))]
         @ opt_triple node dcat_endpoint_description_pred string_literal (endpoint_description s))"

definition write_catalog :: "codec \<Rightarrow> catalog \<Rightarrow> store_error + triple list" where
  "write_catalog K c =
     (let base = node_base K (origin_node c); node = catalog_iri K base (catalog_id c)
      in rbind (indexed_result (\<lambda>i d. write_dataset K base node i d) (datasets c))
           (\<lambda>ds. Inr (tr node rdf_type (NamedNode dcat_catalog_class)
              # opt_triple node participant_id_pred string_literal (participant_id c)
              @ write_properties K node (properties c)
              @ ds
              @ indexed (write_data_service K base node) (data_services c))))"

section \<open>What is written\<close>

text \<open>The triples of each resource when nothing exceeds the depth bound.\<close>

function constraint_triples :: "codec \<Rightarrow> constraint \<Rightarrow> string \<Rightarrow> nat \<Rightarrow> triple list" where
  "constraint_triples K (Atomic a) node index =
     [tr node sequence_index_pred (index_literal index),
      tr node odrl_left_operand_pred (iri_or_literal_term K (left_operand a)),
      tr node odrl_operator_pred (iri_or_literal_term K (operator a)),
      tr node odrl_right_operand_pred (string_literal (right_operand a))]"
| "constraint_triples K (Logical l) node index =
     tr node sequence_index_pred (index_literal index)
     # tr node logical_operator_pred (NamedNode (group_pred l))
     # indexed (\<lambda>i child. tr node (group_pred l) (NamedNode (constraint_iri node i))
          # constraint_triples K child (constraint_iri node i) i) (children l)"
  by pat_completeness auto

termination
  by (relation "measure (\<lambda>(K, c, node, index). size c)") (use children_size nth_mem in auto)

definition rule_triples :: "codec \<Rightarrow> rule \<Rightarrow> string \<Rightarrow> nat \<Rightarrow> triple list" where
  "rule_triples K r node index =
     tr node sequence_index_pred (index_literal index)
     # tr node odrl_action_pred (iri_or_literal_term K (action r))
     # indexed (\<lambda>i c. tr node odrl_constraint_pred (NamedNode (constraint_iri node i))
          # constraint_triples K c (constraint_iri node i) i) (constraints r)"

definition rules_triples :: "codec \<Rightarrow> rule list \<Rightarrow> string \<Rightarrow> string \<Rightarrow> string \<Rightarrow> triple list" where
  "rules_triples K rs node predicate segment =
     indexed (\<lambda>i r. tr node predicate (NamedNode (rule_iri node segment i))
        # rule_triples K r (rule_iri node segment i) i) rs"

definition policy_triples :: "codec \<Rightarrow> policy \<Rightarrow> string \<Rightarrow> nat \<Rightarrow> triple list" where
  "policy_triples K p node index =
     [tr node rdf_type (NamedNode (odrl_policy_class (kind p))),
      tr node sequence_index_pred (index_literal index)]
     @ opt_triple node policy_id_pred string_literal (policy_id p)
     @ opt_triple node odrl_assigner_pred (iri_or_literal_term K) (assigner p)
     @ opt_triple node odrl_assignee_pred (iri_or_literal_term K) (assignee p)
     @ rules_triples K (permissions p) node odrl_permission_pred ''permissions''
     @ rules_triples K (prohibitions p) node odrl_prohibition_pred ''prohibitions''
     @ rules_triples K (obligations p) node odrl_obligation_pred ''obligations''"

definition dataset_triples :: "codec \<Rightarrow> string \<Rightarrow> string \<Rightarrow> nat \<Rightarrow> dataset \<Rightarrow> triple list" where
  "dataset_triples K base catalog_node index d =
     (let node = dataset_iri K base (dataset_id d)
      in [tr catalog_node dcat_dataset_pred (NamedNode node),
          tr node rdf_type (NamedNode dcat_dataset_class),
          tr node sequence_index_pred (index_literal index)]
         @ write_properties K node (ds_properties d)
         @ indexed (write_distribution K base (dataset_id d)) (distributions d)
         @ indexed (\<lambda>i p. tr node odrl_has_policy_pred (NamedNode (policy_iri K base (dataset_id d) i))
              # policy_triples K p (policy_iri K base (dataset_id d) i) i) (policies d))"

definition catalog_triples :: "codec \<Rightarrow> catalog \<Rightarrow> triple list" where
  "catalog_triples K c =
     (let base = node_base K (origin_node c); node = catalog_iri K base (catalog_id c)
      in tr node rdf_type (NamedNode dcat_catalog_class)
         # opt_triple node participant_id_pred string_literal (participant_id c)
         @ write_properties K node (properties c)
         @ indexed (dataset_triples K base node) (datasets c)
         @ indexed (write_data_service K base node) (data_services c))"

lemma write_constraint_ok:
  "depth + height c \<le> MAX_CONSTRAINT_DEPTH \<Longrightarrow>
   write_constraint K c node index depth = Inr (constraint_triples K c node index)"
proof (induction c arbitrary: node index depth rule: constraint_induct)
  case (Logical l)
  have "depth + 1 + height (children l ! i) \<le> MAX_CONSTRAINT_DEPTH" if "i < length (children l)" for i
    using height_child [OF nth_mem [OF that]] Logical.prems by simp
  then have "indexed_result (\<lambda>i child.
        rbind (write_constraint K child (constraint_iri node i) i (depth + 1))
          (\<lambda>ts. Inr (tr node (group_pred l) (NamedNode (constraint_iri node i)) # ts))) (children l)
      = Inr (indexed (\<lambda>i child. tr node (group_pred l) (NamedNode (constraint_iri node i))
          # constraint_triples K child (constraint_iri node i) i) (children l))"
    using Logical.IH by (intro indexed_result_ok) simp
  then show ?case using Logical.prems by simp
qed simp

lemma write_constraint_too_deep:
  "\<not> depth + height c \<le> MAX_CONSTRAINT_DEPTH \<Longrightarrow> \<exists>e. write_constraint K c node index depth = Inl e"
proof (induction c arbitrary: node index depth rule: constraint_induct)
  case (Logical l)
  show ?case
  proof (cases "depth > MAX_CONSTRAINT_DEPTH")
    case False
    have "\<not> height (Logical l) \<le> MAX_CONSTRAINT_DEPTH - depth"
      using Logical.prems False by simp
    then obtain i where i: "i < length (children l)"
      "\<not> depth + 1 + height (children l ! i) \<le> MAX_CONSTRAINT_DEPTH"
    proof (cases "MAX_CONSTRAINT_DEPTH - depth")
      case 0
      assume a: "\<And>i. i < length (children l) \<Longrightarrow>
        \<not> depth + 1 + height (children l ! i) \<le> MAX_CONSTRAINT_DEPTH \<Longrightarrow> thesis"
      then have "children l \<noteq> []"
        using \<open>\<not> height (Logical l) \<le> _\<close> height_Logical_le_0 [of l] by auto
      then show thesis using 0 a [of 0] by auto
    next
      case (Suc n)
      assume a: "\<And>i. i < length (children l) \<Longrightarrow>
        \<not> depth + 1 + height (children l ! i) \<le> MAX_CONSTRAINT_DEPTH \<Longrightarrow> thesis"
      from Suc obtain i where "i < length (children l)" "\<not> height (children l ! i) \<le> n"
        using \<open>\<not> height (Logical l) \<le> _\<close> by (auto simp: height_Logical_le in_set_conv_nth)
      then show thesis using Suc a [of i] by auto
    qed
    obtain e where "write_constraint K (children l ! i) (constraint_iri node i) i (depth + 1) = Inl e"
      using Logical.IH [OF nth_mem [OF i(1)] i(2)] by blast
    then show ?thesis
      using False indexed_result_error [OF i(1), where f = "\<lambda>i child.
        rbind (write_constraint K child (constraint_iri node i) i (depth + 1))
          (\<lambda>ts. Inr (tr node (group_pred l) (NamedNode (constraint_iri node i)) # ts))"] by auto
  qed simp
qed simp

lemma isl_write_constraint:
  "isl (write_constraint K c node index depth) \<longleftrightarrow> \<not> depth + height c \<le> MAX_CONSTRAINT_DEPTH"
  using write_constraint_ok write_constraint_too_deep by (metis isl_def sum.disc(2))

lemma ex_index: "(\<exists>i<length xs. P (xs ! i)) \<longleftrightarrow> (\<exists>x\<in>set xs. P x)"
  by (metis in_set_conv_nth)

lemma isl_write_rule: "isl (write_rule K r node index) \<longleftrightarrow> \<not> rule_depth_ok r"
  by (simp add: write_rule_def isl_write_constraint rule_depth_ok_def
      ex_index [where P = "\<lambda>c. \<not> height c \<le> MAX_CONSTRAINT_DEPTH"])

lemma isl_write_rules: "isl (write_rules K rs node p seg) \<longleftrightarrow> (\<exists>r\<in>set rs. \<not> rule_depth_ok r)"
  by (simp add: write_rules_def isl_write_rule ex_index [where P = "\<lambda>r. \<not> rule_depth_ok r"])

lemma isl_write_policy: "isl (write_policy K p node index) \<longleftrightarrow> \<not> policy_depth_ok p"
proof -
  have "isl (rbind a (\<lambda>x. rbind b (\<lambda>y. rbind c (\<lambda>z. Inr (g x y z))))) \<longleftrightarrow> isl a \<or> isl b \<or> isl c"
    for a b c :: "store_error + triple list" and g :: "triple list \<Rightarrow> triple list \<Rightarrow> triple list \<Rightarrow> triple list"
    by (cases a; cases b; cases c) simp_all
  then show ?thesis
    by (simp add: write_policy_def isl_write_rules policy_depth_ok_def policy_rules_def) blast
qed

lemma isl_write_dataset:
  "isl (write_dataset K base cn index d) \<longleftrightarrow> (\<exists>p\<in>set (policies d). \<not> policy_depth_ok p)"
  by (simp add: write_dataset_def Let_def isl_write_policy ex_index [where P = "\<lambda>p. \<not> policy_depth_ok p"])

lemma isl_write_catalog: "isl (write_catalog K c) \<longleftrightarrow> \<not> catalog_depth_ok c"
  by (simp add: write_catalog_def Let_def isl_write_dataset catalog_depth_ok_def
      ex_index [where P = "\<lambda>d. \<exists>p\<in>set (policies d). \<not> policy_depth_ok p"])

lemma write_rule_ok: "rule_depth_ok r \<Longrightarrow> write_rule K r node index = Inr (rule_triples K r node index)"
  unfolding write_rule_def rule_triples_def
  by (subst indexed_result_ok [where g = "\<lambda>i c. tr node odrl_constraint_pred (NamedNode (constraint_iri node i))
        # constraint_triples K c (constraint_iri node i) i"])
    (simp_all add: rule_depth_ok_def write_constraint_ok)

lemma write_rules_ok:
  "\<forall>r\<in>set rs. rule_depth_ok r \<Longrightarrow> write_rules K rs node p seg = Inr (rules_triples K rs node p seg)"
  unfolding write_rules_def rules_triples_def
  by (rule indexed_result_ok) (simp add: write_rule_ok)

lemma write_policy_ok: "policy_depth_ok p \<Longrightarrow> write_policy K p node index = Inr (policy_triples K p node index)"
  by (simp add: write_policy_def policy_triples_def write_rules_ok policy_depth_ok_def policy_rules_def)

lemma write_dataset_ok:
  "\<forall>p\<in>set (policies d). policy_depth_ok p \<Longrightarrow>
   write_dataset K base cn index d = Inr (dataset_triples K base cn index d)"
  unfolding write_dataset_def dataset_triples_def Let_def
  by (subst indexed_result_ok [where g = "\<lambda>i p. tr (dataset_iri K base (dataset_id d)) odrl_has_policy_pred
        (NamedNode (policy_iri K base (dataset_id d) i)) # policy_triples K p (policy_iri K base (dataset_id d) i) i"])
    (simp_all add: write_policy_ok)

lemma write_catalog_ok: "catalog_depth_ok c \<Longrightarrow> write_catalog K c = Inr (catalog_triples K c)"
  unfolding write_catalog_def catalog_triples_def Let_def
  by (subst indexed_result_ok [where g = "dataset_triples K (node_base K (origin_node c))
        (catalog_iri K (node_base K (origin_node c)) (catalog_id c))"])
    (auto simp: catalog_depth_ok_def intro!: write_dataset_ok)

text \<open>
  Claim C35. A catalog is encoded whole or refused: encoding fails exactly when some constraint lies deeper than
  the bound, and otherwise yields the triples of every resource, with no constraint, rule or policy left
  out.
\<close>

theorem write_whole_or_refuse:
  "if catalog_depth_ok c then write_catalog K c = Inr (catalog_triples K c)
   else \<exists>e. write_catalog K c = Inl e"
  using write_catalog_ok isl_write_catalog [of K c] by (auto simp: isl_def)

end
