(* ===== verification/Rdf_Read.thy ===== *)
theory Rdf_Read
  imports Rdf_Write
begin

text \<open>
  Decoding a catalog from its named graph: \<open>crates/rdf-store/src/oxigraph_backend/read.rs\<close> and the snapshot
  with its subject index in \<open>mod.rs\<close>. A snapshot holds the triples of one named graph in whatever order the
  store returned them; blank nodes and foreign triples may be among them.
\<close>

section \<open>Snapshots\<close>

record graph_snapshot =
  gs_quads :: "triple list"
  by_subject :: "rdf_term \<Rightarrow> nat list option"

definition empty_snapshot :: graph_snapshot where
  "empty_snapshot = \<lparr>gs_quads = [], by_subject = (\<lambda>_. None)\<rparr>"

definition snapshot_push :: "triple \<Rightarrow> graph_snapshot \<Rightarrow> graph_snapshot" where
  "snapshot_push t g =
     \<lparr>gs_quads = gs_quads g @ [t],
      by_subject = (by_subject g)(subj t \<mapsto>
        (case by_subject g (subj t) of Some is \<Rightarrow> is | None \<Rightarrow> []) @ [length (gs_quads g)])\<rparr>"

definition snapshot_of :: "triple list \<Rightarrow> graph_snapshot" where
  "snapshot_of ts = fold snapshot_push ts empty_snapshot"

definition matching_quads ::
    "string option \<Rightarrow> string option \<Rightarrow> rdf_term option \<Rightarrow> graph_snapshot \<Rightarrow> triple list" where
  "matching_quads s p v g =
     filter (\<lambda>t. (case p of None \<Rightarrow> True | Some p' \<Rightarrow> pred t = p') \<and>
                 (case v of None \<Rightarrow> True | Some v' \<Rightarrow> obj t = v'))
       (case s of
          None \<Rightarrow> gs_quads g
        | Some s' \<Rightarrow>
            (case by_subject g (NamedNode s') of
               None \<Rightarrow> []
             | Some is \<Rightarrow> map (\<lambda>i. gs_quads g ! i) is))"

definition first_object :: "string \<Rightarrow> string \<Rightarrow> graph_snapshot \<Rightarrow> rdf_term option" where
  "first_object s p g =
     (case matching_quads (Some s) (Some p) None g of [] \<Rightarrow> None | t # _ \<Rightarrow> Some (obj t))"

definition sequence_index :: "string \<Rightarrow> graph_snapshot \<Rightarrow> store_error + nat" where
  "sequence_index s g =
     rbind (of_option (MissingValue s ''fcns:sequenceIndex'') (first_object s sequence_index_pred g))
       (\<lambda>t. case t of
          Literal v ty \<Rightarrow> of_option (BadSequenceIndex v) (parse_usize v)
        | NamedNode i \<Rightarrow> Inl (SequenceIndexNotLiteral t)
        | BlankNode b \<Rightarrow> Inl (SequenceIndexNotLiteral t))"

definition optional_string :: "string \<Rightarrow> string \<Rightarrow> graph_snapshot \<Rightarrow> store_error + string option" where
  "optional_string s p g =
     (case first_object s p g of
        None \<Rightarrow> Inr None
      | Some t \<Rightarrow> rbind (term_as_string t) (\<lambda>v. Inr (Some v)))"

definition required_string :: "string \<Rightarrow> string \<Rightarrow> string \<Rightarrow> graph_snapshot \<Rightarrow> store_error + string" where
  "required_string s p what g =
     rbind (optional_string s p g) (of_option (MissingValue s what))"

section \<open>The readers\<close>

text \<open>
  The loop every list shares: follow each link, decode its target, sort by the decoded position and drop the
  positions.
\<close>

definition load_list ::
    "(string \<Rightarrow> store_error + nat \<times> 'a) \<Rightarrow> string \<Rightarrow> triple list \<Rightarrow> store_error + 'a list" where
  "load_list load context quads =
     rbind (traverse (\<lambda>t. rbind (expect_named_node (obj t) context) load) quads)
       (\<lambda>entries. Inr (map snd (sort_key fst entries)))"

lemma load_list_cong [fundef_cong]:
  assumes "c = d" "qs = rs" "\<And>s. f s = g s"
  shows "load_list f c qs = load_list g d rs"
proof -
  have "f = g" using assms(3) by blast
  with assms show ?thesis by simp
qed

fun choose_group ::
    "graph_snapshot \<Rightarrow> string \<Rightarrow> rdf_term option \<Rightarrow> (string \<times> (constraint list \<Rightarrow> constraint)) list \<Rightarrow>
     ((constraint list \<Rightarrow> constraint) \<times> triple list) option \<Rightarrow>
     store_error + ((constraint list \<Rightarrow> constraint) \<times> triple list) option" where
  "choose_group g s marker [] chosen = Inr chosen"
| "choose_group g s marker ((p, build) # preds) chosen =
     (let is_marker = (marker = Some (NamedNode p));
          links = matching_quads (Some s) (Some p) None g
      in if marker \<noteq> None \<and> \<not> is_marker \<and> links \<noteq> [] then Inl (GroupMismatch s p)
         else choose_group g s marker preds
           (if Option.is_none chosen \<and> (is_marker \<or> marker = None \<and> links \<noteq> [])
            then Some (build, links) else chosen))"

function load_constraint :: "string \<Rightarrow> graph_snapshot \<Rightarrow> nat \<Rightarrow> store_error + nat \<times> constraint" where
  "load_constraint s g depth =
     (if depth > MAX_CONSTRAINT_DEPTH then Inl (TooDeep s)
      else rbind (sequence_index s g) (\<lambda>index.
        case first_object s odrl_left_operand_pred g of
          Some t \<Rightarrow>
            rbind (term_as_string t) (\<lambda>l.
            rbind (required_string s odrl_operator_pred ''odrl:operator'' g) (\<lambda>op.
            rbind (required_string s odrl_right_operand_pred ''odrl:rightOperand'' g) (\<lambda>r.
              Inr (index, atomic l op r))))
        | None \<Rightarrow>
            let marker = first_object s logical_operator_pred g
            in rbind (choose_group g s marker logical_constraint_preds None) (\<lambda>chosen.
              case chosen of
                None \<Rightarrow> Inl (UnreadableConstraint s marker)
              | Some (build, links) \<Rightarrow>
                  rbind (load_list (\<lambda>child. load_constraint child g (depth + 1))
                      ''a logical constraint child reference'' links)
                    (\<lambda>children. Inr (index, build children)))))"
  by pat_completeness auto

termination
  by (relation "measure (\<lambda>(s, g, depth). Suc MAX_CONSTRAINT_DEPTH - depth)") auto

declare load_constraint.simps [simp del]

definition load_rule :: "graph_snapshot \<Rightarrow> string \<Rightarrow> store_error + nat \<times> rule" where
  "load_rule g s =
     rbind (sequence_index s g) (\<lambda>index.
     rbind (required_string s odrl_action_pred ''odrl:action'' g) (\<lambda>a.
     rbind (load_list (\<lambda>c. load_constraint c g 0) ''an odrl:constraint reference''
         (matching_quads (Some s) (Some odrl_constraint_pred) None g)) (\<lambda>cs.
       Inr (index, \<lparr>action = a, constraints = cs\<rparr>))))"

definition load_rules :: "graph_snapshot \<Rightarrow> string \<Rightarrow> string \<Rightarrow> store_error + rule list" where
  "load_rules g s predicate =
     load_list (load_rule g) ''an odrl rule reference'' (matching_quads (Some s) (Some predicate) None g)"

definition load_policy :: "graph_snapshot \<Rightarrow> string \<Rightarrow> store_error + nat \<times> policy" where
  "load_policy g s =
     rbind (sequence_index s g) (\<lambda>index.
     rbind (of_option (MissingValue s ''rdf:type'') (first_object s rdf_type g)) (\<lambda>kind_term.
     rbind (expect_named_node kind_term [CHR ''a'']) (\<lambda>kind_node.
     rbind (policy_kind_from_class kind_node) (\<lambda>k.
     rbind (optional_string s policy_id_pred g) (\<lambda>i.
     rbind (optional_string s odrl_assigner_pred g) (\<lambda>asr.
     rbind (optional_string s odrl_assignee_pred g) (\<lambda>ase.
     rbind (load_rules g s odrl_permission_pred) (\<lambda>perms.
     rbind (load_rules g s odrl_prohibition_pred) (\<lambda>prohs.
     rbind (load_rules g s odrl_obligation_pred) (\<lambda>obls.
       Inr (index, \<lparr>policy_id = i, kind = k, assigner = asr, assignee = ase, permissions = perms,
         prohibitions = prohs, obligations = obls\<rparr>)))))))))))"

definition load_distribution ::
    "codec \<Rightarrow> string \<Rightarrow> graph_snapshot \<Rightarrow> string \<Rightarrow> store_error + nat \<times> distribution" where
  "load_distribution K base g s =
     rbind (sequence_index s g) (\<lambda>index.
     rbind (required_string s dct_format_pred ''dct:format'' g) (\<lambda>f.
     rbind (of_option (MissingValue s ''dcat:accessService'') (first_object s dcat_access_service_pred g)) (\<lambda>t.
     rbind (expect_named_node t ''dcat:accessService'') (\<lambda>i.
     rbind (strip_prefix_decode K i (base @ ''/services/'')) (\<lambda>a.
       Inr (index, \<lparr>format = f, access_service = a\<rparr>))))))"

definition load_properties ::
    "codec \<Rightarrow> string list \<Rightarrow> string \<Rightarrow> graph_snapshot \<Rightarrow> store_error + (string, string) btree" where
  "load_properties K reserved s g =
     rbind (traverse (\<lambda>t. rbind (term_as_string (obj t)) (\<lambda>v. Inr (decode_property_key K (pred t), v)))
         (filter (\<lambda>t. \<not> List.member reserved (pred t)) (matching_quads (Some s) None None g)))
       (\<lambda>kvs. Inr (btree_of_list kvs))"

abbreviation dataset_reserved :: "string list" where
  "dataset_reserved \<equiv> [rdf_type, sequence_index_pred, dcat_distribution_pred, odrl_has_policy_pred]"

abbreviation catalog_reserved :: "string list" where
  "catalog_reserved \<equiv> [rdf_type, participant_id_pred, dcat_dataset_pred, dcat_service_pred]"

definition load_dataset ::
    "codec \<Rightarrow> string \<Rightarrow> graph_snapshot \<Rightarrow> string \<Rightarrow> store_error + nat \<times> dataset" where
  "load_dataset K base g s =
     rbind (strip_prefix_decode K s (base @ ''/datasets/'')) (\<lambda>i.
     rbind (sequence_index s g) (\<lambda>index.
     rbind (load_list (load_distribution K base g) ''a dcat:distribution reference''
         (matching_quads (Some s) (Some dcat_distribution_pred) None g)) (\<lambda>dists.
     rbind (load_list (load_policy g) ''an odrl:hasPolicy reference''
         (matching_quads (Some s) (Some odrl_has_policy_pred) None g)) (\<lambda>pols.
     rbind (load_properties K
         dataset_reserved s g) (\<lambda>props.
       Inr (index, \<lparr>dataset_id = i, ds_properties = props, distributions = dists, policies = pols\<rparr>))))))"

definition load_data_service ::
    "codec \<Rightarrow> string \<Rightarrow> graph_snapshot \<Rightarrow> string \<Rightarrow> store_error + nat \<times> data_service" where
  "load_data_service K base g s =
     rbind (strip_prefix_decode K s (base @ ''/services/'')) (\<lambda>i.
     rbind (sequence_index s g) (\<lambda>index.
     rbind (required_string s dcat_endpoint_url_pred ''dcat:endpointURL'' g) (\<lambda>u.
     rbind (optional_string s dcat_endpoint_description_pred g) (\<lambda>d.
       Inr (index, \<lparr>service_id = i, endpoint_url = u, endpoint_description = d\<rparr>)))))"

definition load_catalog :: "codec \<Rightarrow> node_id \<Rightarrow> graph_snapshot \<Rightarrow> store_error + catalog option" where
  "load_catalog K n g =
     (let base = node_base K n
      in case matching_quads None (Some rdf_type) (Some (NamedNode dcat_catalog_class)) g of
           [] \<Rightarrow> Inr None
         | first # _ \<Rightarrow>
             (case subj first of
                NamedNode s \<Rightarrow>
                  rbind (strip_prefix_decode K s (base @ ''/catalogs/'')) (\<lambda>i.
                  rbind (optional_string s participant_id_pred g) (\<lambda>pid.
                  rbind (load_properties K
                      catalog_reserved s g) (\<lambda>props.
                  rbind (load_list (load_dataset K base g) ''a dcat:dataset reference''
                      (matching_quads (Some s) (Some dcat_dataset_pred) None g)) (\<lambda>ds.
                  rbind (load_list (load_data_service K base g) ''a dcat:service reference''
                      (matching_quads (Some s) (Some dcat_service_pred) None g)) (\<lambda>ss.
                    Inr (Some \<lparr>catalog_id = i, origin_node = n, participant_id = pid, datasets = ds,
                      data_services = ss, properties = props\<rparr>))))))
              | _ \<Rightarrow> Inl CatalogSubjectNotNamed))"

section \<open>The subject index\<close>

definition index_ok :: "graph_snapshot \<Rightarrow> bool" where
  "index_ok g \<longleftrightarrow>
     (\<forall>s. filter (\<lambda>t. subj t = s) (gs_quads g)
        = map (\<lambda>i. gs_quads g ! i) (case by_subject g s of Some is \<Rightarrow> is | None \<Rightarrow> [])) \<and>
     (\<forall>s is. by_subject g s = Some is \<longrightarrow> (\<forall>i\<in>set is. i < length (gs_quads g)))"

lemma snapshot_push_index_ok: "index_ok g \<Longrightarrow> index_ok (snapshot_push t g)"
proof -
  assume ok: "index_ok g"
  have nth: "map (\<lambda>i. (gs_quads g @ [t]) ! i) is = map (\<lambda>i. gs_quads g ! i) is"
    if "by_subject g s = Some is" for s "is"
    using ok that by (auto simp: index_ok_def nth_append)
  have bound: "i < Suc (length (gs_quads g))" if "by_subject g s = Some is" "i \<in> set is" for s "is" i
    using ok that by (auto simp: index_ok_def less_SucI)
  have "filter (\<lambda>t. subj t = s) (gs_quads g)
      = map (\<lambda>i. gs_quads g ! i) (case by_subject g s of Some is \<Rightarrow> is | None \<Rightarrow> [])" for s
    using ok by (simp add: index_ok_def)
  then show ?thesis
    unfolding index_ok_def snapshot_push_def
    using nth bound nth [OF sym] bound [OF sym] by (auto split: option.splits)
qed

lemma snapshot_of_props: "gs_quads (snapshot_of ts) = ts \<and> index_ok (snapshot_of ts)"
proof -
  have "index_ok g \<Longrightarrow> gs_quads (fold snapshot_push ts g) = gs_quads g @ ts \<and> index_ok (fold snapshot_push ts g)" for g
  proof (induction ts arbitrary: g)
    case (Cons t ts)
    then show ?case
      using Cons.IH [OF snapshot_push_index_ok [OF Cons.prems, of t]] by (simp add: snapshot_push_def)
  qed simp
  moreover have "index_ok empty_snapshot" by (simp add: index_ok_def empty_snapshot_def)
  ultimately show ?thesis by (fastforce simp: snapshot_of_def empty_snapshot_def)
qed

definition matches :: "string option \<Rightarrow> string option \<Rightarrow> rdf_term option \<Rightarrow> triple \<Rightarrow> bool" where
  "matches s p v t \<longleftrightarrow>
     (case s of None \<Rightarrow> True | Some s' \<Rightarrow> subj t = NamedNode s') \<and>
     (case p of None \<Rightarrow> True | Some p' \<Rightarrow> pred t = p') \<and> (case v of None \<Rightarrow> True | Some v' \<Rightarrow> obj t = v')"

lemma matching_quads_filter: "matching_quads s p v (snapshot_of ts) = filter (matches s p v) ts"
proof (cases s)
  case None
  then show ?thesis by (simp add: matching_quads_def matches_def [abs_def] snapshot_of_props)
next
  case (Some s')
  have "(case by_subject (snapshot_of ts) (NamedNode s') of None \<Rightarrow> []
      | Some is \<Rightarrow> map (\<lambda>i. gs_quads (snapshot_of ts) ! i) is) = filter (\<lambda>t. subj t = NamedNode s') ts"
  proof (cases "by_subject (snapshot_of ts) (NamedNode s')")
    case None
    have "index_ok (snapshot_of ts)" "gs_quads (snapshot_of ts) = ts" using snapshot_of_props by auto
    then have "filter (\<lambda>t. subj t = NamedNode s') ts = map (\<lambda>i. ts ! i) []"
      using None unfolding index_ok_def by (metis option.simps(4))
    with None show ?thesis by simp
  next
    case (Some ks)
    have "index_ok (snapshot_of ts)" "gs_quads (snapshot_of ts) = ts" using snapshot_of_props by auto
    then have "filter (\<lambda>t. subj t = NamedNode s') ts = map (\<lambda>i. ts ! i) ks"
      using Some unfolding index_ok_def by (metis option.simps(5))
    with Some show ?thesis by (simp add: snapshot_of_props)
  qed
  with Some show ?thesis
    by (simp add: matching_quads_def matches_def [abs_def] conj_commute)
qed

end
