(* ===== verification/Percent_Codec.thy ===== *)
theory Percent_Codec
  imports Rdf_Terms
begin

text \<open>
  The interface \<open>iri_codec\<close> interpreted: percent-encoding as RFC 3986 defines it (every byte that is not
  unreserved becomes a percent triple) and the part of the IRI grammar the store depends on (a scheme
  and no character that an IRI never holds). It shows that the assumptions of the interface can be met
  together, and it is what the witnesses evaluate.
\<close>

definition hex :: "nat \<Rightarrow> char" where
  "hex n = ''0123456789ABCDEF'' ! n"

definition hex_val :: "char \<Rightarrow> nat" where
  "hex_val c = (let n = of_char c :: nat in if n < 58 then n - 48 else n - 55)"

fun pct_encode :: "string \<Rightarrow> string" where
  "pct_encode [] = []"
| "pct_encode (c # cs) =
     (if unreserved c then c # pct_encode cs
      else CHR ''%'' # hex (of_char c div 16) # hex (of_char c mod 16) # pct_encode cs)"

fun pct_decode :: "string \<Rightarrow> string option" where
  "pct_decode [] = Some []"
| "pct_decode (c # cs) =
     (case cs of
        a # b # r \<Rightarrow>
          if c = CHR ''%'' \<and> hex_digit a \<and> hex_digit b
          then map_option ((#) (char_of (16 * hex_val a + hex_val b))) (pct_decode r)
          else map_option ((#) c) (pct_decode cs)
      | _ \<Rightarrow> map_option ((#) c) (pct_decode cs))"

definition iri_char :: "char \<Rightarrow> bool" where
  "iri_char c = (let n = of_char c :: nat in 33 \<le> n \<and> n \<noteq> 127 \<and> c \<notin> set ''<>{}|^`'' \<and> n \<noteq> 34 \<and> n \<noteq> 92)"

definition rfc_iri :: "string \<Rightarrow> bool" where
  "rfc_iri s =
     (case split_once CHR '':'' s of
        None \<Rightarrow> False
      | Some (scheme, rest) \<Rightarrow>
          scheme \<noteq> [] \<and> list_all (\<lambda>c. unreserved c \<or> c = CHR ''+'') scheme \<and>
          \<not> list_all is_digit (take 1 scheme) \<and> list_all iri_char rest)"

definition percent_codec :: codec where
  "percent_codec = \<lparr>url_encode = pct_encode, url_decode = pct_decode, iri_valid = rfc_iri\<rparr>"

lemma percent_codec_simps [simp]:
  "url_encode percent_codec = pct_encode" "url_decode percent_codec = pct_decode"
  "iri_valid percent_codec = rfc_iri"
  by (simp_all add: percent_codec_def)

lemma hex_table: "list_all (\<lambda>n. hex_digit (hex n) \<and> hex_val (hex n) = n \<and> hex n \<noteq> CHR ''%'') [0..<16]"
  by code_simp

lemma hex_props: "n < 16 \<Longrightarrow> hex_digit (hex n) \<and> hex_val (hex n) = n \<and> hex n \<noteq> CHR ''%''"
  using hex_table by (auto simp: list_all_iff)

lemma percent_not_unreserved: "\<not> unreserved CHR ''%''"
  by (simp add: unreserved_def)

lemma pct_decode_plain: "c \<noteq> CHR ''%'' \<Longrightarrow> pct_decode (c # cs) = map_option ((#) c) (pct_decode cs)"
  by (simp split: list.splits)

lemma pct_decode_encode: "pct_decode (pct_encode s) = Some s"
proof (induction s)
  case (Cons c cs)
  show ?case
  proof (cases "unreserved c")
    case True
    then have "c \<noteq> CHR ''%''" using percent_not_unreserved by auto
    then show ?thesis using True Cons pct_decode_plain by simp
  next
    case False
    have "char_of (16 * ((of_char c :: nat) div 16) + of_char c mod 16) = c"
      by simp
    then show ?thesis
      using False Cons hex_props [of "of_char c div 16"] hex_props [of "of_char c mod 16"] byte_nibbles [of c]
      by simp
  qed
qed simp

lemma pct_text_encode: "pct_text {} (pct_encode s)"
proof (induction s)
  case (Cons c cs)
  then show ?case
    using hex_props [of "of_char c div 16"] hex_props [of "of_char c mod 16"] byte_nibbles [of c]
      percent_not_unreserved by auto
qed simp

lemma hex_digit_iri_char: "hex_digit c \<Longrightarrow> iri_char c"
  by (auto simp: hex_digit_def iri_char_def Let_def)

lemma unreserved_iri_char: "unreserved c \<Longrightarrow> iri_char c"
  by (auto simp: unreserved_def iri_char_def Let_def)

lemma pct_text_iri_chars: "pct_text S s \<Longrightarrow> \<forall>c\<in>S. iri_char c \<Longrightarrow> list_all iri_char s"
proof (induction S s rule: pct_text.induct)
  case (2 S c cs)
  then show ?case
    using hex_digit_iri_char unreserved_iri_char
    by (auto simp: iri_char_def split: if_splits list.splits)
qed simp

lemma rfc_iri_https: "list_all iri_char s \<Longrightarrow> rfc_iri (''https:'' @ s)"
  by (simp add: rfc_iri_def unreserved_def is_digit_def)

lemma rfc_iri_http: "list_all iri_char s \<Longrightarrow> rfc_iri (''http:'' @ s)"
  by (simp add: rfc_iri_def unreserved_def is_digit_def)

lemma internal_chars:
  "list_all iri_char ''//federated-catalog-rs.internal/nodes/''"
  "list_all iri_char ''//federated-catalog-rs.internal/ns#property/''"
  by (simp_all add: iri_char_def)

lemma vocabulary_http: "s \<in> set VOCABULARY \<Longrightarrow> rfc_iri s"
  by (auto simp: VOCABULARY_def dcat_def dct_def internal_def odrl_def rdf_type_def DCAT_NS_def DCT_NS_def
      INTERNAL_NS_def ODRL_NS_def RDF_TYPE_IRI_def rfc_iri_def unreserved_def is_digit_def iri_char_def)

interpretation percent: iri_codec percent_codec
proof
  fix s
  show "url_decode percent_codec (url_encode percent_codec s) = Some s"
    by (simp add: pct_decode_encode)
  show "pct_text {} (url_encode percent_codec s)"
    by (simp add: pct_text_encode)
  show "iri_valid percent_codec (NODE_NS @ s)" if "pct_text {CHR ''/''} s"
    using rfc_iri_https [of "''//federated-catalog-rs.internal/nodes/'' @ s"] internal_chars(1)
      pct_text_iri_chars [OF that] by (simp add: NODE_NS_def iri_char_def)
  show "iri_valid percent_codec (INTERNAL_PROPERTY_PREFIX @ s)" if "pct_text {} s"
    using rfc_iri_https [of "''//federated-catalog-rs.internal/ns#property/'' @ s"] internal_chars(2)
      pct_text_iri_chars [OF that] by (simp add: INTERNAL_PROPERTY_PREFIX_def)
  show "iri_valid percent_codec s" if "s \<in> set VOCABULARY"
    using vocabulary_http that by simp
  show "CHR '':'' \<in> set s" if "iri_valid percent_codec s"
    using that split_once_None_iff [of "CHR '':''" s] by (auto simp: rfc_iri_def split: option.splits)
qed

end
