(* ===== verification/Rdf_Roundtrip.thy ===== *)
theory Rdf_Roundtrip
  imports Rdf_Read Percent_Codec
begin

text \<open>
  Writing a catalog and reading it back. The triples of a resource and of everything minted below it are
  decided by the snapshot's triples with a subject under that resource, so each reader is proved correct for any
  snapshot that agrees with what was written under its own resource; the readers compose along the
  IRI tree.
\<close>

section \<open>Agreement\<close>

definition subject_under :: "string \<Rightarrow> triple \<Rightarrow> bool" where
  "subject_under s t \<longleftrightarrow> (\<exists>x. subj t = NamedNode x \<and> under s x)"

definition agrees :: "triple list \<Rightarrow> string \<Rightarrow> triple list \<Rightarrow> bool" where
  "agrees ts s T \<longleftrightarrow> distinct ts \<and> (\<forall>t. subject_under s t \<longrightarrow> (t \<in> set ts \<longleftrightarrow> t \<in> set T))"

lemma subject_under_tr [simp]: "subject_under s (tr x p v) \<longleftrightarrow> under s x"
  by (simp add: subject_under_def tr_def)

lemma tr_eq [simp]: "tr s p v = tr s' p' v' \<longleftrightarrow> s = s' \<and> p = p' \<and> v = v'"
  by (auto simp: tr_def)

lemma matches_tr [simp]:
  "matches (Some s) (Some p) None (tr s' p' v) \<longleftrightarrow> s = s' \<and> p = p'"
  "matches (Some s) None None (tr s' p' v) \<longleftrightarrow> s = s'"
  by (auto simp: matches_def tr_def)

lemma matches_iff: "matches (Some s) (Some p) None t \<longleftrightarrow> (\<exists>v. t = tr s p v)"
  by (cases t) (auto simp: matches_def tr_def)

lemma obj_tr [simp]: "obj (tr s p v) = v" "pred (tr s p v) = p" "subj (tr s p v) = NamedNode s"
  by (simp_all add: tr_def)

lemma agrees_child:
  assumes "agrees ts s T" "under s c" "\<And>t. subject_under c t \<Longrightarrow> t \<in> set T \<longleftrightarrow> t \<in> set T'"
  shows "agrees ts c T'"
  using assms under_trans unfolding agrees_def subject_under_def by blast

definition links :: "string \<Rightarrow> string \<Rightarrow> triple list \<Rightarrow> triple list" where
  "links s p ts = matching_quads (Some s) (Some p) None (snapshot_of ts)"

lemma links_agree:
  assumes "agrees ts s T"
  shows "distinct (links s p ts)" "set (links s p ts) = {t \<in> set T. \<exists>v. t = tr s p v}"
  using assms by (auto simp: links_def matching_quads_filter matches_iff agrees_def subject_under_def under_def)

text \<open>A value that occurs once is found; one that does not occur is absent.\<close>

lemma first_object_unique:
  assumes "agrees ts s T" "\<And>v. tr s p v \<in> set T \<longleftrightarrow> v = w"
  shows "first_object s p (snapshot_of ts) = Some w"
proof -
  have "set (links s p ts) = {tr s p w}" using links_agree [OF assms(1), of p] assms(2) by auto
  then have "\<exists>t rest. links s p ts = t # rest \<and> t = tr s p w"
    by (cases "links s p ts") auto
  then show ?thesis by (auto simp: first_object_def links_def)
qed

lemma first_object_absent:
  assumes "agrees ts s T" "\<And>v. tr s p v \<notin> set T"
  shows "first_object s p (snapshot_of ts) = None"
proof -
  have "set (links s p ts) = {}" using links_agree [OF assms(1), of p] assms(2) by auto
  then show ?thesis by (simp add: first_object_def links_def)
qed

lemma sequence_index_ok:
  assumes "agrees ts s T" "\<And>v. tr s sequence_index_pred v \<in> set T \<longleftrightarrow> v = index_literal n" "n < 2 ^ 63"
  shows "sequence_index s (snapshot_of ts) = Inr n"
  using first_object_unique [OF assms(1,2)] assms(3)
  by (simp add: sequence_index_def index_literal_eq parse_show_nat)

lemma optional_string_ok:
  assumes "agrees ts s T" "\<And>v. tr s p v \<in> set T \<longleftrightarrow> tr s p v \<in> set (opt_triple s p f x)"
    "\<And>y. term_as_string (f y) = Inr y"
  shows "optional_string s p (snapshot_of ts) = Inr x"
proof (cases x)
  case None
  then show ?thesis
    using first_object_absent [OF assms(1), of p] assms(2) by (simp add: optional_string_def opt_triple_def)
next
  case (Some y)
  then have "first_object s p (snapshot_of ts) = Some (f y)"
    using assms(2) by (intro first_object_unique [OF assms(1)]) (auto simp: opt_triple_def)
  with Some assms(3) show ?thesis by (simp add: optional_string_def)
qed

lemma required_string_ok:
  assumes "agrees ts s T" "\<And>v. tr s p v \<in> set T \<longleftrightarrow> v = w" "term_as_string w = Inr y"
  shows "required_string s p what (snapshot_of ts) = Inr y"
  using first_object_unique [OF assms(1,2)] assms(3) by (simp add: required_string_def optional_string_def)

section \<open>Lists of resources\<close>

lemma load_list_ok:
  assumes "distinct qs" "set qs = (\<lambda>i. tr s p (NamedNode (child i))) ` {..<length xs}"
    "\<And>i. i < length xs \<Longrightarrow> load (child i) = Inr (i, xs ! i)"
  shows "load_list load context qs = Inr xs"
proof -
  define entry where "entry t = projr (rbind (expect_named_node (obj t) context) load)" for t :: triple
  have entry: "\<exists>i<length xs. t = tr s p (NamedNode (child i)) \<and>
      rbind (expect_named_node (obj t) context) load = Inr (entry t) \<and> entry t = (i, xs ! i)"
    if t: "t \<in> set qs" for t
  proof -
    obtain i where "i < length xs" "t = tr s p (NamedNode (child i))" using t assms(2) by auto
    then show ?thesis using assms(3) by (auto simp: entry_def)
  qed
  have tr: "traverse (\<lambda>t. rbind (expect_named_node (obj t) context) load) qs = Inr (map entry qs)"
    using entry by (intro traverse_all_Inr) blast
  have "inj_on entry (set qs)"
    using entry by (intro inj_onI) (metis prod.inject)
  then have dist: "distinct (map entry qs)" using assms(1) by (simp add: distinct_map)
  have "set (map entry qs) = set (List.enumerate 0 xs)"
  proof
    show "set (map entry qs) \<subseteq> set (List.enumerate 0 xs)"
      using entry by (auto simp: in_enumerate) (metis in_enumerate)
    show "set (List.enumerate 0 xs) \<subseteq> set (map entry qs)"
    proof
      fix e assume "e \<in> set (List.enumerate 0 xs)"
      then obtain i where i: "i < length xs" "e = (i, xs ! i)" by (metis in_enumerate surj_pair)
      then have "tr s p (NamedNode (child i)) \<in> set qs" using assms(2) by auto
      moreover from entry [OF this] obtain k where "k < length xs"
        "rbind (expect_named_node (NamedNode (child i)) context) load = Inr (entry (tr s p (NamedNode (child i))))"
        by auto
      then have "entry (tr s p (NamedNode (child i))) = e" using assms(3) [OF i(1)] i(2) by simp
      ultimately show "e \<in> set (map entry qs)" by force
    qed
  qed
  then have "sort_key fst (map entry qs) = List.enumerate 0 xs"
    using dist by (intro sort_key_recovers) simp_all
  then show ?thesis using tr by (simp add: load_list_def)
qed

text \<open>
  The links of a resource to its list, and the triples below one child, when the list was written by
  \<open>indexed\<close> with one link in front of each child's own triples.
\<close>

lemma load_indexed:
  assumes ag: "agrees ts s T"
    and own: "\<And>v. tr s p v \<in> set T \<longleftrightarrow> (\<exists>i<length xs. v = NamedNode (child i))"
    and ok: "\<And>i. i < length xs \<Longrightarrow> load (child i) = Inr (i, xs ! i)"
  shows "load_list load context (matching_quads (Some s) (Some p) None (snapshot_of ts)) = Inr xs"
proof -
  have "set (links s p ts) = (\<lambda>i. tr s p (NamedNode (child i))) ` {..<length xs}"
    using links_agree(2) [OF ag, of p] own by auto
  then show ?thesis
    using load_list_ok [of "links s p ts" s p child xs] links_agree(1) [OF ag] ok by (simp add: links_def)
qed

lemma indexed_below:
  assumes "i < length xs"
    and scope: "\<And>j t. j < length xs \<Longrightarrow> t \<in> set (f j (xs ! j)) \<Longrightarrow> subject_under (child j) t"
    and apart: "\<And>j x. j < length xs \<Longrightarrow> under (child i) x \<Longrightarrow> under (child j) x \<Longrightarrow> i = j"
    and up: "\<not> under (child i) s" and t: "subject_under (child i) t"
  shows "t \<in> set (indexed (\<lambda>j x. tr s p (h j x) # f j x) xs) \<longleftrightarrow> t \<in> set (f i (xs ! i))"
proof -
  have "t \<noteq> tr s p v" for v
    using up t by auto
  then have "t \<in> set (indexed (\<lambda>j x. tr s p (h j x) # f j x) xs) \<longleftrightarrow> (\<exists>j<length xs. t \<in> set (f j (xs ! j)))"
    by (simp add: in_indexed)
  also have "\<dots> \<longleftrightarrow> t \<in> set (f i (xs ! i))"
    using assms(1) scope apart t unfolding subject_under_def by (metis rdf_term.inject(1))
  finally show ?thesis .
qed

lemma indexed_own:
  assumes "\<And>j t. j < length xs \<Longrightarrow> t \<in> set (f j (xs ! j)) \<Longrightarrow> subject_under (child j) t"
    and "\<And>j. j < length xs \<Longrightarrow> \<not> under (child j) s"
  shows "tr s q v \<in> set (indexed (\<lambda>j x. tr s p (h j x) # f j x) xs) \<longleftrightarrow>
    q = p \<and> (\<exists>j<length xs. v = h j (xs ! j))"
proof -
  have "tr s q v \<notin> set (f j (xs ! j))" if "j < length xs" for j
    using assms(1) [OF that, of "tr s q v"] assms(2) [OF that] by auto
  then show ?thesis by (auto simp: in_indexed)
qed

lemma segment_apart:
  "under (r @ ''/'' @ show_nat i) x \<Longrightarrow> under (r @ ''/'' @ show_nat j) x \<Longrightarrow> i = j"
  using under_segment [of r "show_nat i" x "show_nat j"] by simp

lemma constraint_iri_apart: "under (constraint_iri r i) x \<Longrightarrow> under (constraint_iri r j) x \<Longrightarrow> i = j"
  using segment_apart [of "r @ ''/constraints''" i x j] by (simp add: constraint_iri_def)

lemma constraint_iri_under: "under r (constraint_iri r i)" "\<not> under (constraint_iri r i) r"
  using not_under_parent [of r "''constraints/'' @ show_nat i"]
  by (simp_all add: constraint_iri_def under_def prefix_def)

section \<open>Constraints\<close>

text \<open>Rust vectors hold at most \<open>isize::MAX\<close> elements, so a position fits an \<open>i64\<close>.\<close>

definition vec_len :: "'a list \<Rightarrow> bool" where
  "vec_len xs \<longleftrightarrow> length xs < 2 ^ 63"

function constraint_vecs :: "constraint \<Rightarrow> bool" where
  "constraint_vecs (Atomic a) = True"
| "constraint_vecs (Logical l) = (vec_len (children l) \<and> (\<forall>c\<in>set (children l). constraint_vecs c))"
  by pat_completeness auto

termination
  by (relation "measure size") (use children_size in auto)

lemma constraint_triples_under: "t \<in> set (constraint_triples K c n i) \<Longrightarrow> subject_under n t"
proof (induction c arbitrary: n i t rule: constraint_induct)
  case (Logical l)
  have "subject_under n t" if "subject_under (constraint_iri n j) t" for j
    using that under_trans constraint_iri_under(1) unfolding subject_under_def by blast
  moreover have "subject_under (constraint_iri n j) t"
    if "j < length (children l)" "t \<in> set (constraint_triples K (children l ! j) (constraint_iri n j) j)" for j
    using Logical.IH [OF nth_mem] that by blast
  ultimately show ?case using Logical.prems by (auto simp: in_indexed)
qed auto

lemma group_rebuild:
  "(build, links') = (case l of And cs \<Rightarrow> (and_of, ls) | Or cs \<Rightarrow> (or_of, ls) | Xone cs \<Rightarrow> (xone_of, ls)
     | AndSequence cs \<Rightarrow> (and_sequence_of, ls)) \<Longrightarrow> build (children l) = Logical l \<and> links' = ls"
  by (cases l) (auto simp: and_of_def or_of_def xone_of_def and_sequence_of_def)

lemma choose_group_marker:
  assumes "\<And>q. q \<noteq> group_pred l \<Longrightarrow> q \<in> fst ` set logical_constraint_preds \<Longrightarrow>
      matching_quads (Some s) (Some q) None g = []"
  shows "\<exists>build. choose_group g s (Some (NamedNode (group_pred l))) logical_constraint_preds None
      = Inr (Some (build, matching_quads (Some s) (Some (group_pred l)) None g)) \<and>
    build (children l) = Logical l"
  using assms
  by (cases l) (simp_all add: logical_constraint_preds_def LOGICAL_CONSTRAINT_BUILDERS_def Let_def
      and_of_def or_of_def xone_of_def and_sequence_of_def)

lemma group_pred_neq [simp]:
  "group_pred l \<noteq> internal x" "group_pred l \<noteq> odrl ''leftOperand''" "internal x \<noteq> group_pred l"
  "odrl ''leftOperand'' \<noteq> group_pred l"
  by (cases l; simp)+

lemma load_constraint_ok:
  "agrees ts n (constraint_triples K c n index) \<Longrightarrow> depth + height c \<le> MAX_CONSTRAINT_DEPTH \<Longrightarrow>
   index < 2 ^ 63 \<Longrightarrow> constraint_vecs c \<Longrightarrow>
   load_constraint n (snapshot_of ts) depth = Inr (index, c)"
proof (induction c arbitrary: n index depth rule: constraint_induct)
  case (Atomic a)
  note ag = Atomic.prems(1)
  have "sequence_index n (snapshot_of ts) = Inr index"
    using Atomic.prems by (intro sequence_index_ok [OF ag]) auto
  moreover have "first_object n odrl_left_operand_pred (snapshot_of ts)
      = Some (iri_or_literal_term K (left_operand a))"
    by (intro first_object_unique [OF ag]) auto
  moreover have "required_string n odrl_operator_pred w (snapshot_of ts) = Inr (operator a)"
    "required_string n odrl_right_operand_pred w (snapshot_of ts) = Inr (right_operand a)" for w
    by (rule required_string_ok [OF ag], auto)+
  ultimately show ?case
    using Atomic.prems(2) by (subst load_constraint.simps) (simp add: atomic_def)
next
  case (Logical l)
  note ag = Logical.prems(1)
  let ?child = "constraint_iri n" and ?g = "snapshot_of ts"
  let ?kids = "indexed (\<lambda>i c. tr n (group_pred l) (NamedNode (?child i)) # constraint_triples K c (?child i) i)
    (children l)"
  have own: "tr n q v \<in> set ?kids \<longleftrightarrow> q = group_pred l \<and> (\<exists>i<length (children l). v = NamedNode (?child i))" for q v
    by (rule indexed_own [where child = ?child])
      (auto simp: constraint_iri_under dest: constraint_triples_under)
  have depth: "depth < MAX_CONSTRAINT_DEPTH" if "children l \<noteq> []"
    using Logical.prems(2) that height_Logical_le_0 [of l] by (cases "height (Logical l)") auto
  have idx: "sequence_index n ?g = Inr index"
    using Logical.prems own by (intro sequence_index_ok [OF ag]) auto
  have left: "first_object n odrl_left_operand_pred ?g = None"
    using own by (intro first_object_absent [OF ag]) auto
  have marker: "first_object n logical_operator_pred ?g = Some (NamedNode (group_pred l))"
    using own by (intro first_object_unique [OF ag]) auto
  have "matching_quads (Some n) (Some q) None ?g = []"
    if "q \<noteq> group_pred l" "q \<in> fst ` set logical_constraint_preds" for q
  proof -
    have "\<exists>x. q = odrl x" using that(2) by (auto simp: logical_constraint_preds_def)
    then have "set (links n q ts) = {}" using that(1) own links_agree(2) [OF ag, of q] by auto
    then show ?thesis by (simp add: links_def)
  qed
  from choose_group_marker [OF this] obtain build where
    build: "choose_group ?g n (Some (NamedNode (group_pred l))) logical_constraint_preds None
      = Inr (Some (build, matching_quads (Some n) (Some (group_pred l)) None ?g))"
    "build (children l) = Logical l" by blast
  have kids: "load_constraint (?child i) ?g (depth + 1) = Inr (i, children l ! i)" if i: "i < length (children l)" for i
  proof (rule Logical.IH)
    show "children l ! i \<in> set (children l)" using i by simp
    show "agrees ts (?child i) (constraint_triples K (children l ! i) (?child i) i)"
    proof (rule agrees_child [OF ag constraint_iri_under(1)])
      fix t assume t: "subject_under (?child i) t"
      then have "t \<in> set ?kids \<longleftrightarrow> t \<in> set (constraint_triples K (children l ! i) (?child i) i)"
        by (intro indexed_below [OF i, where child = ?child])
          (auto simp: constraint_iri_under dest: constraint_triples_under constraint_iri_apart)
      moreover have "t \<noteq> tr n p v" for p v
        using t constraint_iri_under(2) by auto
      ultimately show "t \<in> set (constraint_triples K (Logical l) n index) \<longleftrightarrow>
          t \<in> set (constraint_triples K (children l ! i) (?child i) i)" by simp
    qed
    show "depth + 1 + height (children l ! i) \<le> MAX_CONSTRAINT_DEPTH"
      using height_child [OF nth_mem [OF i]] Logical.prems(2) by simp
    show "i < 2 ^ 63" "constraint_vecs (children l ! i)"
      using Logical.prems(4) i by (simp_all add: vec_len_def)
  qed
  have "load_list (\<lambda>child. load_constraint child ?g (depth + 1)) w
      (matching_quads (Some n) (Some (group_pred l)) None ?g) = Inr (children l)" for w
    using own kids by (intro load_indexed [OF ag, where child = ?child]) auto
  then show ?case
    using Logical.prems(2) idx left marker build by (subst load_constraint.simps) (simp add: Let_def)
qed

section \<open>Rules and policies\<close>

definition rule_vecs :: "rule \<Rightarrow> bool" where
  "rule_vecs r \<longleftrightarrow> vec_len (constraints r) \<and> (\<forall>c\<in>set (constraints r). constraint_vecs c)"

definition policy_vecs :: "policy \<Rightarrow> bool" where
  "policy_vecs p \<longleftrightarrow> vec_len (permissions p) \<and> vec_len (prohibitions p) \<and> vec_len (obligations p) \<and>
     (\<forall>r\<in>set (policy_rules p). rule_vecs r)"

lemma rule_triples_under: "t \<in> set (rule_triples K r n i) \<Longrightarrow> subject_under n t"
proof -
  have "subject_under n t" if "subject_under (constraint_iri n j) t" for j t
    using that under_trans constraint_iri_under(1) unfolding subject_under_def by blast
  then show "t \<in> set (rule_triples K r n i) \<Longrightarrow> subject_under n t"
    by (auto simp: rule_triples_def in_indexed dest: constraint_triples_under)
qed

lemma load_rule_ok:
  assumes ag: "agrees ts n (rule_triples K r n index)" and "rule_depth_ok r" "index < 2 ^ 63" "rule_vecs r"
  shows "load_rule (snapshot_of ts) n = Inr (index, r)"
proof -
  let ?child = "constraint_iri n" and ?g = "snapshot_of ts"
  let ?kids = "indexed (\<lambda>i c. tr n odrl_constraint_pred (NamedNode (?child i)) # constraint_triples K c (?child i) i)
    (constraints r)"
  have own: "tr n q v \<in> set ?kids \<longleftrightarrow>
      q = odrl_constraint_pred \<and> (\<exists>i<length (constraints r). v = NamedNode (?child i))" for q v
    by (rule indexed_own [where child = ?child])
      (auto simp: constraint_iri_under dest: constraint_triples_under)
  have "load_constraint (?child i) ?g 0 = Inr (i, constraints r ! i)" if i: "i < length (constraints r)" for i
  proof (rule load_constraint_ok)
    show "agrees ts (?child i) (constraint_triples K (constraints r ! i) (?child i) i)"
    proof (rule agrees_child [OF ag constraint_iri_under(1)])
      fix t assume t: "subject_under (?child i) t"
      then have "t \<in> set ?kids \<longleftrightarrow> t \<in> set (constraint_triples K (constraints r ! i) (?child i) i)"
        by (intro indexed_below [OF i, where child = ?child])
          (auto simp: constraint_iri_under dest: constraint_triples_under constraint_iri_apart)
      moreover have "t \<noteq> tr n p v" for p v
        using t constraint_iri_under(2) by auto
      ultimately show "t \<in> set (rule_triples K r n index) \<longleftrightarrow>
          t \<in> set (constraint_triples K (constraints r ! i) (?child i) i)"
        by (simp add: rule_triples_def)
    qed
    show "0 + height (constraints r ! i) \<le> MAX_CONSTRAINT_DEPTH" "i < 2 ^ 63"
      "constraint_vecs (constraints r ! i)"
      using assms i by (simp_all add: rule_depth_ok_def rule_vecs_def vec_len_def)
  qed
  then have "load_list (\<lambda>c. load_constraint c ?g 0) w (matching_quads (Some n) (Some odrl_constraint_pred) None ?g)
      = Inr (constraints r)" for w
    using own by (intro load_indexed [OF ag, where child = ?child]) (auto simp: rule_triples_def)
  moreover have "sequence_index n ?g = Inr index"
    using own assms(3) by (intro sequence_index_ok [OF ag]) (auto simp: rule_triples_def)
  moreover have "required_string n odrl_action_pred w ?g = Inr (action r)" for w
    using own by (intro required_string_ok [OF ag, where w = "iri_or_literal_term K (action r)"])
      (auto simp: rule_triples_def)
  ultimately show ?thesis by (simp add: load_rule_def)
qed

lemma rule_iri_under: "under n (rule_iri n seg i)" "\<not> under (rule_iri n seg i) n"
  using not_under_parent [of n "seg @ ''/'' @ show_nat i"]
  by (simp_all add: rule_iri_def under_def prefix_def)

lemma rule_iri_apart:
  assumes "under (rule_iri n seg i) x" "under (rule_iri n seg' j) x"
    "CHR ''/'' \<notin> set seg" "CHR ''/'' \<notin> set seg'"
  shows "seg = seg' \<and> i = j"
proof -
  have "seg = seg'"
    using assms under_segment [of n seg x seg'] under_extend [of "n @ ''/'' @ seg" "show_nat i" x]
      under_extend [of "n @ ''/'' @ seg'" "show_nat j" x] by (simp add: rule_iri_def)
  then show ?thesis
    using assms(1,2) segment_apart [of "n @ ''/'' @ seg" i x j] by (simp add: rule_iri_def)
qed

lemma rules_triples_own:
  "tr n q v \<in> set (rules_triples K rs n p seg) \<longleftrightarrow>
     q = p \<and> (\<exists>i<length rs. v = NamedNode (rule_iri n seg i))"
  unfolding rules_triples_def
  by (rule indexed_own [where child = "rule_iri n seg"])
    (auto simp: rule_iri_under dest: rule_triples_under)

lemma rules_triples_below:
  assumes "subject_under (rule_iri n seg i) t" "CHR ''/'' \<notin> set seg" "CHR ''/'' \<notin> set seg'"
    "seg = seg' \<Longrightarrow> i < length rs"
  shows "t \<in> set (rules_triples K rs n p seg') \<longleftrightarrow>
    seg = seg' \<and> t \<in> set (rule_triples K (rs ! i) (rule_iri n seg i) i)"
proof (cases "seg = seg'")
  case True
  then show ?thesis
    unfolding rules_triples_def
    using assms indexed_below [where child = "rule_iri n seg'" and i = i and xs = rs and s = n and p = p
        and h = "\<lambda>i r. NamedNode (rule_iri n seg' i)" and f = "\<lambda>i r. rule_triples K r (rule_iri n seg' i) i"
        and t = t]
    by (auto simp: rule_iri_under dest: rule_triples_under rule_iri_apart)
next
  case False
  have "t \<noteq> tr n q v" for q v using assms(1) rule_iri_under(2) by auto
  moreover have "\<not> subject_under (rule_iri n seg' j) t" for j
    using False assms rule_iri_apart unfolding subject_under_def by (metis rdf_term.inject(1))
  ultimately show ?thesis
    using False by (auto simp: rules_triples_def in_indexed dest: rule_triples_under)
qed

lemma opt_triple_tr [simp]: "tr n q v \<in> set (opt_triple s p f x) \<longleftrightarrow> n = s \<and> q = p \<and> (\<exists>y. x = Some y \<and> v = f y)"
  by (auto simp: opt_triple_def split: option.splits)

lemma policy_triples_own:
  "tr n q v \<in> set (policy_triples K p n index) \<longleftrightarrow>
     q = rdf_type \<and> v = NamedNode (odrl_policy_class (kind p)) \<or>
     q = sequence_index_pred \<and> v = index_literal index \<or>
     q = policy_id_pred \<and> (\<exists>y. policy_id p = Some y \<and> v = string_literal y) \<or>
     q = odrl_assigner_pred \<and> (\<exists>y. assigner p = Some y \<and> v = iri_or_literal_term K y) \<or>
     q = odrl_assignee_pred \<and> (\<exists>y. assignee p = Some y \<and> v = iri_or_literal_term K y) \<or>
     q = odrl_permission_pred \<and> (\<exists>i<length (permissions p). v = NamedNode (rule_iri n ''permissions'' i)) \<or>
     q = odrl_prohibition_pred \<and> (\<exists>i<length (prohibitions p). v = NamedNode (rule_iri n ''prohibitions'' i)) \<or>
     q = odrl_obligation_pred \<and> (\<exists>i<length (obligations p). v = NamedNode (rule_iri n ''obligations'' i))"
  by (simp add: policy_triples_def rules_triples_own)

lemma policy_triples_below:
  assumes "subject_under (rule_iri n seg i) t"
  shows "t \<in> set (policy_triples K p n index) \<longleftrightarrow>
    t \<in> set (rules_triples K (permissions p) n odrl_permission_pred ''permissions'') \<or>
    t \<in> set (rules_triples K (prohibitions p) n odrl_prohibition_pred ''prohibitions'') \<or>
    t \<in> set (rules_triples K (obligations p) n odrl_obligation_pred ''obligations'')"
proof -
  have "t \<noteq> tr n q v" for q v using assms rule_iri_under(2) by auto
  then have "t \<notin> set (opt_triple n q f x)" for q x and f :: "string \<Rightarrow> rdf_term"
    by (auto simp: opt_triple_def split: option.splits)
  then show ?thesis
    using \<open>\<And>q v. t \<noteq> tr n q v\<close> by (simp add: policy_triples_def)
qed

lemma load_rules_ok:
  assumes ag: "agrees ts n T"
    and own: "\<And>v. tr n p v \<in> set T \<longleftrightarrow> (\<exists>i<length rs. v = NamedNode (rule_iri n seg i))"
    and below: "\<And>i t. i < length rs \<Longrightarrow> subject_under (rule_iri n seg i) t \<Longrightarrow>
      t \<in> set T \<longleftrightarrow> t \<in> set (rule_triples K (rs ! i) (rule_iri n seg i) i)"
    and "\<And>r. r \<in> set rs \<Longrightarrow> rule_depth_ok r \<and> rule_vecs r" "vec_len rs"
  shows "load_rules (snapshot_of ts) n p = Inr rs"
  unfolding load_rules_def
proof (rule load_indexed [OF ag own])
  fix i assume i: "i < length rs"
  show "load_rule (snapshot_of ts) (rule_iri n seg i) = Inr (i, rs ! i)"
    using i assms(4,5)
    by (intro load_rule_ok [OF agrees_child [OF ag rule_iri_under(1) below [OF i]]])
      (simp_all add: vec_len_def)
qed

lemma load_policy_ok:
  assumes ag: "agrees ts n (policy_triples K p n index)" and "policy_depth_ok p" "policy_vecs p" "index < 2 ^ 63"
  shows "load_policy (snapshot_of ts) n = Inr (index, p)"
proof -
  let ?g = "snapshot_of ts"
  note own = policy_triples_own [of n _ _ K p index]
  have rule_ok: "rule_depth_ok r \<and> rule_vecs r" if "r \<in> set (policy_rules p)" for r
    using that assms(2,3) by (simp add: policy_depth_ok_def policy_vecs_def)
  have idx: "sequence_index n ?g = Inr index"
    using assms(4) by (intro sequence_index_ok [OF ag]) (simp_all add: own)
  have ty: "first_object n rdf_type ?g = Some (NamedNode (odrl_policy_class (kind p)))"
    by (intro first_object_unique [OF ag]) (simp add: own)
  have strings: "optional_string n policy_id_pred ?g = Inr (policy_id p)"
    "optional_string n odrl_assigner_pred ?g = Inr (assigner p)"
    "optional_string n odrl_assignee_pred ?g = Inr (assignee p)"
    by (rule optional_string_ok [OF ag, where f = string_literal], simp_all add: own)
      (rule optional_string_ok [OF ag, where f = "iri_or_literal_term K"], simp_all add: own)+
  have below: "t \<in> set (policy_triples K p n index) \<longleftrightarrow>
      seg = ''permissions'' \<and> t \<in> set (rule_triples K (permissions p ! i) (rule_iri n seg i) i) \<or>
      seg = ''prohibitions'' \<and> t \<in> set (rule_triples K (prohibitions p ! i) (rule_iri n seg i) i) \<or>
      seg = ''obligations'' \<and> t \<in> set (rule_triples K (obligations p ! i) (rule_iri n seg i) i)"
    if "subject_under (rule_iri n seg i) t" "CHR ''/'' \<notin> set seg"
      "seg = ''permissions'' \<Longrightarrow> i < length (permissions p)"
      "seg = ''prohibitions'' \<Longrightarrow> i < length (prohibitions p)"
      "seg = ''obligations'' \<Longrightarrow> i < length (obligations p)" for seg i t
    using that rules_triples_below [OF that(1,2)] by (simp add: policy_triples_below [OF that(1)])
  have "load_rules ?g n odrl_permission_pred = Inr (permissions p)"
    using rule_ok assms(3) below [of "''permissions''"]
    by (intro load_rules_ok [OF ag, where K = K and seg = "''permissions''"])
      (simp_all add: own policy_vecs_def policy_rules_def)
  moreover have "load_rules ?g n odrl_prohibition_pred = Inr (prohibitions p)"
    using rule_ok assms(3) below [of "''prohibitions''"]
    by (intro load_rules_ok [OF ag, where K = K and seg = "''prohibitions''"])
      (simp_all add: own policy_vecs_def policy_rules_def)
  moreover have "load_rules ?g n odrl_obligation_pred = Inr (obligations p)"
    using rule_ok assms(3) below [of "''obligations''"]
    by (intro load_rules_ok [OF ag, where K = K and seg = "''obligations''"])
      (simp_all add: own policy_vecs_def policy_rules_def)
  ultimately show ?thesis
    using idx ty strings by (simp add: load_policy_def)
qed

section \<open>Properties\<close>

text \<open>
  The keys a property map may hold: one that is an IRI must not be a structural predicate of the resource, nor
  lie in the namespace the store uses for keys that are not IRIs.
\<close>

definition keys_ok :: "codec \<Rightarrow> string list \<Rightarrow> (string, string) btree \<Rightarrow> bool" where
  "keys_ok K reserved m \<longleftrightarrow>
     (\<forall>k\<in>fst ` set m. iri_valid K k \<longrightarrow> \<not> prefix INTERNAL_PROPERTY_PREFIX k \<and> k \<notin> set reserved)"

lemma keys_ok_Nil [simp]: "keys_ok K reserved []"
  by (simp add: keys_ok_def)

lemma property_prefix_internal: "INTERNAL_PROPERTY_PREFIX @ s = internal (''property/'' @ s)"
  by (simp add: INTERNAL_PROPERTY_PREFIX_def internal_def INTERNAL_NS_def)

lemma property_predicate_free:
  "keys_ok K reserved m \<Longrightarrow> k \<in> fst ` set m \<Longrightarrow> (\<And>s. internal (''property/'' @ s) \<notin> set reserved) \<Longrightarrow>
   property_predicate K k \<notin> set reserved"
  by (auto simp: keys_ok_def property_predicate_def property_prefix_internal)

lemma write_properties_tr:
  "tr s p v \<in> set (write_properties K n m) \<longleftrightarrow>
     s = n \<and> (\<exists>k x. (k, x) \<in> set m \<and> p = property_predicate K k \<and> v = string_literal x)"
  by (auto simp: write_properties_def) blast

lemma write_properties_under: "t \<in> set (write_properties K n m) \<Longrightarrow> \<exists>p v. t = tr n p v"
  by (auto simp: write_properties_def)

context iri_codec
begin

lemma property_key_back: "keys_ok K reserved m \<Longrightarrow> k \<in> fst ` set m \<Longrightarrow>
    decode_property_key K (property_predicate K k) = k"
  by (rule key_roundtrip) (auto simp: keys_ok_def)

lemma load_properties_ok:
  assumes ag: "agrees ts n T" and keys: "keys_ok K reserved m" and "btree_ok m"
    and free: "\<And>s. internal (''property/'' @ s) \<notin> set reserved"
    and own: "\<And>p v. p \<notin> set reserved \<Longrightarrow>
      tr n p v \<in> set T \<longleftrightarrow> (\<exists>k x. (k, x) \<in> set m \<and> p = property_predicate K k \<and> v = string_literal x)"
  shows "load_properties K reserved n (snapshot_of ts) = Inr m"
proof -
  define qs where "qs = filter (\<lambda>t. \<not> List.member reserved (pred t)) (matching_quads (Some n) None None (snapshot_of ts))"
  have "t \<in> set qs \<longleftrightarrow> (\<exists>p v. t = tr n p v \<and> p \<notin> set reserved \<and> t \<in> set T)" for t
    using ag by (cases t) (auto simp: qs_def matching_quads_filter matches_def tr_def agrees_def
        subject_under_def)
  then have mem: "t \<in> set qs \<longleftrightarrow> (\<exists>k x. (k, x) \<in> set m \<and> property_predicate K k \<notin> set reserved \<and>
      t = tr n (property_predicate K k) (string_literal x))" for t
    using own by auto blast+
  have "property_predicate K k \<notin> set reserved" if "(k, x) \<in> set m" for k x
    using property_predicate_free [OF keys _ free, of k] that by force
  then have qs: "set qs = (\<lambda>(k, x). tr n (property_predicate K k) (string_literal x)) ` set m"
    by (auto simp: mem simp del: tr_eq) blast
  have dist: "distinct qs"
    using ag by (simp add: qs_def matching_quads_filter agrees_def)
  define kv where "kv t = (decode_property_key K (pred t), projr (term_as_string (obj t)))" for t :: triple
  have kv: "kv (tr n (property_predicate K k) (string_literal x)) = (k, x)" if "(k, x) \<in> set m" for k x
    using property_key_back [OF keys, of k] that by (force simp: kv_def)
  have "traverse (\<lambda>t. rbind (term_as_string (obj t)) (\<lambda>v. Inr (decode_property_key K (pred t), v))) qs
      = Inr (map kv qs)"
    using qs by (intro traverse_all_Inr) (auto simp: kv_def)
  moreover have "btree_of_list (map kv qs) = m"
  proof (rule btree_of_list_eqI [OF assms(3)])
    show set: "set (map kv qs) = set m"
      using kv by (force simp: qs)
    have "inj_on (fst \<circ> kv) (set qs)"
    proof (rule inj_onI)
      fix t u assume "t \<in> set qs" "u \<in> set qs" "(fst \<circ> kv) t = (fst \<circ> kv) u"
      then obtain k x y where "t = tr n (property_predicate K k) (string_literal x)" "(k, x) \<in> set m"
        "u = tr n (property_predicate K k) (string_literal y)" "(k, y) \<in> set m"
        using kv by (auto simp: qs)
      then show "t = u" using btree_ok_distinct [OF assms(3)] by (metis eq_key_imp_eq_value)
    qed
    then show "distinct (map fst (map kv qs))"
      using dist by (simp add: distinct_map comp_def)
  qed
  ultimately show ?thesis by (simp add: load_properties_def qs_def)
qed

end

section \<open>Distributions, datasets and services\<close>

lemma segment_below:
  assumes "subject_under (r @ ''/'' @ a) t" "subject_under (r @ ''/'' @ b) t"
    "CHR ''/'' \<notin> set a" "CHR ''/'' \<notin> set b"
  shows "a = b"
  using assms under_segment unfolding subject_under_def by (metis rdf_term.inject(1))

lemma dataset_children_iri:
  "distribution_iri K base i = rule_iri (dataset_iri K base i) ''distributions''"
  "policy_iri K base i = rule_iri (dataset_iri K base i) ''policies''"
  by (simp_all add: fun_eq_iff distribution_iri_def policy_iri_def dataset_iri_def rule_iri_def)

definition distribution_body :: "codec \<Rightarrow> string \<Rightarrow> string \<Rightarrow> nat \<Rightarrow> distribution \<Rightarrow> triple list" where
  "distribution_body K base node i d =
     [tr node rdf_type (NamedNode dcat_distribution_class),
      tr node sequence_index_pred (index_literal i),
      tr node dct_format_pred (string_literal (format d)),
      tr node dcat_access_service_pred (NamedNode (service_iri K base (access_service d)))]"

definition policy_links :: "codec \<Rightarrow> string \<Rightarrow> policy list \<Rightarrow> triple list" where
  "policy_links K node ps =
     indexed (\<lambda>i p. tr node odrl_has_policy_pred (NamedNode (rule_iri node ''policies'' i))
       # policy_triples K p (rule_iri node ''policies'' i) i) ps"

definition distribution_links :: "codec \<Rightarrow> string \<Rightarrow> string \<Rightarrow> distribution list \<Rightarrow> triple list" where
  "distribution_links K base node ds =
     indexed (\<lambda>i d. tr node dcat_distribution_pred (NamedNode (rule_iri node ''distributions'' i))
       # distribution_body K base (rule_iri node ''distributions'' i) i d) ds"

definition dataset_body :: "codec \<Rightarrow> string \<Rightarrow> string \<Rightarrow> nat \<Rightarrow> dataset \<Rightarrow> triple list" where
  "dataset_body K base node index d =
     [tr node rdf_type (NamedNode dcat_dataset_class), tr node sequence_index_pred (index_literal index)]
     @ write_properties K node (ds_properties d)
     @ distribution_links K base node (distributions d) @ policy_links K node (policies d)"

lemma dataset_triples_body:
  "dataset_triples K base cn index d =
     tr cn dcat_dataset_pred (NamedNode (dataset_iri K base (dataset_id d)))
     # dataset_body K base (dataset_iri K base (dataset_id d)) index d"
proof -
  have "write_distribution K base (dataset_id d) = (\<lambda>i x.
      tr (dataset_iri K base (dataset_id d)) dcat_distribution_pred
        (NamedNode (rule_iri (dataset_iri K base (dataset_id d)) ''distributions'' i))
      # distribution_body K base (rule_iri (dataset_iri K base (dataset_id d)) ''distributions'' i) i x)"
    by (simp add: fun_eq_iff write_distribution_def distribution_body_def Let_def dataset_children_iri)
  then show ?thesis
    by (simp add: dataset_triples_def dataset_body_def distribution_links_def policy_links_def Let_def
        dataset_children_iri)
qed

lemma distribution_body_under: "t \<in> set (distribution_body K base n i d) \<Longrightarrow> subject_under n t"
  by (auto simp: distribution_body_def)

lemma policy_triples_under: "t \<in> set (policy_triples K p n i) \<Longrightarrow> subject_under n t"
proof -
  have "subject_under n t" if "subject_under (rule_iri n seg j) t" for seg j t
    using that under_trans rule_iri_under(1) unfolding subject_under_def by blast
  then have "t \<in> set (rules_triples K rs n q seg) \<Longrightarrow> subject_under n t" for rs q seg
    by (auto simp: rules_triples_def in_indexed dest: rule_triples_under)
  moreover have "t \<in> set (opt_triple n q f x) \<Longrightarrow> subject_under n t" for q x and f :: "string \<Rightarrow> rdf_term"
    by (auto simp: opt_triple_def split: option.splits)
  ultimately show "t \<in> set (policy_triples K p n i) \<Longrightarrow> subject_under n t"
    by (auto simp: policy_triples_def)
qed

lemma distribution_links_own:
  "tr n q v \<in> set (distribution_links K base n ds) \<longleftrightarrow>
     q = dcat_distribution_pred \<and> (\<exists>i<length ds. v = NamedNode (rule_iri n ''distributions'' i))"
  unfolding distribution_links_def
  by (rule indexed_own [where child = "rule_iri n ''distributions''"])
    (auto simp: rule_iri_under dest: distribution_body_under)

lemma policy_links_own:
  "tr n q v \<in> set (policy_links K n ps) \<longleftrightarrow>
     q = odrl_has_policy_pred \<and> (\<exists>i<length ps. v = NamedNode (rule_iri n ''policies'' i))"
  unfolding policy_links_def
  by (rule indexed_own [where child = "rule_iri n ''policies''"])
    (auto simp: rule_iri_under dest: policy_triples_under)

lemma distribution_links_below:
  assumes "i < length ds" "subject_under (rule_iri n ''distributions'' i) t"
  shows "t \<in> set (distribution_links K base n ds) \<longleftrightarrow>
    t \<in> set (distribution_body K base (rule_iri n ''distributions'' i) i (ds ! i))"
  unfolding distribution_links_def
proof (rule indexed_below [where child = "rule_iri n ''distributions''", OF assms(1)])
  show "i = j" if "under (rule_iri n ''distributions'' i) x" "under (rule_iri n ''distributions'' j) x" for j x
    using rule_iri_apart [OF that] by simp
qed (use assms distribution_body_under rule_iri_under in auto)

lemma policy_links_below:
  assumes "i < length ps" "subject_under (rule_iri n ''policies'' i) t"
  shows "t \<in> set (policy_links K n ps) \<longleftrightarrow>
    t \<in> set (policy_triples K (ps ! i) (rule_iri n ''policies'' i) i)"
  unfolding policy_links_def
proof (rule indexed_below [where child = "rule_iri n ''policies''", OF assms(1)])
  show "i = j" if "under (rule_iri n ''policies'' i) x" "under (rule_iri n ''policies'' j) x" for j x
    using rule_iri_apart [OF that] by simp
qed (use assms policy_triples_under rule_iri_under in auto)

lemma not_subject_under_other:
  assumes "subject_under (rule_iri n seg i) t" "CHR ''/'' \<notin> set seg" "CHR ''/'' \<notin> set seg'" "seg \<noteq> seg'"
  shows "\<not> subject_under (rule_iri n seg' j) t"
  using assms rule_iri_apart unfolding subject_under_def by (metis rdf_term.inject(1))

lemma links_under_other:
  assumes "subject_under (rule_iri n seg i) t" "CHR ''/'' \<notin> set seg"
  shows "seg \<noteq> ''distributions'' \<Longrightarrow> t \<notin> set (distribution_links K base n ds)"
    and "seg \<noteq> ''policies'' \<Longrightarrow> t \<notin> set (policy_links K n ps)"
proof -
  have no: "t \<noteq> tr n q v" for q v using assms(1) rule_iri_under(2) by auto
  show "t \<notin> set (distribution_links K base n ds)" if "seg \<noteq> ''distributions''"
    using not_subject_under_other [OF assms _ that] no
    by (auto simp: distribution_links_def in_indexed dest!: distribution_body_under)
  show "t \<notin> set (policy_links K n ps)" if "seg \<noteq> ''policies''"
    using not_subject_under_other [OF assms _ that] no
    by (auto simp: policy_links_def in_indexed dest!: policy_triples_under)
qed

lemma dataset_body_below:
  assumes "subject_under (rule_iri n seg i) t" "CHR ''/'' \<notin> set seg"
  shows "t \<in> set (dataset_body K base n index d) \<longleftrightarrow>
    t \<in> set (distribution_links K base n (distributions d)) \<or> t \<in> set (policy_links K n (policies d))"
proof -
  have no: "t \<noteq> tr n q v" for q v using assms(1) rule_iri_under(2) by auto
  then have "t \<notin> set (write_properties K n m)" for m
    using write_properties_under by blast
  with no show ?thesis by (simp add: dataset_body_def)
qed

lemma dataset_body_under: "t \<in> set (dataset_body K base n i d) \<Longrightarrow> subject_under n t"
proof -
  have "subject_under n t" if "subject_under (rule_iri n seg j) t" for seg j
    using that under_trans rule_iri_under(1) unfolding subject_under_def by blast
  then show "t \<in> set (dataset_body K base n i d) \<Longrightarrow> subject_under n t"
    by (auto simp: dataset_body_def distribution_links_def policy_links_def in_indexed
        dest!: distribution_body_under policy_triples_under write_properties_under)
qed

lemma dataset_body_own:
  "tr n q v \<in> set (dataset_body K base n index d) \<longleftrightarrow>
     q = rdf_type \<and> v = NamedNode dcat_dataset_class \<or> q = sequence_index_pred \<and> v = index_literal index \<or>
     (\<exists>k x. (k, x) \<in> set (ds_properties d) \<and> q = property_predicate K k \<and> v = string_literal x) \<or>
     q = dcat_distribution_pred \<and> (\<exists>i<length (distributions d). v = NamedNode (rule_iri n ''distributions'' i)) \<or>
     q = odrl_has_policy_pred \<and> (\<exists>i<length (policies d). v = NamedNode (rule_iri n ''policies'' i))"
  by (simp add: dataset_body_def distribution_links_own policy_links_own write_properties_tr)

definition dataset_vecs :: "dataset \<Rightarrow> bool" where
  "dataset_vecs d \<longleftrightarrow> vec_len (distributions d) \<and> vec_len (policies d) \<and> (\<forall>p\<in>set (policies d). policy_vecs p)"

context iri_codec
begin

lemma load_distribution_ok:
  assumes ag: "agrees ts n (distribution_body K base n index d)" and "index < 2 ^ 63"
  shows "load_distribution K base (snapshot_of ts) n = Inr (index, d)"
proof -
  have "sequence_index n (snapshot_of ts) = Inr index"
    using assms(2) by (intro sequence_index_ok [OF ag]) (auto simp: distribution_body_def)
  moreover have "required_string n dct_format_pred w (snapshot_of ts) = Inr (format d)" for w
    by (intro required_string_ok [OF ag, where w = "string_literal (format d)"]) (auto simp: distribution_body_def)
  moreover have "first_object n dcat_access_service_pred (snapshot_of ts)
      = Some (NamedNode (service_iri K base (access_service d)))"
    by (intro first_object_unique [OF ag]) (auto simp: distribution_body_def)
  moreover have "strip_prefix_decode K (service_iri K base i) (base @ ''/services/'') = Inr i" for i
    using strip_encoded [of "base @ ''/services/''" i] by (simp add: service_iri_def)
  ultimately show ?thesis by (simp add: load_distribution_def)
qed

lemma load_dataset_ok:
  assumes n: "n = dataset_iri K base (dataset_id d)"
    and ag: "agrees ts n (dataset_body K base n index d)"
    and "\<forall>p\<in>set (policies d). policy_depth_ok p" "dataset_vecs d" "index < 2 ^ 63"
    and keys: "keys_ok K dataset_reserved (ds_properties d)" "btree_ok (ds_properties d)"
  shows "load_dataset K base (snapshot_of ts) n = Inr (index, d)"
proof -
  let ?g = "snapshot_of ts"
  have free: "internal (''property/'' @ s) \<notin> set dataset_reserved" for s
    by simp
  have pfree: "property_predicate K k \<notin> set dataset_reserved" if "(k, x) \<in> set (ds_properties d)" for k x
    using property_predicate_free [OF keys(1) _ free, of k] that by force
  have own: "tr n q v \<in> set (dataset_body K base n index d) \<longleftrightarrow>
      q = rdf_type \<and> v = NamedNode dcat_dataset_class \<or> q = sequence_index_pred \<and> v = index_literal index \<or>
      q = dcat_distribution_pred \<and> (\<exists>i<length (distributions d). v = NamedNode (rule_iri n ''distributions'' i)) \<or>
      q = odrl_has_policy_pred \<and> (\<exists>i<length (policies d). v = NamedNode (rule_iri n ''policies'' i))"
    if "q \<in> set dataset_reserved" for q v
    using pfree that unfolding dataset_body_own by blast
  have own_props: "tr n q v \<in> set (dataset_body K base n index d) \<longleftrightarrow>
      (\<exists>k x. (k, x) \<in> set (ds_properties d) \<and> q = property_predicate K k \<and> v = string_literal x)"
    if "q \<notin> set dataset_reserved" for q v
    using that unfolding dataset_body_own by auto
  have i: "strip_prefix_decode K n (base @ ''/datasets/'') = Inr (dataset_id d)"
    using strip_encoded [of "base @ ''/datasets/''" "dataset_id d"] by (simp add: n dataset_iri_def)
  have idx: "sequence_index n ?g = Inr index"
    using assms(5) by (intro sequence_index_ok [OF ag]) (simp_all add: own)
  have props: "load_properties K dataset_reserved n ?g = Inr (ds_properties d)"
    by (rule load_properties_ok [OF ag keys free own_props])
  have dists: "load_list (load_distribution K base ?g) w
      (matching_quads (Some n) (Some dcat_distribution_pred) None ?g) = Inr (distributions d)" for w
  proof (rule load_indexed [OF ag, where child = "rule_iri n ''distributions''"])
    show "tr n dcat_distribution_pred v \<in> set (dataset_body K base n index d) \<longleftrightarrow>
        (\<exists>i<length (distributions d). v = NamedNode (rule_iri n ''distributions'' i))" for v
      by (simp add: own)
    fix i assume i: "i < length (distributions d)"
    have "t \<in> set (dataset_body K base n index d) \<longleftrightarrow>
        t \<in> set (distribution_body K base (rule_iri n ''distributions'' i) i (distributions d ! i))"
      if t: "subject_under (rule_iri n ''distributions'' i) t" for t
      using dataset_body_below [OF t, of K base index d] links_under_other(2) [OF t, of K "policies d"]
        distribution_links_below [OF i t, of K base] by simp
    then show "load_distribution K base ?g (rule_iri n ''distributions'' i) = Inr (i, distributions d ! i)"
      using i assms(4) by (intro load_distribution_ok agrees_child [OF ag rule_iri_under(1)])
        (simp_all add: dataset_vecs_def vec_len_def)
  qed
  have pols: "load_list (load_policy ?g) w
      (matching_quads (Some n) (Some odrl_has_policy_pred) None ?g) = Inr (policies d)" for w
  proof (rule load_indexed [OF ag, where child = "rule_iri n ''policies''"])
    show "tr n odrl_has_policy_pred v \<in> set (dataset_body K base n index d) \<longleftrightarrow>
        (\<exists>i<length (policies d). v = NamedNode (rule_iri n ''policies'' i))" for v
      by (simp add: own)
    fix i assume i: "i < length (policies d)"
    have "t \<in> set (dataset_body K base n index d) \<longleftrightarrow>
        t \<in> set (policy_triples K (policies d ! i) (rule_iri n ''policies'' i) i)"
      if t: "subject_under (rule_iri n ''policies'' i) t" for t
      using dataset_body_below [OF t, of K base index d]
        links_under_other(1) [OF t, of K base "distributions d"]
        policy_links_below [OF i t, of K] by simp
    then show "load_policy ?g (rule_iri n ''policies'' i) = Inr (i, policies d ! i)"
      using i assms(3,4)
      by (intro load_policy_ok [where K = K] agrees_child [OF ag rule_iri_under(1)])
        (simp_all add: dataset_vecs_def vec_len_def)
  qed
  show ?thesis
    using i idx props dists pols by (simp add: load_dataset_def)
qed

end

section \<open>Catalogs\<close>

definition service_body :: "codec \<Rightarrow> string \<Rightarrow> nat \<Rightarrow> data_service \<Rightarrow> triple list" where
  "service_body K node index s =
     [tr node rdf_type (NamedNode dcat_data_service_class), tr node sequence_index_pred (index_literal index),
      tr node dcat_endpoint_url_pred (iri_or_literal_term K (endpoint_url s))]
     @ opt_triple node dcat_endpoint_description_pred string_literal (endpoint_description s)"

definition dataset_links :: "codec \<Rightarrow> string \<Rightarrow> string \<Rightarrow> dataset list \<Rightarrow> triple list" where
  "dataset_links K base cn ds =
     indexed (\<lambda>i d. tr cn dcat_dataset_pred (NamedNode (dataset_iri K base (dataset_id d)))
       # dataset_body K base (dataset_iri K base (dataset_id d)) i d) ds"

definition service_links :: "codec \<Rightarrow> string \<Rightarrow> string \<Rightarrow> data_service list \<Rightarrow> triple list" where
  "service_links K base cn ss =
     indexed (\<lambda>i s. tr cn dcat_service_pred (NamedNode (service_iri K base (service_id s)))
       # service_body K (service_iri K base (service_id s)) i s) ss"

lemma catalog_triples_links:
  "catalog_triples K c =
     (let base = node_base K (origin_node c); cn = catalog_iri K base (catalog_id c)
      in tr cn rdf_type (NamedNode dcat_catalog_class)
         # opt_triple cn participant_id_pred string_literal (participant_id c)
         @ write_properties K cn (properties c)
         @ dataset_links K base cn (datasets c) @ service_links K base cn (data_services c))"
proof -
  have "dataset_triples K base cn = (\<lambda>i d. tr cn dcat_dataset_pred (NamedNode (dataset_iri K base (dataset_id d)))
       # dataset_body K base (dataset_iri K base (dataset_id d)) i d)" for base cn
    by (simp add: fun_eq_iff dataset_triples_body)
  moreover have "write_data_service K base cn = (\<lambda>i s. tr cn dcat_service_pred
       (NamedNode (service_iri K base (service_id s))) # service_body K (service_iri K base (service_id s)) i s)"
    for base cn
    by (simp add: fun_eq_iff write_data_service_def service_body_def Let_def)
  ultimately show ?thesis
    by (simp add: catalog_triples_def dataset_links_def service_links_def Let_def)
qed

lemma service_body_under: "t \<in> set (service_body K n i s) \<Longrightarrow> subject_under n t"
  by (auto simp: service_body_def opt_triple_def split: option.splits)

text \<open>The three kinds of resource of a node, told apart by kind and encoded id.\<close>

lemma resource_apart:
  assumes "under (base @ ''/'' @ k @ ''/'' @ a) x" "under (base @ ''/'' @ k' @ ''/'' @ b) x"
    "CHR ''/'' \<notin> set k" "CHR ''/'' \<notin> set k'" "CHR ''/'' \<notin> set a" "CHR ''/'' \<notin> set b"
  shows "k = k' \<and> a = b"
proof -
  have "k = k'"
    using assms under_segment [of base k x k'] under_extend [of "base @ ''/'' @ k" a x]
      under_extend [of "base @ ''/'' @ k'" b x] by simp
  then show ?thesis using assms under_segment [of "base @ ''/'' @ k" a x b] by simp
qed

context iri_codec
begin

lemma iri_apart:
  "under (dataset_iri K base a) x \<Longrightarrow> under (dataset_iri K base b) x \<Longrightarrow> a = b"
  "under (service_iri K base a) x \<Longrightarrow> under (service_iri K base b) x \<Longrightarrow> a = b"
  "under (dataset_iri K base a) x \<Longrightarrow> \<not> under (service_iri K base b) x"
  "under (catalog_iri K base a) x \<Longrightarrow> \<not> under (dataset_iri K base b) x"
  "under (catalog_iri K base a) x \<Longrightarrow> \<not> under (service_iri K base b) x"
  using resource_apart [of base "''datasets''" "url_encode K a" x "''datasets''" "url_encode K b"]
    resource_apart [of base "''services''" "url_encode K a" x "''services''" "url_encode K b"]
    resource_apart [of base "''datasets''" "url_encode K a" x "''services''" "url_encode K b"]
    resource_apart [of base "''catalogs''" "url_encode K a" x "''datasets''" "url_encode K b"]
    resource_apart [of base "''catalogs''" "url_encode K a" x "''services''" "url_encode K b"]
    encode_no_slash encode_inject
  by (auto simp: dataset_iri_def service_iri_def catalog_iri_def)

lemma catalog_not_under:
  "\<not> under (dataset_iri K base a) (catalog_iri K base b)" "\<not> under (service_iri K base a) (catalog_iri K base b)"
  using iri_apart(4) [of base b "catalog_iri K base b" a] iri_apart(5) [of base b "catalog_iri K base b" a]
  by simp_all

lemma dataset_links_own:
  "tr cn q v \<in> set (dataset_links K base cn ds) \<longleftrightarrow>
     q = dcat_dataset_pred \<and> (\<exists>i<length ds. v = NamedNode (dataset_iri K base (dataset_id (ds ! i))))"
  if "cn = catalog_iri K base i"
  unfolding dataset_links_def
  by (rule indexed_own [where child = "\<lambda>i. dataset_iri K base (dataset_id (ds ! i))"])
    (auto simp: that catalog_not_under dest: dataset_body_under)

lemma service_links_own:
  "tr cn q v \<in> set (service_links K base cn ss) \<longleftrightarrow>
     q = dcat_service_pred \<and> (\<exists>i<length ss. v = NamedNode (service_iri K base (service_id (ss ! i))))"
  if "cn = catalog_iri K base i"
  unfolding service_links_def
  by (rule indexed_own [where child = "\<lambda>i. service_iri K base (service_id (ss ! i))"])
    (auto simp: that catalog_not_under dest: service_body_under)

lemma dataset_links_below:
  assumes "i < length ds" "subject_under (dataset_iri K base (dataset_id (ds ! i))) t"
    "distinct (map dataset_id ds)" "cn = catalog_iri K base ci"
  shows "t \<in> set (dataset_links K base cn ds) \<longleftrightarrow>
    t \<in> set (dataset_body K base (dataset_iri K base (dataset_id (ds ! i))) i (ds ! i))"
  unfolding dataset_links_def
proof (rule indexed_below [where child = "\<lambda>i. dataset_iri K base (dataset_id (ds ! i))", OF assms(1)])
  show "i = j" if "j < length ds" "under (dataset_iri K base (dataset_id (ds ! i))) x"
    "under (dataset_iri K base (dataset_id (ds ! j))) x" for j x
    using iri_apart(1) [OF that(2,3)] assms(1,3) that(1) by (simp add: distinct_conv_nth) metis
qed (use assms dataset_body_under catalog_not_under in auto)

lemma service_links_below:
  assumes "i < length ss" "subject_under (service_iri K base (service_id (ss ! i))) t"
    "distinct (map service_id ss)" "cn = catalog_iri K base ci"
  shows "t \<in> set (service_links K base cn ss) \<longleftrightarrow>
    t \<in> set (service_body K (service_iri K base (service_id (ss ! i))) i (ss ! i))"
  unfolding service_links_def
proof (rule indexed_below [where child = "\<lambda>i. service_iri K base (service_id (ss ! i))", OF assms(1)])
  show "i = j" if "j < length ss" "under (service_iri K base (service_id (ss ! i))) x"
    "under (service_iri K base (service_id (ss ! j))) x" for j x
    using iri_apart(2) [OF that(2,3)] assms(1,3) that(1) by (simp add: distinct_conv_nth) metis
qed (use assms service_body_under catalog_not_under in auto)

lemma links_other:
  assumes "cn = catalog_iri K base ci"
  shows "subject_under (dataset_iri K base a) t \<Longrightarrow> t \<notin> set (service_links K base cn ss)"
    and "subject_under (service_iri K base a) t \<Longrightarrow> t \<notin> set (dataset_links K base cn ds)"
proof -
  show "t \<notin> set (service_links K base cn ss)" if t: "subject_under (dataset_iri K base a) t"
    using t assms iri_apart(3) catalog_not_under(1)
    by (auto simp: service_links_def in_indexed subject_under_def dest!: service_body_under; auto simp: tr_def)
  show "t \<notin> set (dataset_links K base cn ds)" if t: "subject_under (service_iri K base a) t"
    using t assms iri_apart(3) catalog_not_under(2)
    by (auto simp: dataset_links_def in_indexed subject_under_def dest!: dataset_body_under; auto simp: tr_def)
qed

lemma load_data_service_ok:
  assumes n: "n = service_iri K base (service_id s)" and ag: "agrees ts n (service_body K n index s)"
    and "index < 2 ^ 63"
  shows "load_data_service K base (snapshot_of ts) n = Inr (index, s)"
proof -
  have "strip_prefix_decode K n (base @ ''/services/'') = Inr (service_id s)"
    using strip_encoded [of "base @ ''/services/''" "service_id s"] by (simp add: n service_iri_def)
  moreover have "sequence_index n (snapshot_of ts) = Inr index"
    using assms(3) by (intro sequence_index_ok [OF ag]) (auto simp: service_body_def)
  moreover have "required_string n dcat_endpoint_url_pred w (snapshot_of ts) = Inr (endpoint_url s)" for w
    by (intro required_string_ok [OF ag, where w = "iri_or_literal_term K (endpoint_url s)"])
      (auto simp: service_body_def)
  moreover have "optional_string n dcat_endpoint_description_pred (snapshot_of ts) = Inr (endpoint_description s)"
    by (rule optional_string_ok [OF ag, where f = string_literal]) (auto simp: service_body_def)
  ultimately show ?thesis by (simp add: load_data_service_def)
qed

end

text \<open>
  What a catalog must satisfy for its triples to determine it, beyond \<open>catalog_wf\<close>: property keys that do not
  collide with the store's own predicates, and lists no longer than a vector can be.
\<close>

definition catalog_keys_ok :: "codec \<Rightarrow> catalog \<Rightarrow> bool" where
  "catalog_keys_ok K c \<longleftrightarrow>
     keys_ok K catalog_reserved (properties c) \<and> (\<forall>d\<in>set (datasets c). keys_ok K dataset_reserved (ds_properties d))"

definition catalog_vecs :: "catalog \<Rightarrow> bool" where
  "catalog_vecs c \<longleftrightarrow>
     vec_len (datasets c) \<and> vec_len (data_services c) \<and> (\<forall>d\<in>set (datasets c). dataset_vecs d)"

text \<open>Only the catalog resource has the type \<open>dcat:Catalog\<close>.\<close>

definition typed_catalog :: "triple \<Rightarrow> bool" where
  "typed_catalog t \<longleftrightarrow> pred t = rdf_type \<and> obj t = NamedNode dcat_catalog_class"

lemma typed_tr [simp]: "typed_catalog (tr s p v) \<longleftrightarrow> p = rdf_type \<and> v = NamedNode dcat_catalog_class"
  by (simp add: typed_catalog_def)

lemma group_pred_not_type [simp]: "group_pred l \<noteq> rdf_type"
  by (cases l) simp_all

lemma constraint_triples_untyped: "t \<in> set (constraint_triples K c n i) \<Longrightarrow> \<not> typed_catalog t"
proof (induction c arbitrary: n i t rule: constraint_induct)
  case (Logical l)
  then have "\<not> typed_catalog t" if "j < length (children l)"
    "t \<in> set (constraint_triples K (children l ! j) (constraint_iri n j) j)" for j
    using nth_mem that by blast
  with Logical.prems show ?case by (auto simp: in_indexed)
qed auto

lemma opt_triple_untyped: "p \<noteq> rdf_type \<Longrightarrow> t \<in> set (opt_triple n p f x) \<Longrightarrow> \<not> typed_catalog t"
  by (auto simp: opt_triple_def split: option.splits)

lemma policy_triples_untyped: "t \<in> set (policy_triples K p n i) \<Longrightarrow> \<not> typed_catalog t"
proof -
  have "q \<noteq> rdf_type \<Longrightarrow> t \<in> set (rules_triples K rs n q seg) \<Longrightarrow> \<not> typed_catalog t" for rs q seg
    by (auto simp: rules_triples_def rule_triples_def in_indexed dest: constraint_triples_untyped)
  then have "t \<notin> set (rules_triples K rs n (odrl q) seg)" if "typed_catalog t" for rs q seg
    using that by (metis vocab_ns(19))
  then show "t \<in> set (policy_triples K p n i) \<Longrightarrow> \<not> typed_catalog t"
    by (cases "kind p") (auto simp: policy_triples_def dest!: opt_triple_untyped [rotated])
qed

lemma properties_untyped: "t \<in> set (write_properties K n m) \<Longrightarrow> \<not> typed_catalog t"
  by (auto simp: write_properties_def string_literal_def)

lemma dataset_body_untyped: "t \<in> set (dataset_body K base n i d) \<Longrightarrow> \<not> typed_catalog t"
  by (auto simp: dataset_body_def distribution_links_def policy_links_def distribution_body_def in_indexed
      dest!: properties_untyped policy_triples_untyped)

lemma service_body_untyped: "t \<in> set (service_body K n i s) \<Longrightarrow> \<not> typed_catalog t"
  by (auto simp: service_body_def dest!: opt_triple_untyped [rotated])

lemma typed_catalog_iff:
  "t \<in> set (catalog_triples K c) \<and> typed_catalog t \<longleftrightarrow>
     t = tr (catalog_iri K (node_base K (origin_node c)) (catalog_id c)) rdf_type (NamedNode dcat_catalog_class)"
  by (auto simp: catalog_triples_links Let_def dataset_links_def service_links_def in_indexed
      dest!: opt_triple_untyped [rotated] properties_untyped dataset_body_untyped service_body_untyped)

lemma catalog_own:
  assumes "iri_codec K" "cn = catalog_iri K (node_base K (origin_node c)) (catalog_id c)"
  shows "tr cn q v \<in> set (catalog_triples K c) \<longleftrightarrow>
     q = rdf_type \<and> v = NamedNode dcat_catalog_class \<or>
     q = participant_id_pred \<and> (\<exists>y. participant_id c = Some y \<and> v = string_literal y) \<or>
     (\<exists>k x. (k, x) \<in> set (properties c) \<and> q = property_predicate K k \<and> v = string_literal x) \<or>
     q = dcat_dataset_pred \<and> (\<exists>i<length (datasets c). v = NamedNode (dataset_iri K (node_base K (origin_node c))
       (dataset_id (datasets c ! i)))) \<or>
     q = dcat_service_pred \<and> (\<exists>i<length (data_services c). v = NamedNode (service_iri K
       (node_base K (origin_node c)) (service_id (data_services c ! i))))"
  using assms iri_codec.dataset_links_own [OF assms] iri_codec.service_links_own [OF assms]
  by (simp add: catalog_triples_links Let_def write_properties_tr)

lemma catalog_below:
  assumes K: "iri_codec K" and wf: "catalog_wf c" and base: "base = node_base K (origin_node c)"
  shows "i < length (datasets c) \<Longrightarrow> subject_under (dataset_iri K base (dataset_id (datasets c ! i))) t \<Longrightarrow>
      t \<in> set (catalog_triples K c) \<longleftrightarrow>
      t \<in> set (dataset_body K base (dataset_iri K base (dataset_id (datasets c ! i))) i (datasets c ! i))"
    and "i < length (data_services c) \<Longrightarrow> subject_under (service_iri K base (service_id (data_services c ! i))) t \<Longrightarrow>
      t \<in> set (catalog_triples K c) \<longleftrightarrow>
      t \<in> set (service_body K (service_iri K base (service_id (data_services c ! i))) i (data_services c ! i))"
proof -
  let ?cn = "catalog_iri K base (catalog_id c)"
  have own: "t \<notin> set (opt_triple ?cn q string_literal x) \<and> t \<notin> set (write_properties K ?cn m) \<and> t \<noteq> tr ?cn q v"
    if "subject_under r t" "\<not> under r ?cn" for r q x m v
    using that by (auto simp: opt_triple_def write_properties_def split: option.splits)
  show "t \<in> set (catalog_triples K c) \<longleftrightarrow>
      t \<in> set (dataset_body K base (dataset_iri K base (dataset_id (datasets c ! i))) i (datasets c ! i))"
    if "i < length (datasets c)" "subject_under (dataset_iri K base (dataset_id (datasets c ! i))) t"
    using own [OF that(2)] iri_codec.catalog_not_under(1) [OF K]
      iri_codec.dataset_links_below [OF K that _ refl] iri_codec.links_other(1) [OF K refl that(2)] wf
    by (simp add: catalog_triples_links Let_def base catalog_wf_def)
  show "t \<in> set (catalog_triples K c) \<longleftrightarrow>
      t \<in> set (service_body K (service_iri K base (service_id (data_services c ! i))) i (data_services c ! i))"
    if "i < length (data_services c)" "subject_under (service_iri K base (service_id (data_services c ! i))) t"
    using own [OF that(2)] iri_codec.catalog_not_under(2) [OF K]
      iri_codec.service_links_below [OF K that _ refl] iri_codec.links_other(2) [OF K refl that(2)] wf
    by (simp add: catalog_triples_links Let_def base catalog_wf_def)
qed

text \<open>The flagship lemma: any snapshot with exactly the written triples decodes to the catalog.\<close>

lemma load_catalog_ok:
  assumes K: "iri_codec K" and wf: "catalog_wf c" and keys: "catalog_keys_ok K c" and vecs: "catalog_vecs c"
    and ts: "distinct ts" "set ts = set (catalog_triples K c)"
  shows "load_catalog K (origin_node c) (snapshot_of ts) = Inr (Some c)"
proof -
  define base where "base = node_base K (origin_node c)"
  define cn where "cn = catalog_iri K base (catalog_id c)"
  let ?g = "snapshot_of ts"
  have ag: "agrees ts s (catalog_triples K c)" for s
    using ts by (simp add: agrees_def)
  have kc: "keys_ok K catalog_reserved (properties c)" and bc: "btree_ok (properties c)"
    using keys wf by (simp_all add: catalog_keys_ok_def catalog_wf_def)
  have free: "internal (''property/'' @ s) \<notin> set catalog_reserved" for s by simp
  have pfree: "property_predicate K k \<notin> set catalog_reserved" if "(k, x) \<in> set (properties c)" for k x
    using property_predicate_free [OF kc _ free, of k] that by force
  have own: "tr cn q v \<in> set (catalog_triples K c) \<longleftrightarrow>
     q = rdf_type \<and> v = NamedNode dcat_catalog_class \<or>
     q = participant_id_pred \<and> (\<exists>y. participant_id c = Some y \<and> v = string_literal y) \<or>
     q = dcat_dataset_pred \<and> (\<exists>i<length (datasets c). v = NamedNode (dataset_iri K base (dataset_id (datasets c ! i)))) \<or>
     q = dcat_service_pred \<and> (\<exists>i<length (data_services c). v = NamedNode (service_iri K base
       (service_id (data_services c ! i))))" if "q \<in> set catalog_reserved" for q v
    using that pfree unfolding catalog_own [OF K cn_def [unfolded base_def]] base_def by blast
  have own_props: "tr cn q v \<in> set (catalog_triples K c) \<longleftrightarrow>
      (\<exists>k x. (k, x) \<in> set (properties c) \<and> q = property_predicate K k \<and> v = string_literal x)"
    if "q \<notin> set catalog_reserved" for q v
    using that unfolding catalog_own [OF K cn_def [unfolded base_def]] by auto
  have "matching_quads None (Some rdf_type) (Some (NamedNode dcat_catalog_class)) ?g = filter typed_catalog ts"
    by (simp add: matching_quads_filter matches_def [abs_def] typed_catalog_def [abs_def])
  moreover have "set (filter typed_catalog ts) = {tr cn rdf_type (NamedNode dcat_catalog_class)}"
    using typed_catalog_iff [of _ K c] by (auto simp: ts cn_def base_def)
  then have "\<exists>rest. filter typed_catalog ts = tr cn rdf_type (NamedNode dcat_catalog_class) # rest"
    by (cases "filter typed_catalog ts") auto
  ultimately obtain rest where
    first: "matching_quads None (Some rdf_type) (Some (NamedNode dcat_catalog_class)) ?g
      = tr cn rdf_type (NamedNode dcat_catalog_class) # rest" by auto
  have i: "strip_prefix_decode K cn (base @ ''/catalogs/'') = Inr (catalog_id c)"
    using iri_codec.strip_encoded [OF K, of "base @ ''/catalogs/''" "catalog_id c"]
    by (simp add: cn_def catalog_iri_def)
  have pid: "optional_string cn participant_id_pred ?g = Inr (participant_id c)"
    by (rule optional_string_ok [OF ag, where f = string_literal]) (simp_all add: own)
  have props: "load_properties K catalog_reserved cn ?g = Inr (properties c)"
    by (rule iri_codec.load_properties_ok [OF K ag kc bc free own_props])
  have ds: "load_list (load_dataset K base ?g) w (matching_quads (Some cn) (Some dcat_dataset_pred) None ?g)
      = Inr (datasets c)" for w
  proof (rule load_indexed [OF ag, where child = "\<lambda>i. dataset_iri K base (dataset_id (datasets c ! i))"])
    show "tr cn dcat_dataset_pred v \<in> set (catalog_triples K c) \<longleftrightarrow>
        (\<exists>i<length (datasets c). v = NamedNode (dataset_iri K base (dataset_id (datasets c ! i))))" for v
      by (simp add: own)
    fix i assume i: "i < length (datasets c)"
    then have d: "datasets c ! i \<in> set (datasets c)" by simp
    have "agrees ts (dataset_iri K base (dataset_id (datasets c ! i)))
        (dataset_body K base (dataset_iri K base (dataset_id (datasets c ! i))) i (datasets c ! i))"
      by (rule agrees_child [OF ag under_refl catalog_below(1) [OF K wf base_def i]])
    then show "load_dataset K base ?g (dataset_iri K base (dataset_id (datasets c ! i))) = Inr (i, datasets c ! i)"
      using i d wf keys vecs
      by (intro iri_codec.load_dataset_ok [OF K refl])
        (auto simp: catalog_wf_def catalog_depth_ok_def catalog_keys_ok_def catalog_vecs_def vec_len_def)
  qed
  have ss: "load_list (load_data_service K base ?g) w (matching_quads (Some cn) (Some dcat_service_pred) None ?g)
      = Inr (data_services c)" for w
  proof (rule load_indexed [OF ag, where child = "\<lambda>i. service_iri K base (service_id (data_services c ! i))"])
    show "tr cn dcat_service_pred v \<in> set (catalog_triples K c) \<longleftrightarrow>
        (\<exists>i<length (data_services c). v = NamedNode (service_iri K base (service_id (data_services c ! i))))" for v
      by (simp add: own)
    fix i assume i: "i < length (data_services c)"
    have "agrees ts (service_iri K base (service_id (data_services c ! i)))
        (service_body K (service_iri K base (service_id (data_services c ! i))) i (data_services c ! i))"
      by (rule agrees_child [OF ag under_refl catalog_below(2) [OF K wf base_def i]])
    then show "load_data_service K base ?g (service_iri K base (service_id (data_services c ! i)))
        = Inr (i, data_services c ! i)"
      using i vecs by (intro iri_codec.load_data_service_ok [OF K refl]) (simp_all add: catalog_vecs_def vec_len_def)
  qed
  show ?thesis
    using first i pid props ds ss by (simp add: load_catalog_def Let_def base_def [symmetric])
qed

end
