(* ===== verification/Rdf_Minted.thy ===== *)
theory Rdf_Minted
  imports Rdf_Roundtrip
begin

text \<open>
  Two consequences of the encoding: every IRI the store mints is one that \<open>NamedNode::new\<close> accepts, so the
  \<open>expect\<close> in \<open>iri\<close> (\<open>vocab.rs\<close>) never panics on crawled data; and the round trip of a whole catalog.
\<close>

section \<open>Minted IRIs\<close>

abbreviation path_text :: "string \<Rightarrow> bool" where
  "path_text \<equiv> pct_text {CHR ''/''}"

lemma pct_text_append: "pct_text S a \<Longrightarrow> pct_text S b \<Longrightarrow> pct_text S (a @ b)"
  by (induction S a rule: pct_text.induct) (auto split: list.splits)

lemma pct_text_mono: "pct_text S a \<Longrightarrow> S \<subseteq> S' \<Longrightarrow> pct_text S' a"
  by (induction S a rule: pct_text.induct) (auto split: list.splits)

lemma pct_text_plain: "list_all unreserved s \<Longrightarrow> pct_text S s"
  by (induction s) (auto simp: unreserved_def Let_def)

lemma path_text_show_nat: "path_text (show_nat n)"
proof -
  have "is_digit c \<Longrightarrow> unreserved c" for c by (simp add: is_digit_def unreserved_def Let_def)
  then have "list_all unreserved (show_nat n)" using show_nat_chars [of _ n] by (auto simp: list_all_iff)
  then show ?thesis by (rule pct_text_plain)
qed

definition minted :: "string \<Rightarrow> bool" where
  "minted s \<longleftrightarrow> (\<exists>r. s = NODE_NS @ r \<and> path_text r)"

lemma minted_extend: "minted s \<Longrightarrow> path_text r \<Longrightarrow> minted (s @ r)"
  by (auto simp: minted_def pct_text_append)

lemma path_text_slash: "path_text (CHR ''/'' # r) \<longleftrightarrow> path_text r"
  by simp

lemma minted_rule_iri: "minted s \<Longrightarrow> path_text seg \<Longrightarrow> minted (rule_iri s seg i)"
  using minted_extend [of s "''/'' @ seg @ ''/'' @ show_nat i"] path_text_show_nat
  by (simp add: rule_iri_def pct_text_append)

lemma minted_constraint_iri: "minted s \<Longrightarrow> minted (constraint_iri s i)"
  using minted_extend [of s "''/constraints/'' @ show_nat i"] path_text_show_nat
  by (simp add: constraint_iri_def unreserved_def)

definition node_valid :: "codec \<Rightarrow> rdf_term \<Rightarrow> bool" where
  "node_valid K t = (case t of NamedNode i \<Rightarrow> iri_valid K i | _ \<Rightarrow> True)"

definition triple_valid :: "codec \<Rightarrow> triple \<Rightarrow> bool" where
  "triple_valid K t \<longleftrightarrow> node_valid K (subj t) \<and> iri_valid K (pred t) \<and> node_valid K (obj t)"

lemma node_valid_simps [simp]:
  "node_valid K (NamedNode i) = iri_valid K i" "node_valid K (Literal v t)"
  "node_valid K (iri_or_literal_term K x)" "node_valid K (string_literal x)" "node_valid K (index_literal n)"
  by (simp_all add: node_valid_def iri_or_literal_term_def string_literal_def index_literal_def)

lemma triple_valid_tr [simp]: "triple_valid K (tr s p v) \<longleftrightarrow> iri_valid K s \<and> iri_valid K p \<and> node_valid K v"
  by (simp add: triple_valid_def)

context iri_codec
begin

lemma minted_valid: "minted s \<Longrightarrow> iri_valid K s"
  using node_iri_valid by (auto simp: minted_def)

lemma path_text_encode: "path_text (url_encode K s)"
  using pct_text_mono [OF encode_pct] by simp

lemma minted_base: "minted (node_base K n)"
  by (auto simp: minted_def node_base_def path_text_encode)

lemma minted_resources:
  "minted b \<Longrightarrow> minted (catalog_iri K b i)" "minted b \<Longrightarrow> minted (dataset_iri K b i)"
  "minted b \<Longrightarrow> minted (service_iri K b i)"
  using minted_extend [of b "''/catalogs/'' @ url_encode K i"] minted_extend [of b "''/datasets/'' @ url_encode K i"]
    minted_extend [of b "''/services/'' @ url_encode K i"] path_text_encode
  by (simp_all add: catalog_iri_def dataset_iri_def service_iri_def unreserved_def)

lemma vocab_valid [simp]:
  "iri_valid K rdf_type" "iri_valid K (group_pred l)" "iri_valid K (odrl_policy_class k)"
  "iri_valid K sequence_index_pred" "iri_valid K logical_operator_pred" "iri_valid K participant_id_pred"
  "iri_valid K policy_id_pred" "iri_valid K odrl_left_operand_pred" "iri_valid K odrl_operator_pred"
  "iri_valid K odrl_right_operand_pred" "iri_valid K odrl_action_pred" "iri_valid K odrl_constraint_pred"
  "iri_valid K odrl_permission_pred" "iri_valid K odrl_prohibition_pred" "iri_valid K odrl_obligation_pred"
  "iri_valid K odrl_assigner_pred" "iri_valid K odrl_assignee_pred" "iri_valid K odrl_has_policy_pred"
  "iri_valid K dcat_catalog_class" "iri_valid K dcat_dataset_class" "iri_valid K dcat_distribution_class"
  "iri_valid K dcat_data_service_class" "iri_valid K dcat_dataset_pred" "iri_valid K dcat_service_pred"
  "iri_valid K dcat_distribution_pred" "iri_valid K dcat_access_service_pred"
  "iri_valid K dcat_endpoint_url_pred" "iri_valid K dcat_endpoint_description_pred" "iri_valid K dct_format_pred"
  by (cases l; cases k; simp add: vocabulary_valid VOCABULARY_def)+

lemma constraint_triples_valid: "minted n \<Longrightarrow> t \<in> set (constraint_triples K c n i) \<Longrightarrow> triple_valid K t"
proof (induction c arbitrary: n i t rule: constraint_induct)
  case (Logical l)
  then have "triple_valid K t" if "j < length (children l)"
    "t \<in> set (constraint_triples K (children l ! j) (constraint_iri n j) j)" for j
    using nth_mem that minted_constraint_iri by blast
  with Logical.prems show ?case
    by (auto simp: in_indexed minted_valid minted_constraint_iri)
qed (auto simp: minted_valid)

lemma opt_triple_valid:
  "iri_valid K n \<Longrightarrow> iri_valid K p \<Longrightarrow> (\<And>y. node_valid K (f y)) \<Longrightarrow> t \<in> set (opt_triple n p f x) \<Longrightarrow> triple_valid K t"
  by (auto simp: opt_triple_def split: option.splits)

lemma rules_triples_valid:
  "minted n \<Longrightarrow> path_text seg \<Longrightarrow> iri_valid K p \<Longrightarrow> t \<in> set (rules_triples K rs n p seg) \<Longrightarrow> triple_valid K t"
  by (auto simp: rules_triples_def rule_triples_def in_indexed minted_valid minted_rule_iri minted_constraint_iri
      dest!: constraint_triples_valid [rotated])

lemma policy_triples_valid: "minted n \<Longrightarrow> t \<in> set (policy_triples K p n i) \<Longrightarrow> triple_valid K t"
proof -
  assume n: "minted n" and t: "t \<in> set (policy_triples K p n i)"
  have paths: "path_text ''permissions''" "path_text ''prohibitions''" "path_text ''obligations''"
    by (simp_all add: unreserved_def)
  have rules: "s \<in> set (rules_triples K rs n (odrl q) seg) \<Longrightarrow> triple_valid K s"
    if "path_text seg" "iri_valid K (odrl q)" for s rs q seg
    using rules_triples_valid [OF n that] by blast
  have "triple_valid K s" if "s \<in> set (opt_triple n (odrl q) (iri_or_literal_term K) x)" "iri_valid K (odrl q)" for s q x
    using that opt_triple_valid [OF minted_valid [OF n] that(2) _ that(1)] by simp
  moreover have "triple_valid K s" if "s \<in> set (opt_triple n policy_id_pred string_literal x)" for s x
    using opt_triple_valid [OF minted_valid [OF n] _ _ that] by simp
  moreover have "t \<in> set (rules_triples K (permissions p) n odrl_permission_pred ''permissions'') \<Longrightarrow> triple_valid K t"
    "t \<in> set (rules_triples K (prohibitions p) n odrl_prohibition_pred ''prohibitions'') \<Longrightarrow> triple_valid K t"
    "t \<in> set (rules_triples K (obligations p) n odrl_obligation_pred ''obligations'') \<Longrightarrow> triple_valid K t"
    using rules [OF paths(1) vocab_valid(13)] rules [OF paths(2) vocab_valid(14)]
      rules [OF paths(3) vocab_valid(15)] by blast+
  ultimately show "triple_valid K t"
    using t n by (auto simp: policy_triples_def minted_valid simp del: pct_text.simps)
qed

lemma properties_valid: "iri_valid K n \<Longrightarrow> t \<in> set (write_properties K n m) \<Longrightarrow> triple_valid K t"
  by (auto simp: write_properties_def property_predicate_def property_iri_valid encode_pct)

lemma dataset_body_valid:
  assumes b: "minted b" and n: "minted n"
  shows "t \<in> set (dataset_body K b n i d) \<Longrightarrow> triple_valid K t"
proof -
  have "path_text ''policies''" "path_text ''distributions''"
    by (simp_all add: unreserved_def)
  then have "minted (rule_iri n ''policies'' j)" "minted (rule_iri n ''distributions'' j)" for j
    using minted_rule_iri n by blast+
  then show "t \<in> set (dataset_body K b n i d) \<Longrightarrow> triple_valid K t"
    by (auto simp: dataset_body_def distribution_links_def policy_links_def distribution_body_def in_indexed
        minted_valid n minted_resources b dest!: policy_triples_valid [rotated] properties_valid [rotated])
qed

lemma catalog_triples_valid: "t \<in> set (catalog_triples K c) \<Longrightarrow> triple_valid K t"
  using minted_base [of "origin_node c"]
  by (auto simp: catalog_triples_links Let_def dataset_links_def service_links_def service_body_def in_indexed
      minted_valid minted_resources dest!: properties_valid [rotated] opt_triple_valid [rotated 3]
      dataset_body_valid [rotated 2])

end


section \<open>The round trip\<close>

definition sample_policy :: policy where
  "sample_policy = \<lparr>policy_id = Some ''p 1'', kind = KindOffer, assigner = Some ''did:web:a'', assignee = None,
     permissions = [\<lparr>action = ''odrl:use'', constraints =
       [or_of [atomic ''region'' ''eq'' ''EU'', and_of []], atomic ''role'' ''eq'' ''x'']\<rparr>],
     prohibitions = [], obligations = []\<rparr>"

definition sample_catalog :: catalog where
  "sample_catalog = \<lparr>catalog_id = ''cat/1'', origin_node = ''node a'', participant_id = Some ''did:web:a'',
     datasets = [\<lparr>dataset_id = ''d/1'', ds_properties = [(''title'', ''Soil'')],
       distributions = [\<lparr>format = ''HttpData-PULL'', access_service = ''s''\<rparr>], policies = [sample_policy, sample_policy]\<rparr>],
     data_services = [\<lparr>service_id = ''s'', endpoint_url = ''not an iri'', endpoint_description = None\<rparr>],
     properties = []\<rparr>"

lemma sample_height: "height (or_of [atomic l op r, and_of []]) \<le> MAX_CONSTRAINT_DEPTH"
proof -
  have "height (or_of [atomic l op r, and_of []]) \<le> Suc 0"
    using height_Logical_le_0 [of "And []"] by (simp add: and_of_def)
  then show ?thesis by (rule order_trans) (simp add: MAX_CONSTRAINT_DEPTH_def)
qed

lemma sample_policy_ok: "policy_depth_ok sample_policy" "policy_vecs sample_policy"
  using sample_height
  by (simp_all add: sample_policy_def policy_depth_ok_def policy_rules_def rule_depth_ok_def policy_vecs_def
      rule_vecs_def vec_len_def or_of_def and_of_def atomic_def)

lemma sample_catalog_ok:
  "catalog_wf sample_catalog" "catalog_keys_ok percent_codec sample_catalog" "catalog_vecs sample_catalog"
  using sample_policy_ok
  by (simp_all add: sample_catalog_def catalog_wf_def catalog_depth_ok_def btree_ok_def catalog_keys_ok_def
      keys_ok_def catalog_vecs_def dataset_vecs_def vec_len_def rfc_iri_def)

text \<open>
  Claim C4. Storing a catalog loses nothing: its encoding succeeds, and any graph that holds exactly the encoded triples,
  in whatever order the store returns them, decodes to the same catalog, with every list in its original order and
  every nested constraint group intact. The catalog's ids must be unique, its constraints within the depth bound
  and its property keys free of the store's own predicates.
\<close>

theorem catalog_roundtrip:
  assumes "iri_codec K" "catalog_wf c" "catalog_keys_ok K c" "catalog_vecs c"
  shows "\<exists>ts. write_catalog K c = Inr ts \<and>
    (\<forall>qs. distinct qs \<and> set qs = set ts \<longrightarrow> load_catalog K (origin_node c) (snapshot_of qs) = Inr (Some c))"
  using load_catalog_ok [OF assms] write_catalog_ok assms(2) by (simp add: catalog_wf_def)

theorem catalog_roundtrip_witness:
  "\<exists>ts. write_catalog percent_codec sample_catalog = Inr ts \<and>
     load_catalog percent_codec ''node a'' (snapshot_of (remdups (rev ts))) = Inr (Some sample_catalog)"
proof -
  obtain ts where "write_catalog percent_codec sample_catalog = Inr ts"
    "\<forall>qs. distinct qs \<and> set qs = set ts \<longrightarrow>
       load_catalog percent_codec (origin_node sample_catalog) (snapshot_of qs) = Inr (Some sample_catalog)"
    using catalog_roundtrip [OF percent.iri_codec_axioms sample_catalog_ok] by blast
  moreover have "origin_node sample_catalog = ''node a''" by (simp add: sample_catalog_def)
  ultimately show ?thesis by auto
qed


text \<open>
  The condition on keys is needed: a key that is itself an IRI in the namespace reserved for keys that are not comes
  back as a different key, the one it encodes.
\<close>

theorem reserved_key_renamed:
  assumes "iri_codec K"
  shows "property_predicate K (INTERNAL_PROPERTY_PREFIX @ url_encode K k) = INTERNAL_PROPERTY_PREFIX @ url_encode K k \<and>
    decode_property_key K (property_predicate K (INTERNAL_PROPERTY_PREFIX @ url_encode K k)) = k"
  using iri_codec.property_iri_valid [OF assms iri_codec.encode_pct [OF assms]] iri_codec.decode_encode [OF assms]
  by (simp add: property_predicate_def decode_property_key_def)

end
