(* ===== verification/Catalog_Store.thy ===== *)
theory Catalog_Store
  imports Rdf_Minted "HOL-Library.Product_Lexorder"
begin

text \<open>
  The catalog cache: the trait of \<open>crates/rdf-store/src/cache.rs\<close> as the locale \<open>catalog_cache\<close>, and its Oxigraph
  implementation in \<open>oxigraph_backend/mod.rs\<close> (\<open>snapshots\<close>, \<open>catalogs\<close>, \<open>store_catalog\<close>, \<open>remove_catalog\<close>), interpreted.
  Oxigraph's transactional quad store is external: a state is the list of its quads in the order a scan
  returns them, a transaction replaces that list in one step or, when the storage reports a fault, not at
  all.
\<close>

section \<open>The interface\<close>

record catalog_query =
  q_origin :: "node_id option"
  q_offset :: nat
  q_limit :: "nat option"

definition query_all :: catalog_query where
  "query_all = \<lparr>q_origin = None, q_offset = 0, q_limit = None\<rparr>"

definition query_for_node :: "node_id \<Rightarrow> catalog_query" where
  "query_for_node n = \<lparr>q_origin = Some n, q_offset = 0, q_limit = None\<rparr>"

definition catalog_key :: "catalog \<Rightarrow> string \<times> string" where
  "catalog_key c = (catalog_id c, origin_node c)"

definition paginate :: "catalog_query \<Rightarrow> 'a list \<Rightarrow> 'a list" where
  "paginate q xs = (let skipped = drop (q_offset q) xs in case q_limit q of Some n \<Rightarrow> take n skipped | None \<Rightarrow> skipped)"

text \<open>
  What the trait promises: a cache state stands for one catalog per origin node; an upsert of a storable catalog
  replaces that node's catalog only, a failing one changes nothing; a delete removes one and reports
  whether it was there; a query returns what is stored, in a fixed order.
\<close>

locale catalog_cache =
  fixes upsert :: "catalog \<Rightarrow> 's \<Rightarrow> (store_error + unit) \<times> 's"
    and query :: "catalog_query \<Rightarrow> 's \<Rightarrow> store_error + catalog list"
    and delete :: "node_id \<Rightarrow> 's \<Rightarrow> (store_error + bool) \<times> 's"
    and holds :: "'s \<Rightarrow> (node_id \<Rightarrow> catalog option) \<Rightarrow> bool"
    and good :: "catalog \<Rightarrow> bool"
  assumes upsert_good: "holds s m \<Longrightarrow> good c \<Longrightarrow> upsert c s = (r, s') \<Longrightarrow>
      r = Inr () \<and> holds s' (m(origin_node c \<mapsto> c))"
    and upsert_failed: "holds s m \<Longrightarrow> upsert c s = (Inl e, s') \<Longrightarrow> holds s' m"
    and delete_any: "holds s m \<Longrightarrow> delete n s = (b, s') \<Longrightarrow> b = Inr (m n \<noteq> None) \<and> holds s' (m(n := None))"
    and query_node: "holds s m \<Longrightarrow> query (query_for_node n) s = Inr (case m n of Some c \<Rightarrow> [c] | None \<Rightarrow> [])"
    and query_every: "holds s m \<Longrightarrow>
      \<exists>xs. query query_all s = Inr xs \<and> set xs = ran m \<and> distinct xs \<and> sorted (map catalog_key xs)"
    and stored_origin: "holds s m \<Longrightarrow> m n = Some c \<Longrightarrow> origin_node c = n"
begin

text \<open>Re-crawling a node replaces its catalog and no other.\<close>

lemma query_after_upsert:
  assumes "holds s m" "good c" "upsert c s = (r, s')"
  shows "query (query_for_node n) s' =
    (if n = origin_node c then Inr [c] else query (query_for_node n) s)"
  using query_node [of s' "m(origin_node c \<mapsto> c)" n] query_node [OF assms(1), of n] upsert_good [OF assms]
  by simp

lemma query_after_delete:
  assumes "holds s m" "delete n s = (r, s')"
  shows "query (query_for_node k) s' = (if k = n then Inr [] else query (query_for_node k) s)"
  using query_node [of s' "m(n := None)" k] query_node [OF assms(1), of k] delete_any [OF assms] by simp

text \<open>Two states that stand for the same catalogs answer the full query alike, in the same order.\<close>

lemma query_order_fixed:
  assumes "holds s m" "holds s' m"
  shows "query query_all s = query query_all s'"
proof -
  obtain xs ys where xs: "query query_all s = Inr xs" "set xs = ran m" "distinct xs" "sorted (map catalog_key xs)"
    and ys: "query query_all s' = Inr ys" "set ys = ran m" "distinct ys" "sorted (map catalog_key ys)"
    using query_every assms by metis
  have "inj_on catalog_key (ran m)"
    using stored_origin [OF assms(1)] by (auto simp: inj_on_def ran_def catalog_key_def)
  then have "distinct (map catalog_key ys)" using ys by (simp add: distinct_map)
  then have "xs = ys"
    using sorted_distinct_key_unique [of catalog_key xs ys] xs ys by simp
  with xs(1) ys(1) show ?thesis by simp
qed

end

section \<open>The quad store\<close>

datatype graph_name = DefaultGraph | GraphNode string | GraphBlank string

type_synonym quad = "graph_name \<times> triple"

record rdf_db =
  db_quads :: "quad list"
  write_sequence :: "64 word"

text \<open>Where the storage may fail; the transaction is then dropped without effect.\<close>

datatype fault = NoFault | StartFault string | TransactionFault string

fun entry_push :: "string \<Rightarrow> triple \<Rightarrow> (string \<times> graph_snapshot) list \<Rightarrow> (string \<times> graph_snapshot) list" where
  "entry_push n t [] = [(n, snapshot_push t empty_snapshot)]"
| "entry_push n t ((k, g) # gs) = (if k = n then (k, snapshot_push t g) # gs else (k, g) # entry_push n t gs)"

text \<open>
  \<open>snapshots_until\<close>: the quads of the named graphs grouped by graph. \<open>cancelled i\<close> is what the callback
  answers at the \<open>i\<close>-th quad, asked at every 4096th.
\<close>

fun snapshots_until ::
    "(nat \<Rightarrow> bool) \<Rightarrow> nat \<Rightarrow> quad list \<Rightarrow> (string \<times> graph_snapshot) list \<Rightarrow> (string \<times> graph_snapshot) list option" where
  "snapshots_until cancelled i [] gs = Some gs"
| "snapshots_until cancelled i ((name, t) # qs) gs =
     (if i mod 4096 = 0 \<and> cancelled i then None
      else snapshots_until cancelled (Suc i) qs
        (case name of GraphNode n \<Rightarrow> entry_push n t gs | _ \<Rightarrow> gs))"

definition snapshots :: "string option \<Rightarrow> quad list \<Rightarrow> (string \<times> graph_snapshot) list" where
  "snapshots graph qs =
     (case snapshots_until (\<lambda>_. False) 0
         (case graph of Some n \<Rightarrow> filter (\<lambda>(g, t). g = GraphNode n) qs | None \<Rightarrow> qs) [] of
        Some gs \<Rightarrow> gs
      | None \<Rightarrow> [])"

definition snapshot :: "string \<Rightarrow> quad list \<Rightarrow> graph_snapshot" where
  "snapshot graph qs =
     (case map_of (snapshots (Some graph) qs) graph of Some g \<Rightarrow> g | None \<Rightarrow> empty_snapshot)"

definition catalogs :: "codec \<Rightarrow> catalog_query \<Rightarrow> quad list \<Rightarrow> store_error + catalog list" where
  "catalogs K q qs =
     rbind (case q_origin q of
         Some n \<Rightarrow>
           rbind (load_catalog K n (snapshot (node_iri K n) qs))
             (\<lambda>r. Inr (case r of Some c \<Rightarrow> [c] | None \<Rightarrow> []))
       | None \<Rightarrow>
           Inr (somes (map (\<lambda>(graph_iri, g).
             case decode_node_id K graph_iri of
               Inl e \<Rightarrow> None
             | Inr n \<Rightarrow> (case load_catalog K n g of Inr r \<Rightarrow> r | Inl e \<Rightarrow> None)) (snapshots None qs))))
       (\<lambda>results. Inr (paginate q (sort_key catalog_key results)))"

definition replace_graph :: "graph_name \<Rightarrow> triple list \<Rightarrow> quad list \<Rightarrow> quad list" where
  "replace_graph name ts qs = filter (\<lambda>(g, t). g \<noteq> name) qs @ map (Pair name) (remdups ts)"

definition store_catalog ::
    "codec \<Rightarrow> fault \<Rightarrow> catalog \<Rightarrow> rdf_db \<Rightarrow> (store_error + unit) \<times> rdf_db" where
  "store_catalog K fault c db =
     (case write_catalog K c of
        Inl e \<Rightarrow> (Inl e, db)
      | Inr ts \<Rightarrow>
          (case fault of
             StartFault msg \<Rightarrow> (Inl (Backend msg), db)
           | TransactionFault msg \<Rightarrow> (Inl (Backend msg), db\<lparr>write_sequence := write_sequence db + 2\<rparr>)
           | NoFault \<Rightarrow>
               (Inr (), db\<lparr>db_quads := replace_graph (GraphNode (node_iri K (origin_node c))) ts (db_quads db),
                  write_sequence := write_sequence db + 2\<rparr>)))"

definition remove_catalog ::
    "codec \<Rightarrow> fault \<Rightarrow> node_id \<Rightarrow> rdf_db \<Rightarrow> (store_error + bool) \<times> rdf_db" where
  "remove_catalog K fault n db =
     (let graph = GraphNode (node_iri K n); existed = list_ex (\<lambda>(g, t). g = graph) (db_quads db)
      in case fault of
           StartFault msg \<Rightarrow> (Inl (Backend msg), db)
         | _ \<Rightarrow>
             if \<not> existed then (Inr False, db)
             else (case fault of
                 TransactionFault msg \<Rightarrow> (Inl (Backend msg), db\<lparr>write_sequence := write_sequence db + 2\<rparr>)
               | _ \<Rightarrow> (Inr True, db\<lparr>db_quads := replace_graph graph [] (db_quads db),
                        write_sequence := write_sequence db + 2\<rparr>)))"

section \<open>Grouping\<close>

definition graph_triples :: "string \<Rightarrow> quad list \<Rightarrow> triple list" where
  "graph_triples n qs = map snd (filter (\<lambda>(g, t). g = GraphNode n) qs)"

lemma graph_triples_simps [simp]:
  "graph_triples n [] = []"
  "graph_triples n ((g, t) # qs) = (if g = GraphNode n then t # graph_triples n qs else graph_triples n qs)"
  by (simp_all add: graph_triples_def)

lemma in_graph_triples: "t \<in> set (graph_triples n qs) \<longleftrightarrow> (GraphNode n, t) \<in> set qs"
  by (force simp: graph_triples_def)

lemma distinct_graph_triples: "distinct qs \<Longrightarrow> distinct (graph_triples n qs)"
  by (induction qs) (auto simp: in_graph_triples)

lemma map_of_entry_push:
  "map_of (entry_push n t gs) k =
     (if k = n then Some (snapshot_push t (case map_of gs n of Some g \<Rightarrow> g | None \<Rightarrow> empty_snapshot)) else map_of gs k)"
  by (induction gs) (auto split: option.splits)

lemma distinct_entry_push: "distinct (map fst gs) \<Longrightarrow> distinct (map fst (entry_push n t gs))"
proof -
  have "fst ` set (entry_push n t gs) = insert n (fst ` set gs)" for gs
  proof (induction gs)
    case (Cons kg gs)
    then show ?case by (cases kg) (simp add: insert_commute)
  qed simp
  then show "distinct (map fst gs) \<Longrightarrow> distinct (map fst (entry_push n t gs))"
    by (induction gs) auto
qed

lemma snapshots_until_grouping:
  "\<exists>gs'. snapshots_until (\<lambda>_. False) i qs gs = Some gs' \<and>
    (distinct (map fst gs) \<longrightarrow> distinct (map fst gs')) \<and>
    (\<forall>n. map_of gs' n =
       (if graph_triples n qs = [] then map_of gs n
        else Some (fold snapshot_push (graph_triples n qs)
          (case map_of gs n of Some g \<Rightarrow> g | None \<Rightarrow> empty_snapshot))))"
proof (induction qs arbitrary: i gs)
  case (Cons q qs)
  obtain g t where q: "q = (g, t)" by (cases q)
  show ?case
  proof (cases g)
    case (GraphNode n)
    from Cons.IH [of "Suc i" "entry_push n t gs"] obtain gs' where
      "snapshots_until (\<lambda>_. False) (Suc i) qs (entry_push n t gs) = Some gs'"
      "distinct (map fst gs) \<longrightarrow> distinct (map fst gs')"
      "\<forall>k. map_of gs' k = (if graph_triples k qs = [] then map_of (entry_push n t gs) k
        else Some (fold snapshot_push (graph_triples k qs)
          (case map_of (entry_push n t gs) k of Some g \<Rightarrow> g | None \<Rightarrow> empty_snapshot)))"
      using distinct_entry_push by blast
    then show ?thesis using q GraphNode by (simp add: map_of_entry_push)
  next
    case DefaultGraph
    then show ?thesis using Cons.IH [of "Suc i" gs] by (simp add: q DefaultGraph split del: if_split cong: if_cong)
  next
    case (GraphBlank b)
    then show ?thesis using Cons.IH [of "Suc i" gs] by (simp add: q GraphBlank split del: if_split cong: if_cong)
  qed
qed simp

lemma map_of_snapshots:
  "map_of (snapshots None qs) n =
     (if graph_triples n qs = [] then None else Some (snapshot_of (graph_triples n qs)))"
  "distinct (map fst (snapshots None qs))"
  using snapshots_until_grouping [of 0 qs "[]"] by (auto simp: snapshots_def snapshot_of_def)

lemma snapshot_eq: "snapshot n qs = snapshot_of (graph_triples n qs)"
proof -
  have "graph_triples n (filter (\<lambda>(g, t). g = GraphNode n) qs) = graph_triples n qs"
    by (simp add: graph_triples_def)
  then show ?thesis
    using snapshots_until_grouping [of 0 "filter (\<lambda>(g, t). g = GraphNode n) qs" "[]"]
    by (auto simp: snapshot_def snapshots_def snapshot_of_def)
qed

section \<open>The store stands for a map of catalogs\<close>

definition storable :: "codec \<Rightarrow> catalog \<Rightarrow> bool" where
  "storable K c \<longleftrightarrow> catalog_wf c \<and> catalog_keys_ok K c \<and> catalog_vecs c"

definition represents :: "codec \<Rightarrow> rdf_db \<Rightarrow> (node_id \<Rightarrow> catalog option) \<Rightarrow> bool" where
  "represents K db m \<longleftrightarrow>
     distinct (db_quads db) \<and>
     (\<forall>g t. (g, t) \<in> set (db_quads db) \<longleftrightarrow>
        (\<exists>n c. m n = Some c \<and> g = GraphNode (node_iri K n) \<and> t \<in> set (catalog_triples K c))) \<and>
     (\<forall>n c. m n = Some c \<longrightarrow> origin_node c = n \<and> storable K c)"

definition empty_db :: rdf_db where
  "empty_db = \<lparr>db_quads = [], write_sequence = 0\<rparr>"

lemma represents_empty: "represents K empty_db (\<lambda>_. None)"
  by (simp add: represents_def empty_db_def)

lemma distinct_replace: "distinct qs \<Longrightarrow> distinct (replace_graph g ts qs)"
  by (auto simp: replace_graph_def distinct_map inj_on_def)

lemma in_replace: "(g, t) \<in> set (replace_graph name ts qs) \<longleftrightarrow> (if g = name then t \<in> set ts else (g, t) \<in> set qs)"
  by (auto simp: replace_graph_def)

context iri_codec
begin

lemma node_iri_inject: "node_iri K a = node_iri K b \<longleftrightarrow> a = b"
  by (simp add: node_iri_def node_base_def encode_inject)

lemma decode_node_iri: "decode_node_id K (node_iri K n) = Inr n"
  by (simp add: decode_node_id_def node_iri_def node_base_def strip_encoded)

lemma represents_replace:
  assumes "represents K db m" "origin_node c = n" "storable K c"
  shows "represents K (db\<lparr>db_quads := replace_graph (GraphNode (node_iri K n)) (catalog_triples K c) (db_quads db),
    write_sequence := w\<rparr>) (m(n \<mapsto> c))"
  using assms by (auto simp: represents_def distinct_replace in_replace node_iri_inject split: if_splits)

lemma represents_remove:
  assumes "represents K db m"
  shows "represents K (db\<lparr>db_quads := replace_graph (GraphNode (node_iri K n)) [] (db_quads db),
    write_sequence := w\<rparr>) (m(n := None))"
  using assms by (auto simp: represents_def distinct_replace in_replace node_iri_inject split: if_splits)

lemma catalog_triples_not_Nil: "catalog_triples K c \<noteq> []"
  by (simp add: catalog_triples_def Let_def)

lemma represented_graph:
  assumes "represents K db m"
  shows "distinct (graph_triples (node_iri K n) (db_quads db))"
    and "set (graph_triples (node_iri K n) (db_quads db)) = (case m n of Some c \<Rightarrow> set (catalog_triples K c) | None \<Rightarrow> {})"
proof -
  show "distinct (graph_triples (node_iri K n) (db_quads db))"
    using assms distinct_graph_triples by (simp add: represents_def)
  have "t \<in> set (graph_triples (node_iri K n) (db_quads db)) \<longleftrightarrow>
      t \<in> (case m n of Some c \<Rightarrow> set (catalog_triples K c) | None \<Rightarrow> {})" for t
    using assms by (auto simp: represents_def in_graph_triples node_iri_inject split: option.splits)
  then show "set (graph_triples (node_iri K n) (db_quads db)) = (case m n of Some c \<Rightarrow> set (catalog_triples K c) | None \<Rightarrow> {})"
    by (rule set_eqI)
qed

lemma represented_load:
  assumes "represents K db m" "m n = Some c"
  shows "load_catalog K n (snapshot_of (graph_triples (node_iri K n) (db_quads db))) = Inr (Some c)"
proof -
  have "origin_node c = n" "catalog_wf c" "catalog_keys_ok K c" "catalog_vecs c"
    using assms by (auto simp: represents_def storable_def)
  then show ?thesis
    using load_catalog_ok [OF iri_codec_axioms, of c "graph_triples (node_iri K n) (db_quads db)"]
      represented_graph [OF assms(1), of n] assms(2) by simp
qed

lemma load_empty: "load_catalog K n (snapshot_of []) = Inr None"
  by (simp add: load_catalog_def matching_quads_filter)

lemma query_node_ok:
  assumes "represents K db m"
  shows "catalogs K (query_for_node n) (db_quads db) = Inr (case m n of Some c \<Rightarrow> [c] | None \<Rightarrow> [])"
proof (cases "m n")
  case None
  then have "graph_triples (node_iri K n) (db_quads db) = []"
    using represented_graph(2) [OF assms, of n] by simp
  with None show ?thesis
    by (simp add: catalogs_def query_for_node_def snapshot_eq load_empty paginate_def Let_def)
next
  case (Some c)
  then show ?thesis
    using represented_load [OF assms Some]
    by (simp add: catalogs_def query_for_node_def snapshot_eq paginate_def Let_def)
qed

text \<open>The snapshots of a scan are the graphs of the stored catalogs, each decoded to its catalog.\<close>

lemma represented_snapshot:
  assumes rep: "represents K db m" and e: "(k, g) \<in> set (snapshots None (db_quads db))"
  shows "\<exists>n c. k = node_iri K n \<and> m n = Some c \<and> load_catalog K n g = Inr (Some c)"
proof -
  have "map_of (snapshots None (db_quads db)) k = Some g" using e map_of_snapshots(2) by simp
  then have g: "g = snapshot_of (graph_triples k (db_quads db))" "graph_triples k (db_quads db) \<noteq> []"
    by (auto simp: map_of_snapshots split: if_splits)
  then obtain t where "t \<in> set (graph_triples k (db_quads db))" by (meson last_in_set)
  then obtain n c where "m n = Some c" "k = node_iri K n"
    using rep by (auto simp: represents_def in_graph_triples)
  then show ?thesis using g(1) represented_load [OF rep] by auto
qed

lemma snapshot_of_stored:
  assumes rep: "represents K db m" and n: "m n = Some c"
  shows "\<exists>g. (node_iri K n, g) \<in> set (snapshots None (db_quads db)) \<and> load_catalog K n g = Inr (Some c)"
proof -
  have "graph_triples (node_iri K n) (db_quads db) \<noteq> []"
    using represented_graph(2) [OF rep, of n] n catalog_triples_not_Nil [of c] by auto
  then have "(node_iri K n, snapshot_of (graph_triples (node_iri K n) (db_quads db))) \<in> set (snapshots None (db_quads db))"
    by (intro map_of_SomeD) (simp add: map_of_snapshots)
  then show ?thesis using represented_load [OF rep n] by blast
qed

lemma query_every_ok:
  assumes rep: "represents K db m"
  shows "\<exists>xs. catalogs K query_all (db_quads db) = Inr xs \<and> set xs = ran m \<and> distinct xs \<and>
    sorted (map catalog_key xs)"
proof -
  let ?gs = "snapshots None (db_quads db)"
  define load where "load = (\<lambda>(graph_iri, g). case decode_node_id K graph_iri of
      Inl e \<Rightarrow> None | Inr n \<Rightarrow> (case load_catalog K n g of Inr r \<Rightarrow> r | Inl e \<Rightarrow> None))"
  have entry: "\<exists>n c. fst e = node_iri K n \<and> m n = Some c \<and> load e = Some c" if e: "e \<in> set ?gs" for e
    using represented_snapshot [OF rep, of "fst e" "snd e"] e by (cases e) (auto simp: load_def decode_node_iri)
  then have "somes (map load ?gs) = somes (map (\<lambda>e. Some (the (load e))) ?gs)"
    by (intro arg_cong [where f = somes] map_cong refl) fastforce
  then have somes: "somes (map load ?gs) = map (\<lambda>e. the (load e)) ?gs"
    by simp
  have inj: "inj_on (\<lambda>e. the (load e)) (set ?gs)"
  proof (rule inj_onI)
    fix e f assume e: "e \<in> set ?gs" and f: "f \<in> set ?gs" and eq: "the (load e) = the (load f)"
    obtain n c where n: "fst e = node_iri K n" "m n = Some c" "load e = Some c" using entry [OF e] by blast
    obtain k d where k: "fst f = node_iri K k" "m k = Some d" "load f = Some d" using entry [OF f] by blast
    have "n = k" using rep n k eq unfolding represents_def by (metis option.sel)
    then have "fst e = fst f" using n(1) k(1) by simp
    then show "e = f" using e f map_of_snapshots(2) by (metis eq_key_imp_eq_value prod.collapse)
  qed
  have "set (somes (map load ?gs)) = ran m"
  proof
    show "set (somes (map load ?gs)) \<subseteq> ran m"
      using entry by (fastforce simp: somes ran_def)
    show "ran m \<subseteq> set (somes (map load ?gs))"
    proof
      fix c assume "c \<in> ran m"
      then obtain n where "m n = Some c" by (auto simp: ran_def)
      then obtain g where g: "(node_iri K n, g) \<in> set ?gs" "load_catalog K n g = Inr (Some c)"
        using snapshot_of_stored [OF rep] by blast
      then have "load (node_iri K n, g) = Some c" by (simp add: load_def decode_node_iri)
      then show "c \<in> set (somes (map load ?gs))" using g(1) by (force simp: set_somes)
    qed
  qed
  moreover have "distinct (somes (map load ?gs))"
    using inj map_of_snapshots(2) [of "db_quads db"] by (simp add: somes distinct_map)
  ultimately show ?thesis
    by (simp add: catalogs_def query_all_def paginate_def load_def [symmetric])
qed

sublocale store: catalog_cache "store_catalog K NoFault" "\<lambda>q db. catalogs K q (db_quads db)"
  "remove_catalog K NoFault" "represents K" "storable K"
proof
  fix s m c r s'
  assume h: "represents K s m" "storable K c" "store_catalog K NoFault c s = (r, s')"
  then show "r = Inr () \<and> represents K s' (m(origin_node c \<mapsto> c))"
    using represents_replace [OF h(1) refl h(2)]
    by (auto simp: store_catalog_def write_catalog_ok storable_def catalog_wf_def)
next
  fix s m c e s'
  assume "represents K s m" "store_catalog K NoFault c s = (Inl e, s')"
  then show "represents K s' m"
    by (auto simp: store_catalog_def represents_def split: sum.splits)
next
  fix s m n r s'
  assume h: "represents K s m" "remove_catalog K NoFault n s = (r, s')"
  have "list_ex (\<lambda>(g, t). g = GraphNode (node_iri K n)) (db_quads s)
      \<longleftrightarrow> set (graph_triples (node_iri K n) (db_quads s)) \<noteq> {}"
    by (force simp: list_ex_iff graph_triples_def)
  also have "\<dots> \<longleftrightarrow> m n \<noteq> None"
    using represented_graph(2) [OF h(1), of n] catalog_triples_not_Nil by (cases "m n") auto
  finally have "list_ex (\<lambda>(g, t). g = GraphNode (node_iri K n)) (db_quads s) \<longleftrightarrow> m n \<noteq> None" .
  then show "r = Inr (m n \<noteq> None) \<and> represents K s' (m(n := None))"
    using h represents_remove [OF h(1)]
    by (auto simp: remove_catalog_def Let_def fun_upd_idem split: if_splits)
next
  fix s m n c
  assume "represents K s m" "m n = Some c"
  then show "origin_node c = n" by (auto simp: represents_def)
qed (use query_node_ok query_every_ok in auto)

lemma cache_laws: "catalog_cache (store_catalog K NoFault) (\<lambda>q db. catalogs K q (db_quads db))
    (remove_catalog K NoFault) (represents K) (storable K)"
  by (rule store.catalog_cache_axioms)

end

end
