(* ===== verification/Sparql_View.thy ===== *)
theory Sparql_View
  imports Catalog_Store
begin

text \<open>
  What a SPARQL caller restricted to an allow-list of resources can read:
  \<open>crates/rdf-store/src/oxigraph_backend/sparql.rs\<close>, the visibility of a quad and the lookups of
  \<open>VisibleDataset\<close>. The lemmas show that the lookups read exactly the visible quads, and that a dataset or
  service off the list leaves no trace in them.
\<close>

section \<open>Visibility\<close>

definition owning_resource_iri :: "string \<Rightarrow> string option" where
  "owning_resource_iri i =
     (case strip_prefix NODE_NS i of
        None \<Rightarrow> None
      | Some rest \<Rightarrow>
          (case split_once (CHR ''/'') rest of
             None \<Rightarrow> None
           | Some (n, tail) \<Rightarrow>
               (case (case split_once (CHR ''/'') tail of Some ka \<Rightarrow> ka | None \<Rightarrow> (tail, [])) of
                  (k, after_kind) \<Rightarrow>
                    if k = ''catalogs'' then None
                    else if (k = ''datasets'' \<or> k = ''services'') \<and> length tail > length k then
                      Some (take (length NODE_NS + length n + 1 + length k + 1
                        + length (hd (split_on (CHR ''/'') after_kind))) i)
                    else Some i)))"

definition SEQUENCE_INDEX_IRI :: string where
  "SEQUENCE_INDEX_IRI = ''https://federated-catalog-rs.internal/ns#sequenceIndex''"

definition iri_is_visible :: "string \<Rightarrow> string set \<Rightarrow> bool" where
  "iri_is_visible i visible = (case owning_resource_iri i of None \<Rightarrow> True | Some r \<Rightarrow> r \<in> visible)"

definition quad_is_visible :: "quad \<Rightarrow> string set \<Rightarrow> bool" where
  "quad_is_visible q visible =
     (if pred (snd q) = SEQUENCE_INDEX_IRI then False
      else (case subj (snd q) of NamedNode i \<Rightarrow> iri_is_visible i visible | _ \<Rightarrow> True) \<and>
           (case obj (snd q) of NamedNode i \<Rightarrow> iri_is_visible i visible | BlankNode b \<Rightarrow> True | Literal v t \<Rightarrow> True))"

section \<open>Lookups\<close>

text \<open>
  A lookup of the evaluator: subject, predicate, object, and the graph (\<open>None\<close> any named graph, \<open>Some None\<close> the
  default one).
\<close>

type_synonym pattern = "rdf_term option \<times> rdf_term option \<times> rdf_term option \<times> rdf_term option option"

text \<open>\<open>Store::quads_for_pattern\<close>.\<close>

definition quads_for_pattern ::
    "rdf_term option \<Rightarrow> string option \<Rightarrow> rdf_term option \<Rightarrow> graph_name option \<Rightarrow> quad list \<Rightarrow> quad list" where
  "quads_for_pattern s p v g qs =
     filter (\<lambda>(name, t). (case s of None \<Rightarrow> True | Some s' \<Rightarrow> subj t = s') \<and>
         (case p of None \<Rightarrow> True | Some p' \<Rightarrow> pred t = p') \<and>
         (case v of None \<Rightarrow> True | Some v' \<Rightarrow> obj t = v') \<and>
         (case g of None \<Rightarrow> True | Some g' \<Rightarrow> name = g')) qs"

text \<open>A bound term that cannot stand in its position; the outer \<open>None\<close> matches nothing.\<close>

fun subject_term :: "rdf_term option \<Rightarrow> rdf_term option option" where
  "subject_term None = Some None"
| "subject_term (Some (NamedNode n)) = Some (Some (NamedNode n))"
| "subject_term (Some (BlankNode b)) = Some (Some (BlankNode b))"
| "subject_term (Some (Literal v t)) = None"

fun predicate_term :: "rdf_term option \<Rightarrow> string option option" where
  "predicate_term None = Some None"
| "predicate_term (Some (NamedNode n)) = Some (Some n)"
| "predicate_term (Some (BlankNode b)) = None"
| "predicate_term (Some (Literal v t)) = None"

fun graph_term :: "rdf_term option option \<Rightarrow> graph_name option option" where
  "graph_term None = Some None"
| "graph_term (Some None) = Some (Some DefaultGraph)"
| "graph_term (Some (Some (NamedNode n))) = Some (Some (GraphNode n))"
| "graph_term (Some (Some (BlankNode b))) = Some (Some (GraphBlank b))"
| "graph_term (Some (Some (Literal v t))) = None"

definition bound_iri_hidden :: "string set \<Rightarrow> rdf_term option \<Rightarrow> rdf_term option \<Rightarrow> bool" where
  "bound_iri_hidden visible s v =
     list_ex (\<lambda>x. case x of NamedNode i \<Rightarrow> \<not> iri_is_visible i visible | _ \<Rightarrow> False)
       ((case subject_term s of Some (Some x) \<Rightarrow> [x] | _ \<Rightarrow> []) @
        (case v of Some (NamedNode i) \<Rightarrow> [NamedNode i] | _ \<Rightarrow> []))"

definition internal_quads_for_pattern :: "string set \<Rightarrow> pattern \<Rightarrow> quad list \<Rightarrow> quad list" where
  "internal_quads_for_pattern visible pat qs =
     (case pat of (s, p, v, g) \<Rightarrow>
        let quads =
          (if bound_iri_hidden visible s v then []
           else case (subject_term s, predicate_term p, graph_term g) of
                  (Some s', Some p', Some g') \<Rightarrow> quads_for_pattern s' p' v g' qs
                | _ \<Rightarrow> [])
        in filter (\<lambda>q. \<not> (g = None \<and> fst q = DefaultGraph) \<and> quad_is_visible q visible) quads)"

definition graph_holds_a_catalog :: "quad list \<Rightarrow> graph_name \<Rightarrow> bool" where
  "graph_holds_a_catalog qs g =
     (quads_for_pattern None (Some rdf_type) (Some (NamedNode dcat_catalog_class)) (Some g) qs \<noteq> [])"

text \<open>\<open>Store::named_graphs\<close>.\<close>

definition named_graphs :: "quad list \<Rightarrow> graph_name list" where
  "named_graphs qs = remdups (filter (\<lambda>g. g \<noteq> DefaultGraph) (map fst qs))"

fun graph_as_term :: "graph_name \<Rightarrow> rdf_term option" where
  "graph_as_term DefaultGraph = None"
| "graph_as_term (GraphNode n) = Some (NamedNode n)"
| "graph_as_term (GraphBlank b) = Some (BlankNode b)"

definition internal_named_graphs :: "quad list \<Rightarrow> rdf_term list" where
  "internal_named_graphs qs = somes (map graph_as_term (filter (graph_holds_a_catalog qs) (named_graphs qs)))"

fun contains_internal_graph_name :: "rdf_term \<Rightarrow> quad list \<Rightarrow> bool" where
  "contains_internal_graph_name (NamedNode n) qs = graph_holds_a_catalog qs (GraphNode n)"
| "contains_internal_graph_name (BlankNode b) qs = graph_holds_a_catalog qs (GraphBlank b)"
| "contains_internal_graph_name (Literal v t) qs = False"

section \<open>A lookup reads the visible quads\<close>

text \<open>Answering a hidden bound term without reading the store loses nothing.\<close>

lemma hidden_bound_matches_nothing:
  assumes "bound_iri_hidden visible s v" "subject_term s = Some s'"
    "q \<in> set (quads_for_pattern s' p v g qs)"
  shows "\<not> quad_is_visible q visible"
  using assms
  by (cases s rule: subject_term.cases; cases v)
    (auto simp: bound_iri_hidden_def quads_for_pattern_def quad_is_visible_def split: rdf_term.splits)

definition pattern_matches :: "pattern \<Rightarrow> quad \<Rightarrow> bool" where
  "pattern_matches pat q =
     (case pat of (s, p, v, g) \<Rightarrow>
        (s = None \<or> s = Some (subj (snd q))) \<and> (p = None \<or> p = Some (NamedNode (pred (snd q)))) \<and>
        (v = None \<or> v = Some (obj (snd q))) \<and>
        (case g of None \<Rightarrow> fst q \<noteq> DefaultGraph | Some g' \<Rightarrow> g' = graph_as_term (fst q)))"

definition rdf_quad :: "quad \<Rightarrow> bool" where
  "rdf_quad q = (case subj (snd q) of Literal v t \<Rightarrow> False | _ \<Rightarrow> True)"

definition opt_match :: "'a option \<Rightarrow> 'a \<Rightarrow> bool" where
  "opt_match m x = (case m of None \<Rightarrow> True | Some y \<Rightarrow> x = y)"

lemma subject_term_match:
  "rdf_quad q \<Longrightarrow> (\<exists>s'. subject_term s = Some s' \<and> opt_match s' (subj (snd q))) \<longleftrightarrow> (s = None \<or> s = Some (subj (snd q)))"
  by (cases s rule: subject_term.cases; cases "subj (snd q)") (auto simp: rdf_quad_def opt_match_def)

lemma predicate_term_match:
  "(\<exists>p'. predicate_term p = Some p' \<and> opt_match p' x) \<longleftrightarrow> (p = None \<or> p = Some (NamedNode x))"
  by (cases p rule: predicate_term.cases) (auto simp: opt_match_def)

lemma graph_term_match:
  "(\<exists>g'. graph_term g = Some g' \<and> opt_match g' x) \<and> \<not> (g = None \<and> x = DefaultGraph) \<longleftrightarrow>
   (case g of None \<Rightarrow> x \<noteq> DefaultGraph | Some g' \<Rightarrow> g' = graph_as_term x)"
  by (cases g rule: graph_term.cases; cases x) (auto simp: opt_match_def)

lemma in_quads_for_pattern:
  "q \<in> set (quads_for_pattern s p v g qs) \<longleftrightarrow>
   q \<in> set qs \<and> opt_match s (subj (snd q)) \<and> opt_match p (pred (snd q)) \<and> opt_match v (obj (snd q)) \<and> opt_match g (fst q)"
  by (cases q) (auto simp: quads_for_pattern_def opt_match_def split: option.splits)

lemma lookup_visible:
  assumes "rdf_quad q"
  shows "q \<in> set (internal_quads_for_pattern visible pat qs) \<longleftrightarrow>
    q \<in> set qs \<and> quad_is_visible q visible \<and> pattern_matches pat q"
proof -
  obtain s p v g where pat: "pat = (s, p, v, g)" by (metis prod_cases4)
  have "opt_match v (obj (snd q)) \<longleftrightarrow> v = None \<or> v = Some (obj (snd q))"
    by (auto simp: opt_match_def split: option.splits)
  then have match: "(\<exists>s' p' g'. subject_term s = Some s' \<and> predicate_term p = Some p' \<and> graph_term g = Some g' \<and>
      q \<in> set (quads_for_pattern s' p' v g' qs)) \<and> \<not> (g = None \<and> fst q = DefaultGraph) \<longleftrightarrow>
      q \<in> set qs \<and> pattern_matches pat q"
    using subject_term_match [OF assms, of s] predicate_term_match [of p "pred (snd q)"] graph_term_match [of g "fst q"]
    unfolding pat pattern_matches_def in_quads_for_pattern by auto
  have "q \<in> set (internal_quads_for_pattern visible pat qs) \<longleftrightarrow>
      \<not> bound_iri_hidden visible s v \<and> quad_is_visible q visible \<and>
      (\<exists>s' p' g'. subject_term s = Some s' \<and> predicate_term p = Some p' \<and> graph_term g = Some g' \<and>
      q \<in> set (quads_for_pattern s' p' v g' qs)) \<and> \<not> (g = None \<and> fst q = DefaultGraph)"
    by (cases "subject_term s"; cases "predicate_term p"; cases "graph_term g")
      (auto simp: pat internal_quads_for_pattern_def Let_def)
  then show ?thesis
    using match hidden_bound_matches_nothing by blast
qed

section \<open>Hidden resources leave no trace\<close>

context iri_codec
begin

lemma owner_of_resource:
  assumes "k = ''datasets'' \<or> k = ''services''" "under (node_base K n @ ''/'' @ k @ ''/'' @ url_encode K i) x"
  shows "owning_resource_iri x = Some (node_base K n @ ''/'' @ k @ ''/'' @ url_encode K i)"
proof -
  obtain p where x: "x = NODE_NS @ url_encode K n @ CHR ''/'' # k @ CHR ''/'' # url_encode K i @ p"
    and p: "p = [] \<or> (\<exists>p'. p = CHR ''/'' # p')"
    using under_form [of "node_base K n" "''/'' @ k @ ''/'' @ url_encode K i" x] assms(2) by (auto simp: node_base_def)
  have "CHR ''/'' \<notin> set k" using assms(1) by auto
  then have "split_once (CHR ''/'') (k @ CHR ''/'' # url_encode K i @ p) = Some (k, url_encode K i @ p)"
    by (rule split_once_append)
  moreover have "split_once (CHR ''/'') (url_encode K n @ CHR ''/'' # k @ CHR ''/'' # url_encode K i @ p)
      = Some (url_encode K n, k @ CHR ''/'' # url_encode K i @ p)"
    by (rule split_once_append [OF encode_no_slash])
  moreover have "hd (split_on (CHR ''/'') (url_encode K i @ p)) = url_encode K i"
    using p encode_no_slash [of i] by (auto simp: split_on_append split_on_no_sep)
  ultimately show ?thesis
    using assms(1) unfolding owning_resource_iri_def x
    by (auto simp: node_base_def)
qed

lemma dataset_owner:
  "under (dataset_iri K (node_base K n) i) x \<Longrightarrow> owning_resource_iri x = Some (dataset_resource_iri K n i)"
  using owner_of_resource [of "''datasets''" n i x] by (simp add: dataset_iri_def dataset_resource_iri_def)

lemma service_owner:
  "under (service_iri K (node_base K n) i) x \<Longrightarrow> owning_resource_iri x = Some (service_resource_iri K n i)"
  using owner_of_resource [of "''services''" n i x] by (simp add: service_iri_def service_resource_iri_def)

lemma catalog_owner: "owning_resource_iri (catalog_iri K (node_base K n) i) = None"
proof -
  have "split_once (CHR ''/'') (url_encode K n @ CHR ''/'' # ''catalogs'' @ CHR ''/'' # url_encode K i)
      = Some (url_encode K n, ''catalogs'' @ CHR ''/'' # url_encode K i)"
    by (rule split_once_append [OF encode_no_slash])
  then show ?thesis
    by (simp add: owning_resource_iri_def catalog_iri_def node_base_def)
qed


text \<open>
  The catalog as the caller may see it: hidden datasets and services taken out.
\<close>

end

definition restrict_catalog :: "codec \<Rightarrow> string set \<Rightarrow> catalog \<Rightarrow> catalog" where
  "restrict_catalog K visible c =
     c\<lparr>datasets := filter (\<lambda>d. dataset_resource_iri K (origin_node c) (dataset_id d) \<in> visible) (datasets c),
       data_services := filter (\<lambda>s. service_resource_iri K (origin_node c) (service_id s) \<in> visible) (data_services c)\<rparr>"

definition object_shown :: "string set \<Rightarrow> triple \<Rightarrow> bool" where
  "object_shown visible t = (case obj t of NamedNode i \<Rightarrow> iri_is_visible i visible | _ \<Rightarrow> True)"

definition shown :: "string set \<Rightarrow> triple \<Rightarrow> bool" where
  "shown visible t \<longleftrightarrow> pred t \<noteq> sequence_index_pred \<and> object_shown visible t"

lemma SEQUENCE_INDEX_IRI_eq: "SEQUENCE_INDEX_IRI = sequence_index_pred"
  by (simp add: SEQUENCE_INDEX_IRI_def internal_def INTERNAL_NS_def)

lemma quad_is_visible_shown:
  "quad_is_visible (g, t) visible \<longleftrightarrow>
   shown visible t \<and> (case subj t of NamedNode i \<Rightarrow> iri_is_visible i visible | _ \<Rightarrow> True)"
  by (auto simp: quad_is_visible_def shown_def object_shown_def SEQUENCE_INDEX_IRI_eq split: rdf_term.splits)

lemma dataset_body_index:
  "shown visible t \<Longrightarrow> t \<in> set (dataset_body K base n i d) \<longleftrightarrow> t \<in> set (dataset_body K base n j d)"
  by (auto simp: dataset_body_def shown_def)

lemma service_body_index:
  "shown visible t \<Longrightarrow> t \<in> set (service_body K n i s) \<longleftrightarrow> t \<in> set (service_body K n j s)"
  by (auto simp: service_body_def shown_def)

lemma in_indexed_any:
  assumes "\<And>i j x. P \<Longrightarrow> t \<in> set (f i x) \<longleftrightarrow> t \<in> set (f j x)" "P"
  shows "t \<in> set (indexed f xs) \<longleftrightarrow> (\<exists>x\<in>set xs. t \<in> set (f 0 x))"
  using assms by (metis in_indexed in_set_conv_nth)

lemma shown_dataset_links:
  "shown visible t \<Longrightarrow> t \<in> set (dataset_links K base cn ds) \<longleftrightarrow>
     (\<exists>d\<in>set ds. t = tr cn dcat_dataset_pred (NamedNode (dataset_iri K base (dataset_id d))) \<or>
       t \<in> set (dataset_body K base (dataset_iri K base (dataset_id d)) 0 d))"
  unfolding dataset_links_def
  by (subst in_indexed_any [where P = "shown visible t"]) (auto dest: dataset_body_index [THEN iffD1])

lemma shown_service_links:
  "shown visible t \<Longrightarrow> t \<in> set (service_links K base cn ss) \<longleftrightarrow>
     (\<exists>s\<in>set ss. t = tr cn dcat_service_pred (NamedNode (service_iri K base (service_id s))) \<or>
       t \<in> set (service_body K (service_iri K base (service_id s)) 0 s))"
  unfolding service_links_def
  by (subst in_indexed_any [where P = "shown visible t"]) (auto dest: service_body_index [THEN iffD1])

context iri_codec
begin

lemma dataset_part_visible:
  assumes "t = tr cn dcat_dataset_pred (NamedNode (dataset_iri K (node_base K n) i)) \<or>
      t \<in> set (dataset_body K (node_base K n) (dataset_iri K (node_base K n) i) 0 d)"
    "shown visible t" "owning_resource_iri cn = None"
  shows "quad_is_visible (g, t) visible \<longleftrightarrow> dataset_resource_iri K n i \<in> visible"
  using assms(1)
proof
  assume "t = tr cn dcat_dataset_pred (NamedNode (dataset_iri K (node_base K n) i))"
  then show ?thesis
    using assms dataset_owner [OF under_refl, of n i]
    by (auto simp: quad_is_visible_shown shown_def object_shown_def iri_is_visible_def)
next
  assume "t \<in> set (dataset_body K (node_base K n) (dataset_iri K (node_base K n) i) 0 d)"
  then have "subject_under (dataset_iri K (node_base K n) i) t" by (rule dataset_body_under)
  then show ?thesis
    using assms(2) dataset_owner
    by (fastforce simp: quad_is_visible_shown subject_under_def iri_is_visible_def split: rdf_term.splits)
qed

lemma service_part_visible:
  assumes "t = tr cn dcat_service_pred (NamedNode (service_iri K (node_base K n) i)) \<or>
      t \<in> set (service_body K (service_iri K (node_base K n) i) 0 s)"
    "shown visible t" "owning_resource_iri cn = None"
  shows "quad_is_visible (g, t) visible \<longleftrightarrow> service_resource_iri K n i \<in> visible"
  using assms(1)
proof
  assume "t = tr cn dcat_service_pred (NamedNode (service_iri K (node_base K n) i))"
  then show ?thesis
    using assms service_owner [OF under_refl, of n i]
    by (auto simp: quad_is_visible_shown shown_def object_shown_def iri_is_visible_def)
next
  assume "t \<in> set (service_body K (service_iri K (node_base K n) i) 0 s)"
  then have "subject_under (service_iri K (node_base K n) i) t" by (rule service_body_under)
  then show ?thesis
    using assms(2) service_owner
    by (fastforce simp: quad_is_visible_shown subject_under_def iri_is_visible_def split: rdf_term.splits)
qed

text \<open>What is visible of a catalog is what is shown of the restricted one.\<close>

lemma visible_catalog_triples:
  "t \<in> set (catalog_triples K c) \<and> quad_is_visible (g, t) visible \<longleftrightarrow>
   t \<in> set (catalog_triples K (restrict_catalog K visible c)) \<and> shown visible t"
proof (cases "shown visible t")
  case False
  then show ?thesis by (simp add: quad_is_visible_shown)
next
  case True
  let ?base = "node_base K (origin_node c)" and ?cn = "catalog_iri K (node_base K (origin_node c)) (catalog_id c)"
  have cn: "owning_resource_iri ?cn = None" by (rule catalog_owner)
  have head: "quad_is_visible (g, t) visible" if "\<exists>p v. t = tr ?cn p v"
    using that True cn by (auto simp: quad_is_visible_shown iri_is_visible_def)
  have opt: "\<exists>p v. t = tr ?cn p v" if "t \<in> set (opt_triple ?cn p string_literal x)" for p and x :: "string option"
    using that by (cases x) (auto simp: opt_triple_def)
  have ds: "t \<in> set (dataset_links K ?base ?cn (datasets c)) \<and> quad_is_visible (g, t) visible \<longleftrightarrow>
      t \<in> set (dataset_links K ?base ?cn (datasets (restrict_catalog K visible c)))"
    using dataset_part_visible [where t = t and g = g, OF _ True cn]
    unfolding shown_dataset_links [OF True] restrict_catalog_def by (simp, blast)
  have ss: "t \<in> set (service_links K ?base ?cn (data_services c)) \<and> quad_is_visible (g, t) visible \<longleftrightarrow>
      t \<in> set (service_links K ?base ?cn (data_services (restrict_catalog K visible c)))"
    using service_part_visible [where t = t and g = g, OF _ True cn]
    unfolding shown_service_links [OF True] restrict_catalog_def by (simp, blast)
  have same: "origin_node (restrict_catalog K visible c) = origin_node c" "catalog_id (restrict_catalog K visible c) = catalog_id c"
    "participant_id (restrict_catalog K visible c) = participant_id c" "properties (restrict_catalog K visible c) = properties c"
    by (simp_all add: restrict_catalog_def)
  show ?thesis
    using True ds ss head opt write_properties_under [of t K ?cn "properties c"]
    unfolding catalog_triples_links Let_def same by auto
qed

lemma catalog_triples_rdf:
  assumes "t \<in> set (catalog_triples K c)"
  shows "rdf_quad (g, t)"
proof -
  have base: "\<exists>n. under n x" for x using under_refl by blast
  have "\<exists>n. subject_under n t"
    using assms
    by (auto simp: catalog_triples_links Let_def dataset_links_def service_links_def in_indexed opt_triple_def
        split: option.splits dest!: dataset_body_under service_body_under write_properties_under intro: base)
  then show ?thesis by (auto simp: subject_under_def rdf_quad_def)
qed

end

lemma represented_quad:
  "represents K db m \<Longrightarrow> (g, t) \<in> set (db_quads db) \<longleftrightarrow>
   (\<exists>n c. m n = Some c \<and> g = GraphNode (node_iri K n) \<and> t \<in> set (catalog_triples K c))"
  by (simp add: represents_def)

lemma represented_catalog_graph:
  assumes "iri_codec K" "represents K db m"
  shows "graph_holds_a_catalog (db_quads db) g \<longleftrightarrow> (\<exists>n. m n \<noteq> None \<and> g = GraphNode (node_iri K n))"
proof -
  have "tr (catalog_iri K (node_base K (origin_node c)) (catalog_id c)) rdf_type (NamedNode dcat_catalog_class)
      \<in> set (catalog_triples K c)" for c
    by (simp add: catalog_triples_def Let_def)
  moreover have "graph_holds_a_catalog (db_quads db) g \<longleftrightarrow>
      (\<exists>t. (g, t) \<in> set (db_quads db) \<and> pred t = rdf_type \<and> obj t = NamedNode dcat_catalog_class)"
    by (auto simp: graph_holds_a_catalog_def in_quads_for_pattern opt_match_def filter_empty_conv
        quads_for_pattern_def)
  ultimately show ?thesis
    unfolding represented_quad [OF assms(2)] by (metis obj_tr(1,2) option.distinct(1) option.exhaust)
qed

lemma restricted_lookup:
  assumes "iri_codec K" "represents K db m"
  shows "q \<in> set (internal_quads_for_pattern visible pat (db_quads db)) \<longleftrightarrow>
    pattern_matches pat q \<and>
    (\<exists>n c. m n = Some c \<and> fst q = GraphNode (node_iri K n) \<and>
       snd q \<in> set (catalog_triples K (restrict_catalog K visible c)) \<and> shown visible (snd q))"
proof -
  obtain g t where q: "q = (g, t)" by (cases q)
  have rdf: "rdf_quad q" if "q \<in> set (db_quads db)"
    using that represented_quad [OF assms(2)] iri_codec.catalog_triples_rdf [OF assms(1)] by (auto simp: q)
  have "q \<in> set (internal_quads_for_pattern visible pat (db_quads db)) \<Longrightarrow> q \<in> set (db_quads db)"
    by (auto simp: internal_quads_for_pattern_def quads_for_pattern_def Let_def
        split: prod.splits option.splits if_splits)
  then have "q \<in> set (internal_quads_for_pattern visible pat (db_quads db)) \<longleftrightarrow>
      q \<in> set (db_quads db) \<and> quad_is_visible q visible \<and> pattern_matches pat q"
    using lookup_visible rdf by blast
  then show ?thesis
    using iri_codec.visible_catalog_triples [OF assms(1)] unfolding q represented_quad [OF assms(2)] by fastforce
qed

text \<open>
  What a restricted caller reads: a lookup returns exactly the matching triples of the catalogs with every
  dataset and service off the allow-list taken out, less position numbers and links to hidden resources.
\<close>

theorem restricted_lookup_exact:
  assumes "iri_codec K" "represents K db m"
  shows "q \<in> set (internal_quads_for_pattern visible pat (db_quads db)) \<longleftrightarrow>
    pattern_matches pat q \<and>
    (\<exists>n c. m n = Some c \<and> fst q = GraphNode (node_iri K n) \<and>
       snd q \<in> set (catalog_triples K (restrict_catalog K visible c)) \<and> shown visible (snd q))"
  by (rule restricted_lookup [OF assms])

text \<open>Restricting the catalogs changes no answer.\<close>

lemma hidden_lookups_equal:
  assumes "iri_codec K" "represents K db m"
    "represents K db' (\<lambda>n. map_option (restrict_catalog K visible) (m n))"
  shows "set (internal_quads_for_pattern visible pat (db_quads db)) = set (internal_quads_for_pattern visible pat (db_quads db')) \<and>
    set (internal_named_graphs (db_quads db)) = set (internal_named_graphs (db_quads db')) \<and>
    contains_internal_graph_name g (db_quads db) = contains_internal_graph_name g (db_quads db')"
proof -
  have twice: "restrict_catalog K visible (restrict_catalog K visible c) = restrict_catalog K visible c" for c
    by (simp add: restrict_catalog_def)
  have holds: "graph_holds_a_catalog (db_quads db) h = graph_holds_a_catalog (db_quads db') h" for h
    using represented_catalog_graph [OF assms(1,2)] represented_catalog_graph [OF assms(1,3)] by simp
  have "\<exists>t. (h, t) \<in> set qs" if "graph_holds_a_catalog qs h" for h qs
    using that by (auto simp: graph_holds_a_catalog_def quads_for_pattern_def filter_empty_conv)
  then have graphs: "set (internal_named_graphs qs) = {u. \<exists>h. graph_holds_a_catalog qs h \<and> graph_as_term h = Some u}" for qs
    by (force simp: internal_named_graphs_def named_graphs_def set_somes)
  have "set (internal_quads_for_pattern visible pat (db_quads db)) = set (internal_quads_for_pattern visible pat (db_quads db'))"
    by (rule set_eqI, simp add: restricted_lookup [OF assms(1,2)] restricted_lookup [OF assms(1,3)]) (metis twice)
  then show ?thesis
    using holds by (cases g) (simp_all add: graphs)
qed

text \<open>
  Claim C16. Nothing about a hidden resource can be learned from the store: when the datasets and services off the list
  are removed from every catalog, each lookup, the list of graphs and the test for a graph answer as before.
\<close>

theorem hidden_resources_leave_no_trace:
  assumes "iri_codec K" "represents K db m"
    "represents K db' (\<lambda>n. map_option (restrict_catalog K visible) (m n))"
  shows "set (internal_quads_for_pattern visible pat (db_quads db)) = set (internal_quads_for_pattern visible pat (db_quads db')) \<and>
    set (internal_named_graphs (db_quads db)) = set (internal_named_graphs (db_quads db')) \<and>
    contains_internal_graph_name g (db_quads db) = contains_internal_graph_name g (db_quads db')"
  by (rule hidden_lookups_equal [OF assms])

section \<open>Examples\<close>

definition sample_db :: "catalog \<Rightarrow> rdf_db" where
  "sample_db c = snd (store_catalog percent_codec NoFault c empty_db)"

lemma sample_db_represents:
  assumes "storable percent_codec c"
  shows "represents percent_codec (sample_db c) [origin_node c \<mapsto> c]"
proof -
  obtain r db where s: "store_catalog percent_codec NoFault c empty_db = (r, db)" by fastforce
  then show ?thesis
    using percent.store.upsert_good [OF represents_empty assms s] by (simp add: sample_db_def)
qed

lemma sample_catalogs_storable:
  "storable percent_codec sample_catalog" "storable percent_codec (restrict_catalog percent_codec {} sample_catalog)"
proof -
  show s: "storable percent_codec sample_catalog"
    using sample_catalog_ok by (simp add: storable_def)
  then show "storable percent_codec (restrict_catalog percent_codec {} sample_catalog)"
    by (simp add: storable_def restrict_catalog_def catalog_wf_def catalog_depth_ok_def catalog_keys_ok_def
        catalog_vecs_def vec_len_def)
qed

theorem restricted_lookup_exact_witness:
  "let cn = catalog_iri percent_codec (node_base percent_codec ''node a'') ''cat/1'';
       read = (\<lambda>visible. set (internal_quads_for_pattern visible (None, None, None, None) (db_quads (sample_db sample_catalog))));
       q = (\<lambda>t. (GraphNode (node_iri percent_codec ''node a''), t))
   in q (tr cn rdf_type (NamedNode dcat_catalog_class)) \<in> read {} \<and>
      q (tr cn dcat_dataset_pred (NamedNode (dataset_resource_iri percent_codec ''node a'' ''d/1''))) \<notin> read {}"
proof -
  have c: "origin_node sample_catalog = ''node a''" "catalog_id sample_catalog = ''cat/1''"
    "properties sample_catalog = []" by (simp_all add: sample_catalog_def)
  have "iri_is_visible dcat_catalog_class {}"
    by (simp add: iri_is_visible_def owning_resource_iri_def strip_prefix_def NODE_NS_def dcat_def DCAT_NS_def)
  moreover have "(NamedNode (dataset_resource_iri percent_codec ''node a'' ''d/1'') = string_literal y) = False" for y
    by (simp add: string_literal_def)
  ultimately show ?thesis
    using restricted_lookup_exact [OF percent.iri_codec_axioms sample_db_represents [OF sample_catalogs_storable(1)],
        where pat = "(None, None, None, None)" and visible = "{}"]
    by (simp add: Let_def c pattern_matches_def restrict_catalog_def catalog_triples_def shown_def object_shown_def
        write_properties_def opt_triple_def in_indexed split: option.splits)
qed

theorem hidden_resources_leave_no_trace_witness:
  "set (internal_quads_for_pattern {} (None, Some (NamedNode odrl_action_pred), None, None) (db_quads (sample_db sample_catalog)))
   = set (internal_quads_for_pattern {} (None, Some (NamedNode odrl_action_pred), None, None)
       (db_quads (sample_db (restrict_catalog percent_codec {} sample_catalog))))"
proof -
  have m: "(\<lambda>n. map_option (restrict_catalog percent_codec {}) ([origin_node sample_catalog \<mapsto> sample_catalog] n))
      = [origin_node (restrict_catalog percent_codec {} sample_catalog) \<mapsto> restrict_catalog percent_codec {} sample_catalog]"
    by (auto simp: restrict_catalog_def)
  have "represents percent_codec (sample_db (restrict_catalog percent_codec {} sample_catalog))
      (\<lambda>n. map_option (restrict_catalog percent_codec {}) ([origin_node sample_catalog \<mapsto> sample_catalog] n))"
    unfolding m by (rule sample_db_represents [OF sample_catalogs_storable(2)])
  then show ?thesis
    using hidden_resources_leave_no_trace [OF percent.iri_codec_axioms sample_db_represents [OF sample_catalogs_storable(1)]] by blast
qed

end
