(* ===== verification/Sparql_Query.thy ===== *)
theory Sparql_Query
  imports Sparql_View
begin

text \<open>
  Policy-filtered SPARQL evaluation: \<open>crates/rdf-store/src/oxigraph_backend/sparql.rs\<close>. Oxigraph's parser and
  evaluator are a parameter: a parsed query is a tree of the lookups it makes, each chosen from the answers before
  it. Everything else that changes while a query runs is a \<open>world\<close>: at each instant the store, with the counter of
  writes that readers compare, and the clock. A read takes one instant.
\<close>

section \<open>Results\<close>

datatype sparql_error =
    SparqlParse string
  | SparqlEvaluation string
  | SparqlStore string
  | UnsupportedGraphResult
  | Serialize string
  | Cancelled
  | TooManyRows nat
  | StoreBusy

datatype query_evaluation_error = EvCancelled | EvDataset string | EvOther string

type_synonym solution = "(string \<times> rdf_term) list"

datatype query_results =
    QBoolean bool
  | QSolutions "string list" "(query_evaluation_error + solution) list"
  | QGraph

text \<open>The document the serializer of the SPARQL JSON results format writes.\<close>

datatype results_json = JsonBoolean bool | JsonBindings "string list" "solution list"

fun evaluation_error :: "query_evaluation_error \<Rightarrow> sparql_error" where
  "evaluation_error EvCancelled = Cancelled"
| "evaluation_error (EvDataset e) = SparqlStore e"
| "evaluation_error (EvOther e) = SparqlEvaluation e"

fun take_rows ::
    "nat option \<Rightarrow> nat \<Rightarrow> (query_evaluation_error + solution) list \<Rightarrow> sparql_error + solution list" where
  "take_rows limit row [] = Inr []"
| "take_rows limit row (s # ss) =
     (case (case limit of Some n \<Rightarrow> if row \<ge> n then Some n else None | None \<Rightarrow> None) of
        Some n \<Rightarrow> Inl (TooManyRows n)
      | None \<Rightarrow>
          (case s of
             Inl e \<Rightarrow> Inl (evaluation_error e)
           | Inr x \<Rightarrow> rbind (take_rows limit (Suc row) ss) (\<lambda>xs. Inr (x # xs))))"

fun serialize_sparql_results :: "query_results \<Rightarrow> nat option \<Rightarrow> sparql_error + results_json" where
  "serialize_sparql_results (QBoolean b) limit = Inr (JsonBoolean b)"
| "serialize_sparql_results (QSolutions vars ss) limit = rbind (take_rows limit 0 ss) (\<lambda>rows. Inr (JsonBindings vars rows))"
| "serialize_sparql_results QGraph limit = Inl UnsupportedGraphResult"

section \<open>Queries\<close>

datatype evaluation =
    Finished "query_evaluation_error + query_results"
  | Lookup pattern "quad list \<Rightarrow> evaluation"
  | ListGraphs "rdf_term list \<Rightarrow> evaluation"
  | TestGraph rdf_term "bool \<Rightarrow> evaluation"

datatype dataset_spec = DefaultDataset | UnionOfGraphs | OwnDataset

record prepared =
  on_store :: "(nat \<Rightarrow> bool) \<Rightarrow> nat \<Rightarrow> quad list \<Rightarrow> query_evaluation_error + query_results"
  on_dataset :: evaluation

text \<open>What the parser gives: the dataset the query names, and the query over a dataset.\<close>

type_synonym sparql_parser = "string \<Rightarrow> string + (dataset_spec \<times> (dataset_spec \<Rightarrow> prepared))"

definition prepare_sparql :: "sparql_parser \<Rightarrow> string \<Rightarrow> sparql_error + prepared" where
  "prepare_sparql parse query =
     (case parse query of
        Inl e \<Rightarrow> Inl (SparqlParse e)
      | Inr (spec, plan) \<Rightarrow> Inr (plan (if spec = DefaultDataset then UnionOfGraphs else spec)))"

definition check_sparql :: "sparql_parser \<Rightarrow> string \<Rightarrow> sparql_error + unit" where
  "check_sparql parse query = rbind (prepare_sparql parse query) (\<lambda>_. Inr ())"

record world =
  db_at :: "nat \<Rightarrow> rdf_db"
  clock :: "nat \<Rightarrow> nat"
  wake :: "nat \<Rightarrow> nat"

record sparql_limits =
  cancellation :: "(nat \<Rightarrow> bool) option"
  max_rows :: "nat option"

definition cancelled :: "sparql_limits \<Rightarrow> nat \<Rightarrow> bool" where
  "cancelled L t = (case cancellation L of Some token \<Rightarrow> token t | None \<Rightarrow> False)"

abbreviation quads_at :: "world \<Rightarrow> nat \<Rightarrow> quad list" where
  "quads_at W t \<equiv> db_quads (db_at W t)"

abbreviation sequence_at :: "world \<Rightarrow> nat \<Rightarrow> 64 word" where
  "sequence_at W t \<equiv> write_sequence (db_at W t)"

text \<open>
  Evaluation over the live store: each lookup of \<open>VisibleDataset\<close> reads it as it is at that instant, and
  oxigraph looks at the cancellation token first.
\<close>

primrec run_live ::
    "world \<Rightarrow> (nat \<Rightarrow> bool) \<Rightarrow> string set \<Rightarrow> evaluation \<Rightarrow> nat \<Rightarrow> (query_evaluation_error + query_results) \<times> nat" where
  "run_live W stop visible (Finished r) = (\<lambda>t. (r, t))"
| "run_live W stop visible (Lookup p k) = (\<lambda>t.
     if stop t then (Inl EvCancelled, Suc t)
     else run_live W stop visible (k (internal_quads_for_pattern visible p (quads_at W t))) (Suc t))"
| "run_live W stop visible (ListGraphs k) = (\<lambda>t.
     if stop t then (Inl EvCancelled, Suc t)
     else run_live W stop visible (k (internal_named_graphs (quads_at W t))) (Suc t))"
| "run_live W stop visible (TestGraph g k) = (\<lambda>t.
     if stop t then (Inl EvCancelled, Suc t)
     else run_live W stop visible (k (contains_internal_graph_name g (quads_at W t))) (Suc t))"

definition sparql_query_json_limited ::
    "sparql_parser \<Rightarrow> world \<Rightarrow> string \<Rightarrow> string set option \<Rightarrow> sparql_limits \<Rightarrow> nat \<Rightarrow> (sparql_error + results_json) \<times> nat" where
  "sparql_query_json_limited parse W query visible L t =
     (case prepare_sparql parse query of
        Inl e \<Rightarrow> (Inl e, t)
      | Inr prepared \<Rightarrow>
          (case (case visible of
                   None \<Rightarrow> (on_store prepared (cancelled L) t (quads_at W t), Suc t)
                 | Some vis \<Rightarrow> run_live W (cancelled L) vis (on_dataset prepared) t) of
             (Inl e, t') \<Rightarrow> (Inl (evaluation_error e), t')
           | (Inr results, t') \<Rightarrow> (serialize_sparql_results results (max_rows L), t')))"

definition sparql_query_json :: "sparql_parser \<Rightarrow> world \<Rightarrow> string \<Rightarrow> nat \<Rightarrow> (sparql_error + results_json) \<times> nat" where
  "sparql_query_json parse W query = sparql_query_json_limited parse W query None \<lparr>cancellation = None, max_rows = None\<rparr>"

definition sparql_query_json_restricted ::
    "sparql_parser \<Rightarrow> world \<Rightarrow> string \<Rightarrow> string set \<Rightarrow> nat \<Rightarrow> (sparql_error + results_json) \<times> nat" where
  "sparql_query_json_restricted parse W query visible =
     sparql_query_json_limited parse W query (Some visible) \<lparr>cancellation = None, max_rows = None\<rparr>"

section \<open>Allow-lists\<close>

text \<open>Times are milliseconds.\<close>

definition POLICY_FILTERED_ATTEMPTS :: nat where "POLICY_FILTERED_ATTEMPTS = 5"
definition WRITE_WAIT :: nat where "WRITE_WAIT = 2000"
definition ALLOW_LIST_CACHE_TTL :: nat where "ALLOW_LIST_CACHE_TTL = 5000"
definition ALLOW_LIST_CACHE_ENTRIES :: nat where "ALLOW_LIST_CACHE_ENTRIES = 64"
definition PARTIAL_ALLOW_LIST_TTL :: nat where "PARTIAL_ALLOW_LIST_TTL = 30000"

record partial_allow_list =
  pal_sequence :: "64 word"
  started_at :: nat
  pal_done :: "string set"
  pal_visible :: "string set"

record cached_list =
  cal_sequence :: "64 word"
  built_at :: nat
  cal_visible :: "string set"

record list_caches =
  allow_lists :: "(string \<times> cached_list) list"
  partial_allow_lists :: "(string \<times> partial_allow_list) list"

definition make_room ::
    "('v \<Rightarrow> bool) \<Rightarrow> ('v \<Rightarrow> nat) \<Rightarrow> string \<Rightarrow> (string \<times> 'v) list \<Rightarrow> (string \<times> 'v) list" where
  "make_room keep age key cache =
     (if length cache \<ge> ALLOW_LIST_CACHE_ENTRIES \<and> key \<notin> fst ` set cache then
        let kept = filter (\<lambda>(k, v). keep v) cache
        in if length kept \<ge> ALLOW_LIST_CACHE_ENTRIES
           then (case oldest age kept of Some k \<Rightarrow> AList.delete k kept | None \<Rightarrow> kept)
           else kept
      else cache)"

definition cached_allow_list :: "world \<Rightarrow> list_caches \<Rightarrow> string \<Rightarrow> 64 word \<Rightarrow> nat \<Rightarrow> string set option" where
  "cached_allow_list W cs key seq t =
     (case map_of (allow_lists cs) key of
        Some e \<Rightarrow> if cal_sequence e = seq \<and> clock W t - built_at e < ALLOW_LIST_CACHE_TTL then Some (cal_visible e) else None
      | None \<Rightarrow> None)"

definition remember_allow_list ::
    "world \<Rightarrow> string \<Rightarrow> 64 word \<Rightarrow> string set \<Rightarrow> nat \<Rightarrow> list_caches \<Rightarrow> list_caches" where
  "remember_allow_list W key seq visible t cs =
     cs\<lparr>allow_lists := AList.update key \<lparr>cal_sequence = seq, built_at = clock W t, cal_visible = visible\<rparr>
       (make_room (\<lambda>e. cal_sequence e = seq \<and> clock W t - built_at e < ALLOW_LIST_CACHE_TTL) built_at key
         (allow_lists cs))\<rparr>"

definition keep_partial :: "world \<Rightarrow> string \<Rightarrow> partial_allow_list \<Rightarrow> nat \<Rightarrow> list_caches \<Rightarrow> list_caches" where
  "keep_partial W key progress t cs =
     cs\<lparr>partial_allow_lists := AList.update key progress
       (make_room (\<lambda>p. clock W t - started_at p < PARTIAL_ALLOW_LIST_TTL) started_at key (partial_allow_lists cs))\<rparr>"

definition readable_catalog :: "codec \<Rightarrow> string \<Rightarrow> graph_snapshot \<Rightarrow> catalog option" where
  "readable_catalog K graph_iri g =
     (case decode_node_id K graph_iri of
        Inl e \<Rightarrow> None
      | Inr n \<Rightarrow> (case load_catalog K n g of Inr r \<Rightarrow> r | Inl e \<Rightarrow> None))"

text \<open>
  The loop of \<open>build_allow_list\<close>. \<open>allow\<close> is the callback, which may answer differently as time passes; the
  first result tells whether the loop ran to its end.
\<close>

fun decide_graphs ::
    "codec \<Rightarrow> (nat \<Rightarrow> catalog \<Rightarrow> string set) \<Rightarrow> sparql_limits \<Rightarrow> (string \<times> graph_snapshot) list \<Rightarrow> nat \<Rightarrow>
     partial_allow_list \<Rightarrow> bool \<times> partial_allow_list \<times> nat" where
  "decide_graphs K allow L [] t p = (\<not> cancelled L t, p, Suc t)"
| "decide_graphs K allow L ((graph_iri, g) # gs) t p =
     (if cancelled L t then (False, p, Suc t)
      else if graph_iri \<in> pal_done p then decide_graphs K allow L gs (Suc t) p
      else (case readable_catalog K graph_iri g of
              Some c \<Rightarrow>
                if cancelled L (t + 2) then (False, p, t + 3)
                else decide_graphs K allow L gs (t + 3)
                  (p\<lparr>pal_visible := pal_visible p \<union> allow (Suc t) c, pal_done := insert graph_iri (pal_done p)\<rparr>)
            | None \<Rightarrow> decide_graphs K allow L gs (Suc t) (p\<lparr>pal_done := insert graph_iri (pal_done p)\<rparr>)))"

definition resume_partial :: "world \<Rightarrow> string \<Rightarrow> 64 word \<Rightarrow> nat \<Rightarrow> list_caches \<Rightarrow> partial_allow_list" where
  "resume_partial W key seq t cs =
     (let fresh = \<lparr>pal_sequence = seq, started_at = clock W t, pal_done = {}, pal_visible = {}\<rparr>
      in case map_of (partial_allow_lists cs) key of
           Some p \<Rightarrow> if pal_sequence p = seq \<and> clock W t - started_at p < PARTIAL_ALLOW_LIST_TTL then p else fresh
         | None \<Rightarrow> fresh)"

definition build_allow_list ::
    "codec \<Rightarrow> world \<Rightarrow> (nat \<Rightarrow> catalog \<Rightarrow> string set) \<Rightarrow> sparql_limits \<Rightarrow> string \<Rightarrow> 64 word \<Rightarrow> nat \<Rightarrow> list_caches \<Rightarrow>
     (sparql_error + string set) \<times> nat \<times> list_caches" where
  "build_allow_list K W allow L key seq t cs =
     (let t1 = t + length (quads_at W t)
      in case snapshots_until (\<lambda>i. cancelled L (t + i)) 0 (quads_at W t) [] of
           None \<Rightarrow> (Inl Cancelled, t1, cs)
         | Some graphs \<Rightarrow>
             (case decide_graphs K allow L graphs (Suc t1) (resume_partial W key seq t1 cs) of (complete, p, t2) \<Rightarrow>
                let taken = cs\<lparr>partial_allow_lists := AList.delete key (partial_allow_lists cs)\<rparr>
                in if complete then (Inr (pal_visible p), t2, taken)
                   else (Inl Cancelled, t2, keep_partial W key p t2 taken)))"

section \<open>One attempt per store state\<close>

partial_function (option) await_even ::
    "world \<Rightarrow> sparql_limits \<Rightarrow> nat \<Rightarrow> nat \<Rightarrow> ((sparql_error + 64 word) \<times> nat) option" where
  "await_even W L waiting_since t =
     (if even (sequence_at W t) then Some (Inr (sequence_at W t), t)
      else if cancelled L (t + 1) then Some (Inl Cancelled, t + 1)
      else if clock W (t + 2) - waiting_since \<ge> WRITE_WAIT then Some (Inl StoreBusy, t + 2)
      else await_even W L waiting_since (wake W (t + 2)))"

definition visible_for ::
    "codec \<Rightarrow> world \<Rightarrow> (string \<Rightarrow> nat \<Rightarrow> catalog \<Rightarrow> string set) \<Rightarrow> sparql_limits \<Rightarrow> string \<Rightarrow> 64 word \<Rightarrow> nat \<Rightarrow>
     list_caches \<Rightarrow> (sparql_error + string set) \<times> nat \<times> list_caches" where
  "visible_for K W allow L key before t cs =
     (case cached_allow_list W cs key before t of
        Some visible \<Rightarrow> (Inr visible, Suc t, cs)
      | None \<Rightarrow>
          (case build_allow_list K W (allow key) L key before (Suc t) cs of
             (Inl e, t1, cs1) \<Rightarrow> (Inl e, t1, cs1)
           | (Inr visible, t1, cs1) \<Rightarrow>
               (Inr visible, Suc t1,
                if sequence_at W t1 = before then remember_allow_list W key before visible t1 cs1 else cs1)))"

fun policy_filtered_attempts ::
    "nat \<Rightarrow> sparql_parser \<Rightarrow> codec \<Rightarrow> world \<Rightarrow> string \<Rightarrow> string \<Rightarrow> (string \<Rightarrow> nat \<Rightarrow> catalog \<Rightarrow> string set) \<Rightarrow>
     sparql_limits \<Rightarrow> nat \<Rightarrow> list_caches \<Rightarrow> ((sparql_error + results_json) \<times> nat \<times> list_caches) option" where
  "policy_filtered_attempts 0 parse K W query key allow L t cs = Some (Inl StoreBusy, t, cs)"
| "policy_filtered_attempts (Suc n) parse K W query key allow L t cs =
     (if cancelled L t then Some (Inl Cancelled, t, cs)
      else case await_even W L (clock W (Suc t)) (t + 2) of
        None \<Rightarrow> None
      | Some (Inl e, t0) \<Rightarrow> Some (Inl e, t0, cs)
      | Some (Inr before, t0) \<Rightarrow>
          (case visible_for K W allow L key before (Suc t0) cs of
             (Inl e, t1, cs1) \<Rightarrow> Some (Inl e, t1, cs1)
           | (Inr visible, t1, cs1) \<Rightarrow>
               (case sparql_query_json_limited parse W query (Some visible) L t1 of
                  (r, t2) \<Rightarrow>
                    if sequence_at W t2 = before then Some (r, t2, cs1)
                    else if cancelled L (Suc t2) then Some (Inl Cancelled, Suc t2, cs1)
                    else policy_filtered_attempts n parse K W query key allow L (t2 + 2) cs1)))"

definition sparql_query_json_policy_filtered ::
    "sparql_parser \<Rightarrow> codec \<Rightarrow> world \<Rightarrow> string \<Rightarrow> string \<Rightarrow> (string \<Rightarrow> nat \<Rightarrow> catalog \<Rightarrow> string set) \<Rightarrow>
     sparql_limits \<Rightarrow> nat \<Rightarrow> list_caches \<Rightarrow> ((sparql_error + results_json) \<times> nat \<times> list_caches) option" where
  "sparql_query_json_policy_filtered = policy_filtered_attempts POLICY_FILTERED_ATTEMPTS"

end
