(* ===== verification/Write_Sequence.thy ===== *)
theory Write_Sequence
  imports Catalog_Store
begin

text \<open>
  The write sequence of \<open>crates/rdf-store/src/oxigraph_backend/mod.rs\<close>: \<open>WriteSequenceGuard\<close> makes the counter
  odd when a write transaction has started and even again after its commit. The step relation lists what one
  instant may do to the store while writers run; oxigraph serializes write transactions, so one is open at a
  time. The counter is a \<open>u64\<close> and wraps.
\<close>

section \<open>Steps of the writers\<close>

definition guard_begin :: "rdf_db \<Rightarrow> rdf_db" where
  "guard_begin db = db\<lparr>write_sequence := write_sequence db + 1\<rparr>"

definition guard_drop :: "rdf_db \<Rightarrow> rdf_db" where
  "guard_drop db = db\<lparr>write_sequence := write_sequence db + 1\<rparr>"

inductive writer_step :: "rdf_db \<Rightarrow> rdf_db \<Rightarrow> bool" where
  idle: "writer_step db db"
| begin_write: "even (write_sequence db) \<Longrightarrow> writer_step db (guard_begin db)"
| commit: "odd (write_sequence db) \<Longrightarrow> writer_step db (db\<lparr>db_quads := qs\<rparr>)"
| end_write: "odd (write_sequence db) \<Longrightarrow> writer_step db (guard_drop db)"

inductive_simps writer_step_iff: "writer_step db db'"

lemma even_add_one [simp]: "even ((w :: 64 word) + 1) \<longleftrightarrow> odd w"
  by (simp add: even_add)

text \<open>What \<open>store_catalog\<close> and \<open>remove_catalog\<close> do to the store is such a sequence of steps.\<close>

lemma write_in_steps:
  assumes "even (write_sequence db)"
  shows "writer_step\<^sup>*\<^sup>* db (db\<lparr>db_quads := qs, write_sequence := write_sequence db + 2\<rparr>)"
proof -
  have "writer_step\<^sup>*\<^sup>* db (guard_drop ((guard_begin db)\<lparr>db_quads := qs\<rparr>))"
    using begin_write [of db] commit [of "guard_begin db" qs] end_write [of "(guard_begin db)\<lparr>db_quads := qs\<rparr>"] assms
    by (auto simp: guard_begin_def intro: rtranclp.rtrancl_into_rtrancl)
  moreover have "guard_drop ((guard_begin db)\<lparr>db_quads := qs\<rparr>) = db\<lparr>db_quads := qs, write_sequence := write_sequence db + 2\<rparr>"
    by (simp add: guard_drop_def guard_begin_def)
  ultimately show ?thesis by simp
qed

lemma sequence_only_in_steps:
  "even (write_sequence db) \<Longrightarrow> writer_step\<^sup>*\<^sup>* db (db\<lparr>write_sequence := write_sequence db + 2\<rparr>)"
  using write_in_steps [of db "db_quads db"] by simp

lemma store_in_steps:
  "even (write_sequence db) \<Longrightarrow> writer_step\<^sup>*\<^sup>* db (snd (store_catalog K fault c db))"
  using write_in_steps sequence_only_in_steps
  by (auto simp: store_catalog_def split: sum.splits fault.splits)

lemma remove_in_steps:
  "even (write_sequence db) \<Longrightarrow> writer_step\<^sup>*\<^sup>* db (snd (remove_catalog K fault n db))"
  using write_in_steps sequence_only_in_steps
  by (auto simp: remove_catalog_def Let_def split: fault.splits)

section \<open>Two equal even readings\<close>

definition store_history :: "(nat \<Rightarrow> rdf_db) \<Rightarrow> bool" where
  "store_history h \<longleftrightarrow> (\<forall>t. writer_step (h t) (h (Suc t)))"

lemma sequence_count:
  assumes "store_history h"
  shows "\<exists>c \<le> n. write_sequence (h (i + n)) = write_sequence (h i) + of_nat c \<and>
    (c = 0 \<and> even (write_sequence (h i)) \<longrightarrow> (\<forall>k\<le>n. h (i + k) = h i))"
proof (induction n)
  case (Suc n)
  then obtain c where c: "c \<le> n" "write_sequence (h (i + n)) = write_sequence (h i) + of_nat c"
    "c = 0 \<and> even (write_sequence (h i)) \<longrightarrow> (\<forall>k\<le>n. h (i + k) = h i)" by blast
  have "writer_step (h (i + n)) (h (Suc (i + n)))" using assms by (simp add: store_history_def)
  then show ?case
  proof (cases rule: writer_step.cases)
    case idle
    then have "h (i + Suc n) = h (i + n)" by simp
    then show ?thesis using c by (intro exI [of _ c]) (auto simp: le_Suc_eq)
  next
    case begin_write
    then show ?thesis using c by (intro exI [of _ "Suc c"]) (auto simp: guard_begin_def)
  next
    case (commit qs)
    then have "write_sequence (h (i + Suc n)) = write_sequence (h (i + n))" by simp
    moreover have "c = 0 \<Longrightarrow> even (write_sequence (h i)) \<Longrightarrow> False" using commit c by simp
    ultimately show ?thesis using c by (intro exI [of _ c]) auto
  next
    case end_write
    then show ?thesis using c by (intro exI [of _ "Suc c"]) (auto simp: guard_drop_def)
  qed
qed simp

lemma same_sequence:
  assumes "store_history h" "i \<le> j" "j - i < 2 ^ 64" "write_sequence (h j) = write_sequence (h i)"
    "even (write_sequence (h i))" "i \<le> k" "k \<le> j"
  shows "h k = h i"
proof -
  obtain c where c: "c \<le> j - i" "write_sequence (h j) = write_sequence (h i) + of_nat c"
    "c = 0 \<and> even (write_sequence (h i)) \<longrightarrow> (\<forall>k\<le>j - i. h (i + k) = h i)"
    using sequence_count [OF assms(1), of "j - i" i] assms(2) by auto
  then have "(of_nat c :: 64 word) = 0" using assms(4) by simp
  then have "unat (of_nat c :: 64 word) = 0" by simp
  then have "c = 0" using c(1) assms(3) by (simp add: unsigned_of_nat take_bit_nat_eq_self)
  then show ?thesis using c(3) assms(5-7) by (metis add_diff_inverse_nat diff_le_mono not_le)
qed

text \<open>
  A reader that sees the same even value before and after its reads knows no write overlapped them: the
  store did not change in between, whatever writers did before and after, as long as fewer than \<open>2\<^sup>64\<close> instants
  passed (a counter of 64 bits cannot have wrapped).
\<close>

theorem equal_even_readings:
  assumes "store_history h" "i \<le> j" "j - i < 2 ^ 64" "write_sequence (h i) = write_sequence (h j)"
    "even (write_sequence (h i))"
  shows "\<forall>k. i \<le> k \<and> k \<le> j \<longrightarrow> h k = h i"
  using same_sequence [OF assms(1-3) assms(4) [symmetric] assms(5)] by blast

definition sample_history :: "nat \<Rightarrow> rdf_db" where
  "sample_history t =
     (if t < 2 then empty_db
      else if t = 2 then \<lparr>db_quads = [], write_sequence = 1\<rparr>
      else if t = 3 then \<lparr>db_quads = [(DefaultGraph, tr ''s'' ''p'' (NamedNode ''o''))], write_sequence = 1\<rparr>
      else \<lparr>db_quads = [(DefaultGraph, tr ''s'' ''p'' (NamedNode ''o''))], write_sequence = 2\<rparr>)"

lemma sample_history: "store_history sample_history"
proof -
  have "writer_step (sample_history t) (sample_history (Suc t))" for t
  proof -
    consider "t = 0" | "t = 1" | "t = 2" | "t = 3" | "t \<ge> 4" by linarith
    then show ?thesis
    proof cases
      case 2
      then show ?thesis
        using begin_write [of empty_db] by (simp add: sample_history_def guard_begin_def empty_db_def)
    next
      case 3
      then show ?thesis
        using commit [of "\<lparr>db_quads = [], write_sequence = 1\<rparr>"] by (simp add: sample_history_def)
    next
      case 4
      then show ?thesis
        using end_write [of "\<lparr>db_quads = [(DefaultGraph, tr ''s'' ''p'' (NamedNode ''o''))], write_sequence = 1\<rparr>"]
        by (simp add: sample_history_def guard_drop_def)
    qed (simp_all add: sample_history_def idle)
  qed
  then show ?thesis by (simp add: store_history_def)
qed

theorem equal_even_readings_witness: "sample_history 7 = sample_history 4 \<and> sample_history 3 \<noteq> sample_history 4"
proof -
  have "\<forall>k. 4 \<le> k \<and> k \<le> 9 \<longrightarrow> sample_history k = sample_history 4"
    by (rule equal_even_readings [OF sample_history]) (simp_all add: sample_history_def)
  then show ?thesis by (simp add: sample_history_def)
qed

end
