(* ===== verification/Sparql_Consistency.thy ===== *)
theory Sparql_Consistency
  imports Sparql_Query Write_Sequence
begin

text \<open>
  What the retry loop of \<open>sparql_query_json_policy_filtered\<close> guarantees while writers run and allow-lists are
  cached: an answer is the answer over one store state, restricted by an allow-list decided on that same state;
  the loop ends; the caches stay bounded.
\<close>

section \<open>Decisions on one store state\<close>

definition decided_part ::
    "codec \<Rightarrow> (nat \<Rightarrow> catalog \<Rightarrow> string set) \<Rightarrow> quad list \<Rightarrow> string set \<Rightarrow> (string \<Rightarrow> nat) \<Rightarrow> string set" where
  "decided_part K allow qs gs \<tau> =
     \<Union> {allow (\<tau> n) c | n g c. (n, g) \<in> set (snapshots None qs) \<and> n \<in> gs \<and> readable_catalog K n g = Some c}"

text \<open>
  An allow-list decided on the store \<open>qs\<close>: the union, over its readable catalogs, of what the callback answered
  for each, at some instant.
\<close>

definition decided_on :: "codec \<Rightarrow> (nat \<Rightarrow> catalog \<Rightarrow> string set) \<Rightarrow> quad list \<Rightarrow> string set \<Rightarrow> bool" where
  "decided_on K allow qs visible \<longleftrightarrow> (\<exists>\<tau>. visible = decided_part K allow qs UNIV \<tau>)"

definition partial_on :: "codec \<Rightarrow> (nat \<Rightarrow> catalog \<Rightarrow> string set) \<Rightarrow> quad list \<Rightarrow> partial_allow_list \<Rightarrow> bool" where
  "partial_on K allow qs p \<longleftrightarrow> (\<exists>\<tau>. pal_visible p = decided_part K allow qs (pal_done p) \<tau>)"

lemma decided_part_empty [simp]: "decided_part K allow qs {} \<tau> = {}"
  by (simp add: decided_part_def)

lemma in_decided_part:
  "x \<in> decided_part K allow qs gs \<tau> \<longleftrightarrow>
   (\<exists>n g c. (n, g) \<in> set (snapshots None qs) \<and> n \<in> gs \<and> readable_catalog K n g = Some c \<and> x \<in> allow (\<tau> n) c)"
  by (auto simp: decided_part_def)

lemma decided_part_insert:
  assumes "(n, g) \<in> set (snapshots None qs)" "n \<notin> gs"
  shows "decided_part K allow qs (insert n gs) (\<tau>(n := t)) =
    decided_part K allow qs gs \<tau> \<union> (case readable_catalog K n g of Some c \<Rightarrow> allow t c | None \<Rightarrow> {})"
proof (rule set_eqI)
  fix x
  have uniq: "g' = g" if "(n, g') \<in> set (snapshots None qs)" for g'
    using that assms(1) map_of_snapshots(2) by (metis eq_key_imp_eq_value)
  have "x \<in> decided_part K allow qs (insert n gs) (\<tau>(n := t)) \<longleftrightarrow>
      x \<in> decided_part K allow qs gs \<tau> \<or> (\<exists>c. readable_catalog K n g = Some c \<and> x \<in> allow t c)"
    unfolding in_decided_part using assms uniq by (metis fun_upd_apply insert_iff)
  then show "x \<in> decided_part K allow qs (insert n gs) (\<tau>(n := t)) \<longleftrightarrow>
      x \<in> decided_part K allow qs gs \<tau> \<union> (case readable_catalog K n g of Some c \<Rightarrow> allow t c | None \<Rightarrow> {})"
    by (cases "readable_catalog K n g") auto
qed

lemma decide_graphs_partial:
  assumes "partial_on K allow qs p" "set gs \<subseteq> set (snapshots None qs)"
    "decide_graphs K allow L gs t p = (complete, p', t')"
  shows "partial_on K allow qs p' \<and> pal_sequence p' = pal_sequence p \<and> pal_done p \<subseteq> pal_done p' \<and>
    (complete \<longrightarrow> fst ` set gs \<subseteq> pal_done p') \<and> t \<le> t'"
  using assms
proof (induction gs arbitrary: t p)
  case (Cons ng gs)
  obtain n g where ng: "ng = (n, g)" by (cases ng)
  from Cons.prems(1) obtain \<tau> where \<tau>: "pal_visible p = decided_part K allow qs (pal_done p) \<tau>"
    by (auto simp: partial_on_def)
  define p1 where "p1 s = p\<lparr>pal_visible := pal_visible p \<union>
      (case readable_catalog K n g of Some c \<Rightarrow> allow s c | None \<Rightarrow> {}), pal_done := insert n (pal_done p)\<rparr>" for s
  have ins: "partial_on K allow qs (p1 s)" if "n \<notin> pal_done p" for s
    using decided_part_insert [of n g qs "pal_done p" K allow \<tau> s] Cons.prems(2) that \<tau>
    by (auto simp: partial_on_def p1_def ng)
  have upd: "pal_done (p1 s) = insert n (pal_done p)" "pal_sequence (p1 s) = pal_sequence p" for s
    by (simp_all add: p1_def)
  have gs: "set gs \<subseteq> set (snapshots None qs)" using Cons.prems(2) by simp
  have step: "decide_graphs K allow L (ng # gs) t p =
      (if cancelled L t then (False, p, Suc t)
       else if n \<in> pal_done p then decide_graphs K allow L gs (Suc t) p
       else if readable_catalog K n g = None then decide_graphs K allow L gs (Suc t) (p1 0)
       else if cancelled L (t + 2) then (False, p, t + 3)
       else decide_graphs K allow L gs (t + 3) (p1 (Suc t)))"
    by (auto simp: ng p1_def split: option.splits)
  show ?case
  proof (cases "cancelled L t \<or> n \<notin> pal_done p \<and> readable_catalog K n g \<noteq> None \<and> cancelled L (t + 2)")
    case True
    then have "complete = False \<and> p' = p \<and> t \<le> t'" using Cons.prems(3) unfolding step by (auto split: if_splits)
    then show ?thesis using Cons.prems(1) by simp
  next
    case False
    then consider "n \<in> pal_done p" "decide_graphs K allow L gs (Suc t) p = (complete, p', t')"
      | "n \<notin> pal_done p" "decide_graphs K allow L gs (Suc t) (p1 0) = (complete, p', t')"
      | "n \<notin> pal_done p" "decide_graphs K allow L gs (t + 3) (p1 (Suc t)) = (complete, p', t')"
      using Cons.prems(3) unfolding step by (auto split: if_splits)
    then show ?thesis
    proof cases
      case 1
      then show ?thesis using Cons.IH [OF Cons.prems(1) gs 1(2)] by (auto simp: ng)
    next
      case 2
      then show ?thesis using Cons.IH [OF ins gs 2(2)] by (auto simp: ng upd)
    next
      case 3
      then show ?thesis using Cons.IH [OF ins gs 3(2)] by (auto simp: ng upd)
    qed
  qed
qed auto

lemma decide_graphs_complete:
  assumes "partial_on K allow qs p" "decide_graphs K allow L (snapshots None qs) t p = (True, p', t')"
  shows "decided_on K allow qs (pal_visible p')"
proof -
  from decide_graphs_partial [OF assms(1) subset_refl assms(2)] obtain \<tau> where
    \<tau>: "pal_visible p' = decided_part K allow qs (pal_done p') \<tau>" "fst ` set (snapshots None qs) \<subseteq> pal_done p'"
    by (auto simp: partial_on_def)
  have "n \<in> pal_done p'" if "(n, g) \<in> set (snapshots None qs)" for n g
    using \<tau>(2) imageI [OF that, of fst] by auto
  then have "x \<in> decided_part K allow qs (pal_done p') \<tau> \<longleftrightarrow> x \<in> decided_part K allow qs UNIV \<tau>" for x
    unfolding in_decided_part by blast
  then show ?thesis using \<tau>(1) unfolding decided_on_def by blast
qed

lemma snapshots_until_some:
  "snapshots_until stop i qs gs = Some gs' \<Longrightarrow> snapshots_until (\<lambda>_. False) i qs gs = Some gs'"
  by (induction "\<lambda>_ :: nat. False" i qs gs rule: snapshots_until.induct) (auto split: if_splits graph_name.splits)

lemma scan_snapshots: "snapshots_until stop 0 qs [] = Some gs \<Longrightarrow> gs = snapshots None qs"
  using snapshots_until_some [of stop 0 qs "[]" gs] by (simp add: snapshots_def)

section \<open>The caches\<close>

text \<open>
  A list was decided on the store as it was when the counter had the list's value. Progress may also have been
  made on a later store, but then the counter has moved on and the progress is never resumed.
\<close>

definition list_ok ::
    "world \<Rightarrow> codec \<Rightarrow> (string \<Rightarrow> nat \<Rightarrow> catalog \<Rightarrow> string set) \<Rightarrow> nat \<Rightarrow> string \<Rightarrow> cached_list \<Rightarrow> bool" where
  "list_ok W K allow t key e \<longleftrightarrow>
     (\<exists>i\<le>t. even (sequence_at W i) \<and> sequence_at W i = cal_sequence e \<and>
        decided_on K (allow key) (quads_at W i) (cal_visible e))"

definition part_ok ::
    "world \<Rightarrow> codec \<Rightarrow> (string \<Rightarrow> nat \<Rightarrow> catalog \<Rightarrow> string set) \<Rightarrow> nat \<Rightarrow> string \<Rightarrow> partial_allow_list \<Rightarrow> bool" where
  "part_ok W K allow t key p \<longleftrightarrow>
     (\<exists>i\<le>t. even (sequence_at W i) \<and> sequence_at W i = pal_sequence p \<and>
        (partial_on K (allow key) (quads_at W i) p \<or> (\<exists>j. i \<le> j \<and> j \<le> t \<and> sequence_at W j \<noteq> pal_sequence p)))"

definition caches_ok ::
    "world \<Rightarrow> codec \<Rightarrow> (string \<Rightarrow> nat \<Rightarrow> catalog \<Rightarrow> string set) \<Rightarrow> nat \<Rightarrow> list_caches \<Rightarrow> bool" where
  "caches_ok W K allow t cs \<longleftrightarrow>
     (\<forall>(key, e)\<in>set (allow_lists cs). list_ok W K allow t key e) \<and>
     (\<forall>(key, p)\<in>set (partial_allow_lists cs). part_ok W K allow t key p)"

lemma list_ok_later: "list_ok W K allow t key e \<Longrightarrow> t \<le> t' \<Longrightarrow> list_ok W K allow t' key e"
  unfolding list_ok_def using le_trans by blast

lemma part_ok_later: "part_ok W K allow t key p \<Longrightarrow> t \<le> t' \<Longrightarrow> part_ok W K allow t' key p"
  unfolding part_ok_def using le_trans by blast

lemma caches_ok_later: "caches_ok W K allow t cs \<Longrightarrow> t \<le> t' \<Longrightarrow> caches_ok W K allow t' cs"
  using list_ok_later part_ok_later by (fastforce simp: caches_ok_def)

lemma set_make_room: "set (make_room keep age key cache) \<subseteq> set cache"
proof -
  have "set (AList.delete k (filter (\<lambda>(k, v). keep v) cache)) \<subseteq> set cache" for k
    by (auto simp: AList.delete_eq)
  then show ?thesis by (auto simp: make_room_def Let_def simp del: set_filter split: option.split)
qed

lemma caches_ok_remember:
  assumes "caches_ok W K allow t cs" "list_ok W K allow t key \<lparr>cal_sequence = seq, built_at = clock W t, cal_visible = V\<rparr>"
  shows "caches_ok W K allow t (remember_allow_list W key seq V t cs)"
  using assms set_update set_make_room unfolding caches_ok_def remember_allow_list_def
  by (auto dest!: set_update [THEN subsetD] set_make_room [THEN subsetD])

lemma caches_ok_keep:
  assumes "caches_ok W K allow t cs" "part_ok W K allow t key p"
  shows "caches_ok W K allow t (keep_partial W key p t cs)"
  using assms unfolding caches_ok_def keep_partial_def
  by (auto dest!: set_update [THEN subsetD] set_make_room [THEN subsetD])

lemma caches_ok_take:
  "caches_ok W K allow t cs \<Longrightarrow>
   caches_ok W K allow t (cs\<lparr>partial_allow_lists := AList.delete key (partial_allow_lists cs)\<rparr>)"
  by (auto simp: caches_ok_def AList.delete_eq)

abbreviation history_of :: "world \<Rightarrow> bool" where
  "history_of W \<equiv> store_history (db_at W)"

lemma reading_back:
  assumes "history_of W" "i \<le> t" "t < 2 ^ 64" "sequence_at W t = sequence_at W i" "even (sequence_at W i)" "i \<le> k" "k \<le> t"
  shows "db_at W k = db_at W i"
  using same_sequence [OF assms(1,2) _ assms(4-7)] assms(3) by simp

lemma cached_list_decided:
  assumes "history_of W" "caches_ok W K allow t0 cs" "t0 < 2 ^ 64" "before = sequence_at W t0"
    "cached_allow_list W cs key before t = Some V"
  shows "decided_on K (allow key) (quads_at W t0) V"
proof -
  obtain e where e: "map_of (allow_lists cs) key = Some e" "cal_sequence e = before" "V = cal_visible e"
    using assms(5) by (auto simp: cached_allow_list_def split: option.splits if_splits)
  then have "list_ok W K allow t0 key e" using assms(2) by (auto simp: caches_ok_def dest: map_of_SomeD)
  then obtain i where i: "i \<le> t0" "even (sequence_at W i)" "sequence_at W i = before"
    "decided_on K (allow key) (quads_at W i) V" using e unfolding list_ok_def by blast
  have "db_at W t0 = db_at W i"
    by (rule reading_back [OF assms(1) i(1) assms(3) _ i(2) i(1) order_refl]) (simp add: i(3) assms(4))
  with i(4) show ?thesis by simp
qed

lemma resumed_partial:
  assumes "history_of W" "caches_ok W K allow t0 cs" "t0 < 2 ^ 64" "before = sequence_at W t0"
  shows "partial_on K (allow key) (quads_at W t0) (resume_partial W key before t cs) \<and>
    pal_sequence (resume_partial W key before t cs) = before"
proof (cases "\<exists>p. map_of (partial_allow_lists cs) key = Some p \<and> pal_sequence p = before \<and>
    clock W t - started_at p < PARTIAL_ALLOW_LIST_TTL")
  case True
  then obtain p where p: "map_of (partial_allow_lists cs) key = Some p" "pal_sequence p = before"
    "resume_partial W key before t cs = p" by (auto simp: resume_partial_def)
  then have "part_ok W K allow t0 key p" using assms(2) by (auto simp: caches_ok_def dest: map_of_SomeD)
  then obtain i where i: "i \<le> t0" "even (sequence_at W i)" "sequence_at W i = before"
    "partial_on K (allow key) (quads_at W i) p \<or> (\<exists>j. i \<le> j \<and> j \<le> t0 \<and> sequence_at W j \<noteq> before)"
    unfolding part_ok_def p(2) by blast
  have same: "db_at W k = db_at W i" if "i \<le> k" "k \<le> t0" for k
    by (rule reading_back [OF assms(1) i(1) assms(3) _ i(2) that]) (simp add: i(3) assms(4))
  have "partial_on K (allow key) (quads_at W i) p" using i(3,4) same by metis
  then show ?thesis using same [OF i(1) order_refl] p by simp
next
  case False
  then have "resume_partial W key before t cs =
      \<lparr>pal_sequence = before, started_at = clock W t, pal_done = {}, pal_visible = {}\<rparr>"
    by (auto simp: resume_partial_def Let_def split: option.splits)
  then show ?thesis by (simp add: partial_on_def)
qed

lemma decide_graphs_sequence:
  "decide_graphs K allow L gs t p = (complete, p', t') \<Longrightarrow> pal_sequence p' = pal_sequence p \<and> t \<le> t'"
  by (induction K allow L gs t p rule: decide_graphs.induct) (fastforce split: if_splits option.splits)+

lemma build_decided:
  assumes hist: "history_of W" and ok: "caches_ok W K allow t0 cs" and before: "before = sequence_at W t0" "even before"
    and t: "t0 \<le> t" "t' < 2 ^ 64"
    and build: "build_allow_list K W (allow key) L key before t cs = (r, t', cs')"
  shows "t \<le> t' \<and> caches_ok W K allow t' cs' \<and> (\<forall>e. r = Inl e \<longrightarrow> e = Cancelled) \<and>
    (\<forall>V. r = Inr V \<and> db_at W t = db_at W t0 \<longrightarrow> decided_on K (allow key) (quads_at W t0) V)"
proof (cases "snapshots_until (\<lambda>i. cancelled L (t + i)) 0 (quads_at W t) []")
  case None
  then have "r = Inl Cancelled" "cs' = cs" "t \<le> t'" using build by (auto simp: build_allow_list_def Let_def)
  then show ?thesis using caches_ok_later [OF ok] t by simp
next
  case (Some graphs)
  let ?t1 = "t + length (quads_at W t)"
  define p where "p = resume_partial W key before ?t1 cs"
  obtain complete p' t2 where d: "decide_graphs K (allow key) L graphs (Suc ?t1) p = (complete, p', t2)"
    by (metis prod_cases3)
  let ?taken = "cs\<lparr>partial_allow_lists := AList.delete key (partial_allow_lists cs)\<rparr>"
  have res: "t' = t2" "r = (if complete then Inr (pal_visible p') else Inl Cancelled)"
    "cs' = (if complete then ?taken else keep_partial W key p' t2 ?taken)"
    using build d Some by (auto simp: build_allow_list_def Let_def p_def [symmetric] split: if_splits)
  have graphs: "graphs = snapshots None (quads_at W t)" using scan_snapshots [OF Some] .
  have t0: "t0 < 2 ^ 64" "t \<le> t'"
    using decide_graphs_sequence [OF d] t res(1) by auto
  have p: "partial_on K (allow key) (quads_at W t0) p" "pal_sequence p = before"
    using resumed_partial [OF hist ok t0(1) before(1), of key ?t1] by (simp_all add: p_def)
  have p': "pal_sequence p' = before" using decide_graphs_sequence [OF d] p(2) by simp
  have same: "partial_on K (allow key) (quads_at W t0) p'" if "db_at W t = db_at W t0"
    using decide_graphs_partial [OF p(1) _ d] graphs that by simp
  have "part_ok W K allow t' key p'"
  proof (cases "db_at W t = db_at W t0")
    case True
    then show ?thesis using same before p' t t0 unfolding part_ok_def by (metis le_trans)
  next
    case False
    have "sequence_at W t \<noteq> before"
    proof
      assume "sequence_at W t = before"
      then have "db_at W t = db_at W t0"
        using reading_back [OF hist t(1) _ _ _ t(1) order_refl] t0 t(2) before by simp
      with False show False ..
    qed
    then show ?thesis using before p' t t0 unfolding part_ok_def by (metis le_trans)
  qed
  moreover have "caches_ok W K allow t' ?taken"
    using caches_ok_later [OF ok] caches_ok_take t t0 le_trans by blast
  ultimately have "caches_ok W K allow t' cs'" using caches_ok_keep res by simp
  moreover have "decided_on K (allow key) (quads_at W t0) V" if "r = Inr V" "db_at W t = db_at W t0" for V
    using decide_graphs_complete [OF p(1)] d res(2) that graphs by (auto split: if_splits)
  ultimately show ?thesis using res(2) t0(2) by auto
qed

section \<open>Evaluation on one store state\<close>

text \<open>The reference: the same query over a store that does not change.\<close>

primrec run_on :: "string set \<Rightarrow> quad list \<Rightarrow> evaluation \<Rightarrow> query_evaluation_error + query_results" where
  "run_on visible qs (Finished r) = r"
| "run_on visible qs (Lookup p k) = run_on visible qs (k (internal_quads_for_pattern visible p qs))"
| "run_on visible qs (ListGraphs k) = run_on visible qs (k (internal_named_graphs qs))"
| "run_on visible qs (TestGraph g k) = run_on visible qs (k (contains_internal_graph_name g qs))"

definition restricted_answer ::
    "sparql_parser \<Rightarrow> string \<Rightarrow> string set \<Rightarrow> nat option \<Rightarrow> quad list \<Rightarrow> sparql_error + results_json" where
  "restricted_answer parse query visible limit qs =
     rbind (prepare_sparql parse query) (\<lambda>prepared.
       case run_on visible qs (on_dataset prepared) of
         Inl e \<Rightarrow> Inl (evaluation_error e)
       | Inr results \<Rightarrow> serialize_sparql_results results limit)"

lemma run_live_later: "run_live W stop visible ev t = (r, t') \<Longrightarrow> t \<le> t'"
  by (induction ev arbitrary: t) (fastforce split: if_splits)+

lemma run_live_static:
  "run_live W stop visible ev t = (r, t') \<Longrightarrow> (\<And>k. t \<le> k \<Longrightarrow> k \<le> t' \<Longrightarrow> quads_at W k = qs) \<Longrightarrow>
   r = Inl EvCancelled \<or> r = run_on visible qs ev"
proof (induction ev arbitrary: t)
  case (Lookup p k)
  have "t \<le> t'" using run_live_later [OF Lookup.prems(1)] .
  then have "\<not> stop t \<Longrightarrow> run_live W stop visible (k (internal_quads_for_pattern visible p qs)) (Suc t) = (r, t')"
    using Lookup.prems by simp
  then show ?case
    using Lookup.IH [OF rangeI, of _ "Suc t"] Lookup.prems by (cases "stop t") auto
next
  case (ListGraphs k)
  have "t \<le> t'" using run_live_later [OF ListGraphs.prems(1)] .
  then have "\<not> stop t \<Longrightarrow> run_live W stop visible (k (internal_named_graphs qs)) (Suc t) = (r, t')"
    using ListGraphs.prems by simp
  then show ?case
    using ListGraphs.IH [OF rangeI, of _ "Suc t"] ListGraphs.prems by (cases "stop t") auto
next
  case (TestGraph g k)
  have "t \<le> t'" using run_live_later [OF TestGraph.prems(1)] .
  then have "\<not> stop t \<Longrightarrow> run_live W stop visible (k (contains_internal_graph_name g qs)) (Suc t) = (r, t')"
    using TestGraph.prems by simp
  then show ?case
    using TestGraph.IH [OF rangeI, of _ "Suc t"] TestGraph.prems by (cases "stop t") auto
qed simp

lemma limited_query_static:
  assumes "sparql_query_json_limited parse W query (Some visible) L t = (r, t')"
    "\<And>k. t \<le> k \<Longrightarrow> k \<le> t' \<Longrightarrow> quads_at W k = qs"
  shows "r = Inl Cancelled \<or> r = restricted_answer parse query visible (max_rows L) qs"
proof (cases "prepare_sparql parse query")
  case (Inr prepared)
  obtain a u where run: "run_live W (cancelled L) visible (on_dataset prepared) t = (a, u)" by fastforce
  then have "u = t'" and "r = (case a of Inl e \<Rightarrow> Inl (evaluation_error e) | Inr x \<Rightarrow> serialize_sparql_results x (max_rows L))"
    using assms(1) Inr by (auto simp: sparql_query_json_limited_def split: sum.splits)
  moreover have "a = Inl EvCancelled \<or> a = run_on visible qs (on_dataset prepared)"
    using run_live_static [OF run, of qs] assms(2) \<open>u = t'\<close> by blast
  ultimately show ?thesis using Inr by (auto simp: restricted_answer_def)
qed (use assms(1) in \<open>auto simp: sparql_query_json_limited_def restricted_answer_def\<close>)

lemma limited_query_later: "sparql_query_json_limited parse W query (Some visible) L t = (r, t') \<Longrightarrow> t \<le> t'"
  by (auto simp: sparql_query_json_limited_def dest: run_live_later split: sum.splits prod.splits)

section \<open>Waiting\<close>

definition wait_result :: "world \<Rightarrow> nat \<Rightarrow> (sparql_error + 64 word) \<times> nat \<Rightarrow> bool" where
  "wait_result W t o_t \<longleftrightarrow> t \<le> snd o_t \<and>
     (case fst o_t of Inl e \<Rightarrow> e = Cancelled \<or> e = StoreBusy
      | Inr before \<Rightarrow> before = sequence_at W (snd o_t) \<and> even before)"

definition clock_ok :: "world \<Rightarrow> bool" where
  "clock_ok W \<longleftrightarrow> (\<forall>t. t \<le> wake W t) \<and> (\<forall>t t'. t \<le> t' \<longrightarrow> clock W t \<le> clock W t') \<and>
     (\<forall>t. clock W t + 2 \<le> clock W (wake W t))"

lemma await_even_returns:
  assumes "clock_ok W"
  shows "\<exists>x. await_even W L since t = Some x \<and> wait_result W t x"
proof (induction "since + WRITE_WAIT - clock W t" arbitrary: t rule: less_induct)
  case less
  show ?case
  proof (cases "even (sequence_at W t) \<or> cancelled L (t + 1) \<or> clock W (t + 2) - since \<ge> WRITE_WAIT")
    case True
    then show ?thesis
      by (subst await_even.simps) (auto simp: wait_result_def)
  next
    case False
    let ?u = "wake W (t + 2)"
    have u: "clock W t \<le> clock W (t + 2)" "clock W (t + 2) + 2 \<le> clock W ?u" "t + 2 \<le> ?u"
      using assms unfolding clock_ok_def by auto
    moreover have "clock W (t + 2) - since < WRITE_WAIT" "0 < WRITE_WAIT" using False by (simp_all add: WRITE_WAIT_def)
    ultimately have "since + WRITE_WAIT - clock W ?u < since + WRITE_WAIT - clock W t" by linarith
    from less [OF this] obtain x where x: "await_even W L since ?u = Some x" "wait_result W ?u x" by blast
    then have "await_even W L since t = Some x" using False by (subst await_even.simps) simp
    moreover have "wait_result W t x" using x(2) u(3) by (auto simp: wait_result_def)
    ultimately show ?thesis by blast
  qed
qed

section \<open>The loop\<close>

lemma visible_for_decided:
  assumes hist: "history_of W" and ok: "caches_ok W K allow t0 cs" and before: "before = sequence_at W t0" "even before"
    and t: "t0 \<le> t" "t' < 2 ^ 64" and run: "visible_for K W allow L key before t cs = (r, t', cs')"
  shows "Suc t \<le> t' \<and> caches_ok W K allow t' cs' \<and> (\<forall>e. r = Inl e \<longrightarrow> e = Cancelled) \<and>
    (\<forall>V. r = Inr V \<and> db_at W (Suc t) = db_at W t0 \<longrightarrow> decided_on K (allow key) (quads_at W t0) V)"
proof (cases "cached_allow_list W cs key before t")
  case (Some V)
  then have r: "r = Inr V" "t' = Suc t" "cs' = cs" using run by (auto simp: visible_for_def)
  then have "decided_on K (allow key) (quads_at W t0) V"
    using cached_list_decided [OF hist ok _ before(1) Some] t by simp
  then show ?thesis using r caches_ok_later [OF ok] t by simp
next
  case None
  obtain b t1 cs1 where b: "build_allow_list K W (allow key) L key before (Suc t) cs = (b, t1, cs1)"
    by (metis prod_cases3)
  have r: "r = b" "t' = (case b of Inl e \<Rightarrow> t1 | Inr V \<Rightarrow> Suc t1)"
    "cs' = (case b of Inl e \<Rightarrow> cs1 | Inr V \<Rightarrow> if sequence_at W t1 = before then remember_allow_list W key before V t1 cs1 else cs1)"
    using run None b by (auto simp: visible_for_def split: sum.splits)
  have t1: "t1 < 2 ^ 64" using r(2) t(2) by (auto split: sum.splits)
  have bd: "Suc t \<le> t1" "caches_ok W K allow t1 cs1" "\<forall>e. b = Inl e \<longrightarrow> e = Cancelled"
    "\<forall>V. b = Inr V \<and> db_at W (Suc t) = db_at W t0 \<longrightarrow> decided_on K (allow key) (quads_at W t0) V"
    using build_decided [OF hist ok before _ t1 b] t by auto
  have "caches_ok W K allow t1 cs'"
  proof (cases "\<exists>V. b = Inr V \<and> sequence_at W t1 = before")
    case True
    then obtain V where V: "b = Inr V" "sequence_at W t1 = before" by blast
    have "db_at W (Suc t) = db_at W t0"
      by (rule reading_back [OF hist _ t1 _ _ _ bd(1)]) (use V before bd(1) t in simp_all)
    then have "list_ok W K allow t1 key \<lparr>cal_sequence = before, built_at = clock W t1, cal_visible = V\<rparr>"
      using bd(1,4) V before t unfolding list_ok_def by (intro exI [of _ t0]) simp
    then show ?thesis using caches_ok_remember [OF bd(2)] V r(3) by simp
  next
    case False
    then show ?thesis using bd(2) r(3) by (auto split: sum.splits)
  qed
  then have "caches_ok W K allow t' cs'" by (rule caches_ok_later) (auto simp: r(2) split: sum.splits)
  then show ?thesis using bd r by (auto split: sum.splits)
qed

lemma build_later: "build_allow_list K W allow L key before t cs = (r, t', cs') \<Longrightarrow> t \<le> t'"
  by (auto simp: build_allow_list_def Let_def dest!: decide_graphs_sequence split: option.splits prod.splits if_splits)

lemma visible_for_later: "visible_for K W allow L key before t cs = (r, t', cs') \<Longrightarrow> t \<le> t'"
  by (auto simp: visible_for_def dest!: build_later split: option.splits prod.splits sum.splits if_splits)

lemma attempts_return:
  assumes "clock_ok W"
  shows "\<exists>r t' cs'. policy_filtered_attempts n parse K W query key allow L t cs = Some (r, t', cs') \<and> t \<le> t'"
proof (induction n arbitrary: t cs)
  case (Suc n)
  obtain w t0 where wait: "await_even W L (clock W (Suc t)) (t + 2) = Some (w, t0)" "wait_result W (t + 2) (w, t0)"
    using await_even_returns [OF assms] by (metis surj_pair)
  then have t0: "t + 2 \<le> t0" by (simp add: wait_result_def)
  show ?case
  proof (cases w)
    case (Inr before)
    obtain v t1 cs1 where v: "visible_for K W allow L key before (Suc t0) cs = (v, t1, cs1)" by (metis prod_cases3)
    have t1: "Suc t0 \<le> t1" using visible_for_later [OF v] .
    show ?thesis
    proof (cases v)
      case V: (Inr V)
      obtain q t2 where q: "sparql_query_json_limited parse W query (Some V) L t1 = (q, t2)" by fastforce
      have "t1 \<le> t2" using limited_query_later [OF q] .
      moreover obtain r t' cs' where "policy_filtered_attempts n parse K W query key allow L (t2 + 2) cs1 = Some (r, t', cs')"
        "t2 + 2 \<le> t'" using Suc.IH by blast
      ultimately show ?thesis using t0 t1 wait(1) Inr v V q by (auto simp del: add_2_eq_Suc')
    qed (use t0 t1 wait(1) Inr v in auto)
  qed (use t0 wait(1) in auto)
qed simp

lemma attempts_one_state:
  assumes "history_of W" "clock_ok W"
  shows "caches_ok W K allow t cs \<Longrightarrow>
    policy_filtered_attempts n parse K W query key allow L t cs = Some (r, t', cs') \<Longrightarrow> t' < 2 ^ 64 \<Longrightarrow>
    t \<le> t' \<and> caches_ok W K allow t' cs' \<and>
    (r = Inl Cancelled \<or> r = Inl StoreBusy \<or>
     (\<exists>i V. t \<le> i \<and> i \<le> t' \<and> decided_on K (allow key) (quads_at W i) V \<and>
        r = restricted_answer parse query V (max_rows L) (quads_at W i)))"
  (is "_ \<Longrightarrow> _ \<Longrightarrow> _ \<Longrightarrow> ?goal t cs")
proof (induction n arbitrary: t cs)
  case (Suc n)
  show ?case
  proof (cases "cancelled L t")
    case True
    then show ?thesis using Suc.prems by auto
  next
    case False
    obtain w t0 where wait: "await_even W L (clock W (Suc t)) (t + 2) = Some (w, t0)" "wait_result W (t + 2) (w, t0)"
      using await_even_returns [OF assms(2)] by (metis surj_pair)
    show ?thesis
    proof (cases w)
      case (Inl e)
      then show ?thesis
        using Suc.prems False wait caches_ok_later [OF Suc.prems(1), of t0] by (auto simp: wait_result_def)
    next
      case (Inr before)
      then have b: "before = sequence_at W t0" "even before" "t + 2 \<le> t0" using wait(2) by (auto simp: wait_result_def)
      have ok0: "caches_ok W K allow t0 cs" using caches_ok_later [OF Suc.prems(1)] b(3) by simp
      obtain v t1 cs1 where v: "visible_for K W allow L key before (Suc t0) cs = (v, t1, cs1)" by (metis prod_cases3)
      show ?thesis
      proof (cases v)
        case (Inl e)
        then have res: "r = Inl e" "t' = t1" "cs' = cs1" using Suc.prems(2) False wait(1) Inr v by auto
        then show ?thesis
          using visible_for_decided [OF assms(1) ok0 b(1,2) _ _ v] Suc.prems(3) Inl b(3) by auto
      next
        case V: (Inr V)
        obtain q t2 where q: "sparql_query_json_limited parse W query (Some V) L t1 = (q, t2)" by fastforce
        have t12: "t1 \<le> t2" using limited_query_later [OF q] .
        have rest: "Some (r, t', cs') = (if sequence_at W t2 = before then Some (q, t2, cs1)
            else if cancelled L (Suc t2) then Some (Inl Cancelled, Suc t2, cs1)
            else policy_filtered_attempts n parse K W query key allow L (t2 + 2) cs1)"
          using Suc.prems(2) False wait(1) Inr v V q by simp
        have "t2 \<le> t'"
          using rest attempts_return [OF assms(2), of n parse K query key allow L "t2 + 2" cs1] by (auto split: if_splits)
        then have t2: "t2 < 2 ^ 64" "t1 < 2 ^ 64" using t12 Suc.prems(3) by simp_all
        have vis: "Suc (Suc t0) \<le> t1" "caches_ok W K allow t1 cs1"
          "db_at W (Suc (Suc t0)) = db_at W t0 \<Longrightarrow> decided_on K (allow key) (quads_at W t0) V"
          using visible_for_decided [OF assms(1) ok0 b(1,2) _ t2(2) v] V by auto
        consider "sequence_at W t2 = before" "r = q" "t' = t2" "cs' = cs1"
          | "r = Inl Cancelled" "t' = Suc t2" "cs' = cs1"
          | "policy_filtered_attempts n parse K W query key allow L (t2 + 2) cs1 = Some (r, t', cs')"
          using rest by (auto split: if_splits)
        then show ?thesis
        proof cases
          case 1
          have same: "db_at W k = db_at W t0" if "t0 \<le> k" "k \<le> t2" for k
            using reading_back [OF assms(1) le_trans [OF that] t2(1) _ _ that] 1(1) b(1,2) by metis
          have le: "t0 \<le> Suc (Suc t0)" "Suc (Suc t0) \<le> t2" using vis(1) t12 by simp_all
          have "decided_on K (allow key) (quads_at W t0) V" by (rule vis(3) [OF same [OF le]])
          moreover have "q = Inl Cancelled \<or> q = restricted_answer parse query V (max_rows L) (quads_at W t0)"
          proof (rule limited_query_static [OF q])
            fix k assume "t1 \<le> k" "k \<le> t2"
            moreover from this have "t0 \<le> k" using vis(1) by simp
            ultimately show "quads_at W k = quads_at W t0" by (metis same)
          qed
          moreover have "t \<le> t0" "t0 \<le> t'" using b(3) vis(1) t12 1 by simp_all
          ultimately show ?thesis using 1 caches_ok_later [OF vis(2) t12] by auto
        next
          case 2
          then show ?thesis using caches_ok_later [OF vis(2), of t'] b(3) vis(1) t12 by auto
        next
          case 3
          have "caches_ok W K allow (t2 + 2) cs1" using caches_ok_later [OF vis(2)] t12 by simp
          note later = Suc.IH [OF this 3 Suc.prems(3)]
          have start: "t \<le> t2 + 2" using b(3) vis(1) t12 by simp
          from later start show ?thesis by (blast intro: le_trans)
        qed
      qed
    qed
  qed
qed auto

text \<open>
  Claim C17. A policy-filtered query never mixes store states: whatever writers do while it runs and whatever lists are
  cached, an answer other than \<open>Cancelled\<close> or \<open>StoreBusy\<close> is the answer over one state the store was in during the
  call, restricted by an allow-list decided on the catalogs of that same state; and the caches it leaves hold
  only lists decided on the state they are labelled with.
\<close>

theorem policy_filtered_one_state:
  assumes "history_of W" "clock_ok W" "caches_ok W K allow t cs"
    "sparql_query_json_policy_filtered parse K W query key allow L t cs = Some (r, t', cs')" "t' < 2 ^ 64"
  shows "caches_ok W K allow t' cs' \<and>
    (r = Inl Cancelled \<or> r = Inl StoreBusy \<or>
     (\<exists>i V. t \<le> i \<and> i \<le> t' \<and> decided_on K (allow key) (quads_at W i) V \<and>
        r = restricted_answer parse query V (max_rows L) (quads_at W i)))"
  using attempts_one_state [OF assms(1-3) assms(4) [unfolded sparql_query_json_policy_filtered_def] assms(5)] by blast

text \<open>
  Claim C37. The call always returns, however long a write stays open: waiting ends with \<open>StoreBusy\<close> after two seconds
  of a clock that a sleep of two milliseconds moves on by as much.
\<close>

theorem policy_filtered_returns:
  assumes "clock_ok W"
  shows "\<exists>r t' cs'. sparql_query_json_policy_filtered parse K W query key allow L t cs = Some (r, t', cs') \<and> t \<le> t'"
  unfolding sparql_query_json_policy_filtered_def by (rule attempts_return [OF assms])

section \<open>Quiet stores\<close>

lemma run_live_uncancelled:
  "(\<And>k. \<not> stop k) \<Longrightarrow> (\<And>k. db_at W k = db) \<Longrightarrow> fst (run_live W stop visible ev t) = run_on visible (db_quads db) ev"
  by (induction ev arbitrary: t) simp_all

lemma decide_graphs_uncancelled:
  "(\<And>k. \<not> cancelled L k) \<Longrightarrow> fst (decide_graphs K allow L gs t p)"
  by (induction K allow L gs t p rule: decide_graphs.induct) (auto split: option.splits)

lemma snapshots_until_uncancelled: "(\<And>k. \<not> stop k) \<Longrightarrow> \<exists>gs'. snapshots_until stop i qs gs = Some gs'"
  by (induction stop i qs gs rule: snapshots_until.induct) auto

lemma build_uncancelled:
  assumes "\<And>k. \<not> cancelled L k"
  shows "\<exists>V t' cs'. build_allow_list K W allow L key before t cs = (Inr V, t', cs')"
proof -
  obtain gs where gs: "snapshots_until (\<lambda>i. cancelled L (t + i)) 0 (quads_at W t) [] = Some gs"
    using snapshots_until_uncancelled [of "\<lambda>i. cancelled L (t + i)"] assms by blast
  let ?t1 = "t + length (quads_at W t)"
  obtain p t2 where "decide_graphs K allow L gs (Suc ?t1) (resume_partial W key before ?t1 cs) = (True, p, t2)"
    using decide_graphs_uncancelled [of L, OF assms] by (metis prod.collapse)
  with gs show ?thesis by (simp add: build_allow_list_def Let_def)
qed

text \<open>
  A store nobody writes to answers at the first attempt: without cancellation the call returns the answer
  itself, never \<open>Cancelled\<close> or \<open>StoreBusy\<close> on its own account.
\<close>

theorem quiet_store_answers:
  assumes "\<And>k. db_at W k = db" "even (write_sequence db)" "\<And>k. \<not> cancelled L k" "caches_ok W K allow t cs"
    "sparql_query_json_policy_filtered parse K W query key allow L t cs = Some (r, t', cs')" "t' < 2 ^ 64"
  shows "\<exists>V. decided_on K (allow key) (db_quads db) V \<and> r = restricted_answer parse query V (max_rows L) (db_quads db)"
proof -
  have hist: "history_of W" by (simp add: store_history_def assms(1) writer_step.idle)
  have wait: "await_even W L since u = Some (Inr (write_sequence db), u)" for since u
    by (subst await_even.simps) (simp add: assms(1,2))
  let ?before = "write_sequence db"
  have b: "?before = sequence_at W (t + 2)" by (simp add: assms(1))
  have "\<exists>V t1 cs1. visible_for K W allow L key ?before (Suc (t + 2)) cs = (Inr V, t1, cs1)"
    using build_uncancelled [OF assms(3), of K W "allow key" key ?before "Suc (Suc (t + 2))" cs]
    by (auto simp: visible_for_def split: option.splits)
  then obtain V t1 cs1 where v: "visible_for K W allow L key ?before (Suc (t + 2)) cs = (Inr V, t1, cs1)" by blast
  obtain q t2 where q: "sparql_query_json_limited parse W query (Some V) L t1 = (q, t2)" by fastforce
  have res: "r = q" "t' = t2"
    using assms(3,5) wait v q
    by (auto simp: sparql_query_json_policy_filtered_def POLICY_FILTERED_ATTEMPTS_def numeral_eq_Suc assms(1))
  have "t1 < 2 ^ 64" using limited_query_later [OF q] assms(6) res by simp
  moreover have "caches_ok W K allow (t + 2) cs" using caches_ok_later [OF assms(4)] by simp
  ultimately have "decided_on K (allow key) (db_quads db) V"
    using visible_for_decided [OF hist _ b assms(2) _ _ v] assms(1) by simp
  moreover have "q = restricted_answer parse query V (max_rows L) (db_quads db)"
    using q run_live_uncancelled [of "cancelled L" W, OF assms(3) assms(1)]
    by (auto simp: sparql_query_json_limited_def restricted_answer_def split: sum.splits prod.splits)
      (metis fst_conv sum.inject sum.simps(4))+
  ultimately show ?thesis using res by blast
qed

section \<open>Bounded caches\<close>

definition bounded_cache :: "(string \<times> 'v) list \<Rightarrow> bool" where
  "bounded_cache cache \<longleftrightarrow> length cache \<le> ALLOW_LIST_CACHE_ENTRIES \<and> distinct (map fst cache)"

definition bounded_caches :: "list_caches \<Rightarrow> bool" where
  "bounded_caches cs \<longleftrightarrow> bounded_cache (allow_lists cs) \<and> bounded_cache (partial_allow_lists cs)"

lemma bounded_insert:
  assumes "bounded_cache cache"
  shows "bounded_cache (AList.update key v (make_room keep age key cache))"
proof (cases "length cache \<ge> ALLOW_LIST_CACHE_ENTRIES \<and> key \<notin> fst ` set cache")
  case False
  then show ?thesis
    using assms by (auto simp: make_room_def bounded_cache_def length_update distinct_update)
next
  case True
  let ?kept = "filter (\<lambda>(k, v). keep v) cache"
  have d: "distinct (map fst ?kept)" using assms by (simp add: bounded_cache_def distinct_map_filter)
  have kept: "length ?kept \<le> ALLOW_LIST_CACHE_ENTRIES"
    by (rule le_trans [OF length_filter_le]) (use assms in \<open>simp add: bounded_cache_def\<close>)
  have "length (make_room keep age key cache) < ALLOW_LIST_CACHE_ENTRIES"
  proof (cases "oldest age ?kept")
    case None
    then show ?thesis using True by (simp add: make_room_def Let_def oldest_None ALLOW_LIST_CACHE_ENTRIES_def)
  next
    case (Some k)
    have "length (AList.delete k ?kept) < ALLOW_LIST_CACHE_ENTRIES"
      using length_delete_key [OF oldest_key [OF Some]] kept by linarith
    moreover have "make_room keep age key cache =
        (if length ?kept \<ge> ALLOW_LIST_CACHE_ENTRIES then AList.delete k ?kept else ?kept)"
      unfolding make_room_def Let_def if_P [OF True] Some by simp
    ultimately show ?thesis by (simp del: AList.delete_conv)
  qed
  moreover have "distinct (map fst (make_room keep age key cache))"
    using d True by (auto simp: make_room_def Let_def AList.distinct_delete split: option.split)
  ultimately show ?thesis by (auto simp: bounded_cache_def length_update distinct_update)
qed

lemma bounded_remember: "bounded_caches cs \<Longrightarrow> bounded_caches (remember_allow_list W key seq V t cs)"
  by (simp add: bounded_caches_def remember_allow_list_def bounded_insert)

lemma bounded_keep: "bounded_caches cs \<Longrightarrow> bounded_caches (keep_partial W key p t cs)"
  by (simp add: bounded_caches_def keep_partial_def bounded_insert)

lemma bounded_take:
  "bounded_caches cs \<Longrightarrow> bounded_caches (cs\<lparr>partial_allow_lists := AList.delete key (partial_allow_lists cs)\<rparr>)"
  by (auto simp: bounded_caches_def bounded_cache_def AList.distinct_delete
      intro: le_trans [OF AList.length_delete_le])

lemma bounded_build:
  "build_allow_list K W allow L key before t cs = (r, t', cs') \<Longrightarrow> bounded_caches cs \<Longrightarrow> bounded_caches cs'"
  by (auto simp: build_allow_list_def Let_def bounded_take bounded_keep split: option.splits prod.splits if_splits)

lemma bounded_visible_for:
  "visible_for K W allow L key before t cs = (r, t', cs') \<Longrightarrow> bounded_caches cs \<Longrightarrow> bounded_caches cs'"
  by (auto simp: visible_for_def bounded_remember dest!: bounded_build
      split: option.splits prod.splits sum.splits if_splits)

text \<open>
  Claim C38. However many callers query and are cancelled, each cache holds at most 64 entries, one per caller.
\<close>

theorem caches_stay_bounded:
  assumes "bounded_caches cs"
    "sparql_query_json_policy_filtered parse K W query key allow L t cs = Some (r, t', cs')"
  shows "bounded_caches cs'"
proof -
  have "policy_filtered_attempts n parse K W query key allow L t cs = Some (r, t', cs') \<Longrightarrow>
      bounded_caches cs \<Longrightarrow> bounded_caches cs'" for n t cs
    by (induction n arbitrary: t cs)
      (auto dest!: bounded_visible_for split: if_splits option.splits sum.splits prod.splits)
  then show ?thesis using assms by (simp add: sparql_query_json_policy_filtered_def)
qed

section \<open>Examples\<close>

text \<open>A query that starts while a write is open, on the history of \<open>Write_Sequence\<close>.\<close>

definition sample_world :: world where
  "sample_world = \<lparr>db_at = sample_history, clock = id, wake = (\<lambda>t. t + 2)\<rparr>"

definition quiet_world :: world where
  "quiet_world = \<lparr>db_at = (\<lambda>_. empty_db), clock = id, wake = (\<lambda>t. t + 2)\<rparr>"

definition ask_parser :: sparql_parser where
  "ask_parser query = Inr (DefaultDataset, \<lambda>_. \<lparr>on_store = (\<lambda>_ _ _. Inr (QBoolean True)),
     on_dataset = Lookup (None, None, None, None) (\<lambda>qs. Finished (Inr (QBoolean (qs = []))))\<rparr>)"

definition no_limits :: sparql_limits where
  "no_limits = \<lparr>cancellation = None, max_rows = None\<rparr>"

definition no_caches :: list_caches where
  "no_caches = \<lparr>allow_lists = [], partial_allow_lists = []\<rparr>"

lemma sample_world_ok:
  "history_of sample_world" "clock_ok sample_world" "clock_ok quiet_world"
  "caches_ok W K allow t no_caches" "\<not> cancelled no_limits t" "bounded_caches no_caches"
  by (simp_all add: sample_world_def quiet_world_def sample_history clock_ok_def caches_ok_def no_caches_def
      cancelled_def no_limits_def bounded_caches_def bounded_cache_def)

lemma sample_wait: "await_even sample_world no_limits (clock sample_world (Suc 0)) (0 + 2) = Some (Inr 2, 6)"
  by (subst await_even.simps, subst await_even.simps)
    (simp add: sample_world_def sample_history_def cancelled_def no_limits_def WRITE_WAIT_def)

lemma sample_visible:
  "\<exists>cs'. visible_for percent_codec sample_world (\<lambda>_ _ _. {}) no_limits ''k'' 2 (Suc 6) no_caches = (Inr {}, 12, cs')"
  by (simp add: visible_for_def cached_allow_list_def no_caches_def build_allow_list_def Let_def sample_world_def
      sample_history_def cancelled_def no_limits_def resume_partial_def)

lemma sample_query: "sparql_query_json_limited ask_parser sample_world [] (Some {}) no_limits 12 = (Inr (JsonBoolean True), 13)"
  by (simp add: sparql_query_json_limited_def prepare_sparql_def ask_parser_def no_limits_def cancelled_def
      sample_world_def sample_history_def internal_quads_for_pattern_def bound_iri_hidden_def quads_for_pattern_def)

lemma five_attempts: "POLICY_FILTERED_ATTEMPTS = Suc 4"
  by (simp add: POLICY_FILTERED_ATTEMPTS_def)

lemma sample_run:
  "\<exists>cs'. sparql_query_json_policy_filtered ask_parser percent_codec sample_world [] ''k'' (\<lambda>_ _ _. {}) no_limits 0 no_caches
     = Some (Inr (JsonBoolean True), 13, cs')"
proof -
  obtain cs' where "visible_for percent_codec sample_world (\<lambda>_ _ _. {}) no_limits ''k'' 2 (Suc 6) no_caches = (Inr {}, 12, cs')"
    using sample_visible by blast
  moreover have "sequence_at sample_world 13 = 2" by (simp add: sample_world_def sample_history_def)
  ultimately show ?thesis
    using sample_wait sample_query
    unfolding sparql_query_json_policy_filtered_def five_attempts policy_filtered_attempts.simps(2)
    by (simp add: sample_world_ok)
qed

theorem policy_filtered_one_state_witness:
  "\<exists>cs'. sparql_query_json_policy_filtered ask_parser percent_codec sample_world [] ''k'' (\<lambda>_ _ _. {}) no_limits 0 no_caches
       = Some (Inr (JsonBoolean True), 13, cs') \<and>
     (\<exists>i V. i \<le> 13 \<and> decided_on percent_codec (\<lambda>_ _. {}) (quads_at sample_world i) V \<and>
        Inr (JsonBoolean True) = restricted_answer ask_parser [] V None (quads_at sample_world i))"
proof -
  obtain cs' where run: "sparql_query_json_policy_filtered ask_parser percent_codec sample_world [] ''k'' (\<lambda>_ _ _. {})
      no_limits 0 no_caches = Some (Inr (JsonBoolean True), 13, cs')" using sample_run by blast
  have "max_rows no_limits = None" by (simp add: no_limits_def)
  then show ?thesis
    using policy_filtered_one_state [OF sample_world_ok(1,2,4) run] run by auto
qed

theorem policy_filtered_returns_witness:
  "\<exists>r t' cs'. sparql_query_json_policy_filtered ask_parser percent_codec sample_world [] ''k'' (\<lambda>_ _ _. {}) no_limits 2 no_caches
     = Some (r, t', cs') \<and> 2 \<le> t'"
  by (rule policy_filtered_returns [OF sample_world_ok(2)])

theorem caches_stay_bounded_witness:
  "\<exists>r t' cs'. sparql_query_json_policy_filtered ask_parser percent_codec sample_world [] ''k'' (\<lambda>_ _ _. {}) no_limits 0 no_caches
     = Some (r, t', cs') \<and> bounded_caches cs'"
proof -
  obtain cs' where run: "sparql_query_json_policy_filtered ask_parser percent_codec sample_world [] ''k'' (\<lambda>_ _ _. {})
      no_limits 0 no_caches = Some (Inr (JsonBoolean True), 13, cs')" using sample_run by blast
  then show ?thesis using caches_stay_bounded [OF sample_world_ok(6) run] by blast
qed

lemma quiet_run:
  "\<exists>cs'. sparql_query_json_policy_filtered ask_parser percent_codec quiet_world [] key allow no_limits t no_caches
     = Some (Inr (JsonBoolean True), t + 8, cs')"
proof -
  have "await_even quiet_world no_limits (clock quiet_world (Suc t)) (t + 2) = Some (Inr 0, t + 2)"
    by (subst await_even.simps) (simp add: quiet_world_def empty_db_def)
  moreover have "\<exists>cs'. visible_for percent_codec quiet_world allow no_limits key 0 (Suc (t + 2)) no_caches = (Inr {}, t + 7, cs')"
    by (simp add: visible_for_def cached_allow_list_def no_caches_def build_allow_list_def Let_def quiet_world_def
        empty_db_def cancelled_def no_limits_def resume_partial_def)
  then obtain cs' where "visible_for percent_codec quiet_world allow no_limits key 0 (Suc (t + 2)) no_caches = (Inr {}, t + 7, cs')"
    by blast
  moreover have "sparql_query_json_limited ask_parser quiet_world [] (Some {}) no_limits (t + 7) = (Inr (JsonBoolean True), t + 8)"
    by (simp add: sparql_query_json_limited_def prepare_sparql_def ask_parser_def no_limits_def cancelled_def
        quiet_world_def empty_db_def internal_quads_for_pattern_def bound_iri_hidden_def quads_for_pattern_def)
  moreover have "sequence_at quiet_world (t + 8) = 0" by (simp add: quiet_world_def empty_db_def)
  ultimately show ?thesis
    unfolding sparql_query_json_policy_filtered_def five_attempts policy_filtered_attempts.simps(2)
    by (simp add: sample_world_ok)
qed

theorem quiet_store_answers_witness:
  "\<exists>V. decided_on percent_codec (\<lambda>_ _. {}) [] V \<and> Inr (JsonBoolean True) = restricted_answer ask_parser [] V None []"
proof -
  obtain cs' where run: "sparql_query_json_policy_filtered ask_parser percent_codec quiet_world [] ''k'' (\<lambda>_ _ _. {})
      no_limits 0 no_caches = Some (Inr (JsonBoolean True), 8, cs')" using quiet_run [where key = "''k''" and t = 0] by auto
  have "db_at quiet_world k = empty_db" for k by (simp add: quiet_world_def)
  moreover have "even (write_sequence empty_db)" "db_quads empty_db = []" "max_rows no_limits = None"
    by (simp_all add: empty_db_def no_limits_def)
  ultimately show ?thesis
    using quiet_store_answers [OF _ _ sample_world_ok(5) sample_world_ok(4) run, of empty_db] by auto
qed

end
