(* ===== verification/Catalog_Policy.thy ===== *)
theory Catalog_Policy
  imports Odrl_Filter Sparql_Consistency
begin

text \<open>
  Visibility of whole catalogs: \<open>crates/ds-catalog-broker-rs/src/routes/policy.rs\<close>. The same decision per dataset
  (\<open>Odrl_Filter\<close>) filters the catalogs of \<open>GET /catalog\<close> and the management API, and gives \<open>/sparql\<close> the list of
  resources a caller may read (\<open>Sparql_View\<close>). The engine and the host's date are parameters.
\<close>

section \<open>Operations\<close>

definition CATALOG_VISIBILITY_ACTION :: string where
  "CATALOG_VISIBILITY_ACTION = ''odrl:use''"

text \<open>\<open>gated\<close> is whether an OAuth2 verifier is configured.\<close>

definition should_filter_by_policy :: "bool \<Rightarrow> policy_filter_config \<Rightarrow> bool" where
  "should_filter_by_policy gated config \<longleftrightarrow> gated \<or> filter_when_oauth2_disabled config"

definition engine_claims_from_bearer :: "string \<Rightarrow> json option \<Rightarrow> claims" where
  "engine_claims_from_bearer now_rfc3339 bearer_claims =
     with_context_claims now_rfc3339
       (jwt_claims_to_engine_claims (case bearer_claims of Some v \<Rightarrow> v | None \<Rightarrow> JNull))"

datatype service_filtering = HideGatedOnly | KeepAll

definition services_used_by :: "dataset list \<Rightarrow> string set" where
  "services_used_by ds = set (concat (map (\<lambda>d. map access_service (distributions d)) ds))"

definition service_is_visible :: "string \<Rightarrow> string set \<Rightarrow> string set \<Rightarrow> bool" where
  "service_is_visible i used_by_any used_by_visible \<longleftrightarrow> i \<in> used_by_visible \<or> i \<notin> used_by_any"

definition filter_catalog ::
    "engine \<Rightarrow> claims \<Rightarrow> policy_filter_config \<Rightarrow> service_filtering \<Rightarrow> catalog \<Rightarrow> catalog" where
  "filter_catalog eval cl config services c =
     (let used_by_any = services_used_by (datasets c);
          kept = filter (\<lambda>d. dataset_is_visible eval d cl CATALOG_VISIBILITY_ACTION config) (datasets c);
          c1 = c\<lparr>datasets := kept\<rparr>
      in if services = HideGatedOnly
         then c1\<lparr>data_services := filter (\<lambda>s. service_is_visible (service_id s) used_by_any (services_used_by kept))
                (data_services c1)\<rparr>
         else c1)"

definition filter_catalogs_by_policy ::
    "engine \<Rightarrow> string \<Rightarrow> json option \<Rightarrow> bool \<Rightarrow> policy_filter_config \<Rightarrow> service_filtering \<Rightarrow> catalog list \<Rightarrow> catalog list" where
  "filter_catalogs_by_policy eval now_rfc3339 bearer_claims gated config services cs =
     (if \<not> should_filter_by_policy gated config then cs
      else map (filter_catalog eval (engine_claims_from_bearer now_rfc3339 bearer_claims) config services) cs)"

text \<open>The loop over the datasets, left with no result once the query is cancelled, \<open>stop\<close>, holds at its turn.\<close>

fun visible_datasets ::
    "engine \<Rightarrow> claims \<Rightarrow> policy_filter_config \<Rightarrow> (nat \<Rightarrow> bool) \<Rightarrow> nat \<Rightarrow> dataset list \<Rightarrow> dataset list option" where
  "visible_datasets eval cl config stop i [] = Some []"
| "visible_datasets eval cl config stop i (d # ds) =
     (if stop i then None
      else map_option (\<lambda>vs. if dataset_is_visible eval d cl CATALOG_VISIBILITY_ACTION config then d # vs else vs)
        (visible_datasets eval cl config stop (Suc i) ds))"

definition visible_resource_iris ::
    "codec \<Rightarrow> engine \<Rightarrow> claims \<Rightarrow> policy_filter_config \<Rightarrow> (nat \<Rightarrow> bool) \<Rightarrow> catalog \<Rightarrow> string set" where
  "visible_resource_iris K eval cl config stop c =
     (case visible_datasets eval cl config stop 0 (datasets c) of
        None \<Rightarrow> {}
      | Some visible \<Rightarrow>
          (let used_by_any = services_used_by (datasets c); used_by_visible = services_used_by visible
           in (\<lambda>d. dataset_resource_iri K (origin_node c) (dataset_id d)) ` set visible \<union>
              (\<lambda>s. service_resource_iri K (origin_node c) (service_id s)) `
                set (filter (\<lambda>s. service_is_visible (service_id s) used_by_any used_by_visible) (data_services c))))"

text \<open>What a route renders: the catalogs matching a query, filtered for the caller.\<close>

definition visible_catalogs ::
    "codec \<Rightarrow> engine \<Rightarrow> string \<Rightarrow> json option \<Rightarrow> bool \<Rightarrow> policy_filter_config \<Rightarrow> service_filtering \<Rightarrow> catalog_query \<Rightarrow>
     rdf_db \<Rightarrow> store_error + catalog list" where
  "visible_catalogs K eval now_rfc3339 bearer_claims gated config services q db =
     rbind (catalogs K q (db_quads db)) (\<lambda>cs.
       Inr (filter_catalogs_by_policy eval now_rfc3339 bearer_claims gated config services cs))"

section \<open>The two surfaces agree\<close>

lemma visible_datasets_uncancelled:
  "(\<And>k. \<not> stop k) \<Longrightarrow> visible_datasets eval cl config stop i ds =
   Some (filter (\<lambda>d. dataset_is_visible eval d cl CATALOG_VISIBILITY_ACTION config) ds)"
  by (induction ds arbitrary: i) auto

lemma filter_catalog_simps [simp]:
  "catalog_id (filter_catalog eval cl config services c) = catalog_id c"
  "origin_node (filter_catalog eval cl config services c) = origin_node c"
  "participant_id (filter_catalog eval cl config services c) = participant_id c"
  "properties (filter_catalog eval cl config services c) = properties c"
  "datasets (filter_catalog eval cl config services c) =
     filter (\<lambda>d. dataset_is_visible eval d cl CATALOG_VISIBILITY_ACTION config) (datasets c)"
  "data_services (filter_catalog eval cl config services c) =
     (if services = HideGatedOnly
      then filter (\<lambda>s. service_is_visible (service_id s) (services_used_by (datasets c))
        (services_used_by (filter (\<lambda>d. dataset_is_visible eval d cl CATALOG_VISIBILITY_ACTION config) (datasets c))))
        (data_services c)
      else data_services c)"
  by (simp_all add: filter_catalog_def Let_def)

text \<open>The resources of a catalog, by their IRIs.\<close>

definition resource_iris :: "codec \<Rightarrow> catalog \<Rightarrow> string set" where
  "resource_iris K c =
     (\<lambda>d. dataset_resource_iri K (origin_node c) (dataset_id d)) ` set (datasets c) \<union>
     (\<lambda>s. service_resource_iri K (origin_node c) (service_id s)) ` set (data_services c)"

lemma visible_resources_filtered:
  assumes "\<And>k. \<not> stop k"
  shows "visible_resource_iris K eval cl config stop c = resource_iris K (filter_catalog eval cl config HideGatedOnly c)"
  by (simp add: visible_resource_iris_def visible_datasets_uncancelled [OF assms] resource_iris_def Let_def)

lemma split_at_slash: "CHR ''/'' \<notin> set a \<Longrightarrow> CHR ''/'' \<notin> set b \<Longrightarrow> a @ CHR ''/'' # x = b @ CHR ''/'' # y \<longleftrightarrow> a = b \<and> x = y"
  by (metis option.inject prod.inject split_once_append)

context iri_codec
begin

lemma dataset_resource_eq: "dataset_resource_iri K n i = NODE_NS @ url_encode K n @ CHR ''/'' # ''datasets/'' @ url_encode K i"
  by (simp add: dataset_resource_iri_def dataset_iri_def node_base_def)

lemma service_resource_eq: "service_resource_iri K n i = NODE_NS @ url_encode K n @ CHR ''/'' # ''services/'' @ url_encode K i"
  by (simp add: service_resource_iri_def service_iri_def node_base_def)

lemma resource_iri_inject [simp]:
  "dataset_resource_iri K n i = dataset_resource_iri K n' i' \<longleftrightarrow> n = n' \<and> i = i'"
  "service_resource_iri K n i = service_resource_iri K n' i' \<longleftrightarrow> n = n' \<and> i = i'"
  "dataset_resource_iri K n i \<noteq> service_resource_iri K n' i'"
  "service_resource_iri K n i \<noteq> dataset_resource_iri K n' i'"
  unfolding dataset_resource_eq service_resource_eq same_append_eq split_at_slash [OF encode_no_slash encode_no_slash] encode_inject
  by simp_all

text \<open>The callback's answers over a store add up to the resources of the filtered catalogs.\<close>

lemma decided_resources:
  assumes rep: "represents K db m" and stop: "\<And>k. \<not> stop k"
    and V: "decided_on K (\<lambda>t. visible_resource_iris K eval cl config stop) (db_quads db) V"
  shows "V = \<Union> {resource_iris K (filter_catalog eval cl config HideGatedOnly c) | n c. m n = Some c}"
proof -
  have "x \<in> V \<longleftrightarrow> (\<exists>k g c. (k, g) \<in> set (snapshots None (db_quads db)) \<and> readable_catalog K k g = Some c \<and>
      x \<in> resource_iris K (filter_catalog eval cl config HideGatedOnly c))" for x
    using V by (auto simp: decided_on_def in_decided_part visible_resources_filtered [OF stop])
  moreover have "(\<exists>k g. (k, g) \<in> set (snapshots None (db_quads db)) \<and> readable_catalog K k g = Some c) \<longleftrightarrow>
      (\<exists>n. m n = Some c)" for c
  proof
    assume "\<exists>k g. (k, g) \<in> set (snapshots None (db_quads db)) \<and> readable_catalog K k g = Some c"
    then show "\<exists>n. m n = Some c"
      using represented_snapshot [OF rep] by (fastforce simp: readable_catalog_def decode_node_iri)
  next
    assume "\<exists>n. m n = Some c"
    then show "\<exists>k g. (k, g) \<in> set (snapshots None (db_quads db)) \<and> readable_catalog K k g = Some c"
      using snapshot_of_stored [OF rep] by (fastforce simp: readable_catalog_def decode_node_iri)
  qed
  ultimately have "x \<in> V \<longleftrightarrow> (\<exists>n c. m n = Some c \<and> x \<in> resource_iris K (filter_catalog eval cl config HideGatedOnly c))" for x
    by metis
  then show ?thesis by blast
qed

text \<open>Restricting a stored catalog to that list is filtering it.\<close>

lemma restrict_is_filter:
  assumes rep: "represents K db m" and n: "m n = Some c"
    and V: "V = \<Union> {resource_iris K (filter_catalog eval cl config HideGatedOnly c) | n c. m n = Some c}"
  shows "restrict_catalog K V c = filter_catalog eval cl config HideGatedOnly c"
proof -
  let ?f = "filter_catalog eval cl config HideGatedOnly"
  have c: "origin_node c = n" "distinct (map dataset_id (datasets c))" "distinct (map service_id (data_services c))"
    using rep n by (auto simp: represents_def storable_def catalog_wf_def)
  have "dataset_resource_iri K n i \<in> V \<longleftrightarrow> i \<in> dataset_id ` set (datasets (?f c))" for i
  proof
    assume "dataset_resource_iri K n i \<in> V"
    then obtain k e where e: "m k = Some e" "dataset_resource_iri K n i \<in> resource_iris K (?f e)" unfolding V by blast
    moreover have "origin_node e = k" using rep e(1) by (auto simp: represents_def)
    ultimately show "i \<in> dataset_id ` set (datasets (?f c))" using n by (auto simp: resource_iris_def)
  next
    assume "i \<in> dataset_id ` set (datasets (?f c))"
    then have "dataset_resource_iri K n i \<in> resource_iris K (?f c)" using c(1) by (auto simp: resource_iris_def)
    then show "dataset_resource_iri K n i \<in> V" unfolding V using n by blast
  qed
  moreover have "service_resource_iri K n i \<in> V \<longleftrightarrow> i \<in> service_id ` set (data_services (?f c))" for i
  proof
    assume "service_resource_iri K n i \<in> V"
    then obtain k e where e: "m k = Some e" "service_resource_iri K n i \<in> resource_iris K (?f e)" unfolding V by blast
    moreover have "origin_node e = k" using rep e(1) by (auto simp: represents_def)
    ultimately show "i \<in> service_id ` set (data_services (?f c))" using n by (auto simp: resource_iris_def)
  next
    assume "i \<in> service_id ` set (data_services (?f c))"
    then have "service_resource_iri K n i \<in> resource_iris K (?f c)" using c(1) by (auto simp: resource_iris_def)
    then show "service_resource_iri K n i \<in> V" unfolding V using n by blast
  qed
  moreover have "filter (\<lambda>d. dataset_id d \<in> dataset_id ` set (filter P ds)) ds = filter P ds"
    if "distinct (map dataset_id ds)" for P ds
    using that by (auto simp: distinct_map inj_on_def intro!: filter_cong)
  moreover have "filter (\<lambda>s. service_id s \<in> service_id ` set (filter P ss)) ss = filter P ss"
    if "distinct (map service_id ss)" for P ss
    using that by (auto simp: distinct_map inj_on_def intro!: filter_cong)
  ultimately have "datasets (restrict_catalog K V c) = datasets (?f c)" "data_services (restrict_catalog K V c) = data_services (?f c)"
    using c by (simp_all add: restrict_catalog_def del: set_filter)
  then show ?thesis by (simp add: restrict_catalog_def filter_catalog_def Let_def)
qed

end

lemma filter_storable: "storable K c \<Longrightarrow> storable K (filter_catalog eval cl config services c)"
  by (auto simp: storable_def catalog_wf_def catalog_depth_ok_def catalog_keys_ok_def catalog_vecs_def vec_len_def
      distinct_map_filter intro: le_less_trans [OF length_filter_le])

lemma represented_keys: "represents K db m \<Longrightarrow> inj_on catalog_key (ran m)"
  by (auto simp: inj_on_def ran_def catalog_key_def represents_def)

text \<open>
  Claim C5. The filtered surfaces agree: with the allow-list decided on a store for a caller, \<open>/sparql\<close> reads from it
  exactly what it would read from a store that holds the catalogs \<open>GET /catalog\<close> shows that caller, whichever
  pattern, graph listing or graph test a query uses; and \<open>GET /catalog\<close>, for all nodes or one, returns the
  contents of that same store.
\<close>

theorem surfaces_agree:
  assumes "iri_codec K" "represents K db m" "should_filter_by_policy gated config"
    "represents K db' (\<lambda>n. map_option (filter_catalog eval (engine_claims_from_bearer now bearer_claims) config HideGatedOnly) (m n))"
    "decided_on K (\<lambda>t. visible_resource_iris K eval (engine_claims_from_bearer now bearer_claims) config (\<lambda>_. False)) (db_quads db) V"
  shows "set (internal_quads_for_pattern V pat (db_quads db)) = set (internal_quads_for_pattern V pat (db_quads db')) \<and>
    set (internal_named_graphs (db_quads db)) = set (internal_named_graphs (db_quads db')) \<and>
    contains_internal_graph_name g (db_quads db) = contains_internal_graph_name g (db_quads db') \<and>
    visible_catalogs K eval now bearer_claims gated config HideGatedOnly query_all db = catalogs K query_all (db_quads db') \<and>
    visible_catalogs K eval now bearer_claims gated config HideGatedOnly (query_for_node n) db
      = catalogs K (query_for_node n) (db_quads db')"
proof -
  let ?f = "filter_catalog eval (engine_claims_from_bearer now bearer_claims) config HideGatedOnly"
  have V: "V = \<Union> {resource_iris K (?f c) | n c. m n = Some c}"
    by (rule iri_codec.decided_resources [OF assms(1,2) _ assms(5)]) simp
  have "map_option (restrict_catalog K V) (m n) = map_option ?f (m n)" for n
    using iri_codec.restrict_is_filter [OF assms(1,2) _ V] by (cases "m n") auto
  then have "represents K db' (\<lambda>n. map_option (restrict_catalog K V) (m n))" using assms(4) by simp
  note sparql = hidden_lookups_equal [OF assms(1,2) this, where pat = pat and g = g]
  obtain xs where xs: "catalogs K query_all (db_quads db) = Inr xs" "set xs = ran m" "distinct xs" "sorted (map catalog_key xs)"
    using iri_codec.query_every_ok [OF assms(1,2)] by blast
  obtain ys where ys: "catalogs K query_all (db_quads db') = Inr ys" "set ys = ran (\<lambda>n. map_option ?f (m n))" "distinct ys"
      "sorted (map catalog_key ys)"
    using iri_codec.query_every_ok [OF assms(1,4)] by blast
  have key: "catalog_key (?f c) = catalog_key c" for c by (simp add: catalog_key_def)
  note inj = represented_keys [OF assms(2)]
  have "map ?f xs = ys"
  proof (rule sorted_distinct_key_unique [where f = catalog_key])
    show "sorted (map catalog_key (map ?f xs))" using xs(4) by (simp add: key comp_def)
    show "distinct (map catalog_key ys)"
      using ys(3) represented_keys [OF assms(4)] by (simp add: distinct_map ys(2))
    have "distinct (map catalog_key (map ?f xs))" using xs inj by (simp add: key comp_def distinct_map)
    then show "distinct (map ?f xs)" by (simp only: distinct_map)
    show "set (map ?f xs) = set ys" using xs(2) ys(2) by (auto simp: ran_def)
  qed (use ys in simp)
  then have "visible_catalogs K eval now bearer_claims gated config HideGatedOnly query_all db = catalogs K query_all (db_quads db')"
    using xs(1) ys(1) assms(3) by (simp add: visible_catalogs_def filter_catalogs_by_policy_def)
  moreover have "visible_catalogs K eval now bearer_claims gated config HideGatedOnly (query_for_node n) db
      = catalogs K (query_for_node n) (db_quads db')"
    using iri_codec.query_node_ok [OF assms(1,2), of n] iri_codec.query_node_ok [OF assms(1,4), of n] assms(3)
    by (cases "m n") (simp_all add: visible_catalogs_def filter_catalogs_by_policy_def)
  ultimately show ?thesis using sparql by blast
qed

definition deny_all :: engine where
  "deny_all r = WireDeny"

theorem surfaces_agree_witness:
  "\<exists>V. visible_catalogs percent_codec deny_all ''2026-01-01T00:00:00Z'' None True policy_filter_config_default HideGatedOnly
      query_all (sample_db sample_catalog)
    = catalogs percent_codec query_all (db_quads (sample_db (filter_catalog deny_all
        (engine_claims_from_bearer ''2026-01-01T00:00:00Z'' None) policy_filter_config_default HideGatedOnly sample_catalog))) \<and>
    decided_on percent_codec (\<lambda>t. visible_resource_iris percent_codec deny_all
      (engine_claims_from_bearer ''2026-01-01T00:00:00Z'' None) policy_filter_config_default (\<lambda>_. False))
      (db_quads (sample_db sample_catalog)) V"
proof -
  let ?cl = "engine_claims_from_bearer ''2026-01-01T00:00:00Z'' None"
  let ?f = "filter_catalog deny_all ?cl policy_filter_config_default HideGatedOnly"
  let ?V = "decided_part percent_codec (\<lambda>t. visible_resource_iris percent_codec deny_all ?cl policy_filter_config_default (\<lambda>_. False))
    (db_quads (sample_db sample_catalog)) UNIV (\<lambda>_. 0)"
  have "(\<lambda>n. map_option ?f ([origin_node sample_catalog \<mapsto> sample_catalog] n)) = [origin_node (?f sample_catalog) \<mapsto> ?f sample_catalog]"
    by (auto simp: fun_eq_iff)
  then have r: "represents percent_codec (sample_db (?f sample_catalog))
      (\<lambda>n. map_option ?f ([origin_node sample_catalog \<mapsto> sample_catalog] n))"
    using sample_db_represents [OF filter_storable [OF sample_catalogs_storable(1)]] by simp
  have d: "decided_on percent_codec (\<lambda>t. visible_resource_iris percent_codec deny_all ?cl policy_filter_config_default (\<lambda>_. False))
      (db_quads (sample_db sample_catalog)) ?V"
    unfolding decided_on_def by blast
  have "should_filter_by_policy True policy_filter_config_default" by (simp add: should_filter_by_policy_def)
  then show ?thesis
    using surfaces_agree [OF percent.iri_codec_axioms sample_db_represents [OF sample_catalogs_storable(1)] _ r d] d by blast
qed

end
