(* ===== verification/Catalog_Offers.thy ===== *)
theory Catalog_Offers
  imports Crawl_Parse Catalog_Policy
begin

text \<open>
  The management API: \<open>crates/ds-catalog-broker-rs/src/routes/management.rs\<close>, from the visible catalogs to the JSON
  document of offers. A struct that derives \<open>Serialize\<close> is a record with its JSON object in the order of the
  fields; \<open>serde_json::json!\<close> objects are in key order. The derived deserializer of the request body is the
  parameter \<open>from_slice\<close>, \<open>None\<close> for a body it refuses.
\<close>

section \<open>Offers\<close>

record creator_json =
  creator_name :: string
  creator_thumbnail :: string

record dataset_offer =
  do_id :: string
  has_policy :: "json list"
  content_type :: string
  title :: "string option"
  description :: "string option"
  version :: "string option"
  creator :: "creator_json option"
  thumbnail :: "string option"
  keyword_list :: "string list"

record service_offer =
  so_id :: string
  so_description :: string
  so_url :: string

record catalog_offer =
  co_id :: string
  offered :: "dataset_offer list"
  service :: service_offer
  offer_participant :: string
  originator :: string

section \<open>Policies as JSON\<close>

definition MAX_SERVED_GROUP_DEPTH :: nat where
  "MAX_SERVED_GROUP_DEPTH = 56"

fun group_key :: "logical_constraint \<Rightarrow> string" where
  "group_key (And cs) = ''and''"
| "group_key (AndSequence cs) = ''and''"
| "group_key (Or cs) = ''or''"
| "group_key (Xone cs) = ''xone''"

function constraint_to_json :: "constraint \<Rightarrow> nat \<Rightarrow> json" where
  "constraint_to_json (Atomic a) group_depth =
     JObject [(''leftOperand'', JString (left_operand a)), (''operator'', JString (operator a)),
       (''rightOperand'', JString (right_operand a))]"
| "constraint_to_json (Logical l) group_depth =
     (if group_depth \<ge> MAX_SERVED_GROUP_DEPTH
      then constraint_to_json (unmappable ''logical group nested beyond the served depth limit'') group_depth
      else JObject [(group_key l, JArray (map (\<lambda>child. constraint_to_json child (group_depth + 1)) (children l)))])"
  by pat_completeness auto

termination
proof (relation "measure (\<lambda>(c, d). case c of Atomic a \<Rightarrow> 0 | Logical l \<Rightarrow> Suc (size c))")
  fix l d c assume "c \<in> set (children l)"
  then show "((c, d + 1), Logical l, d) \<in> measure (\<lambda>(c, d). case c of Atomic a \<Rightarrow> 0 | Logical l \<Rightarrow> Suc (size c))"
    using children_size [of c l] by (auto split: constraint.splits)
qed (auto simp: unmappable_def atomic_def)

declare constraint_to_json.simps(2) [simp del]

definition rule_to_json :: "rule \<Rightarrow> json" where
  "rule_to_json r =
     JObject ([(''action'', JString (action r))] @
       (if constraints r \<noteq> []
        then [(''constraint'', JArray (map (\<lambda>c. constraint_to_json c 0) (constraints r)))] else []))"

fun kind_name :: "policy_kind \<Rightarrow> string" where
  "kind_name KindSet = ''Set''"
| "kind_name KindOffer = ''Offer''"
| "kind_name KindAgreement = ''Agreement''"

definition insert_some :: "string \<Rightarrow> string option \<Rightarrow> (string, json) btree \<Rightarrow> (string, json) btree" where
  "insert_some k v m = (case v of Some s \<Rightarrow> btree_insert k (JString s) m | None \<Rightarrow> m)"

definition insert_rules :: "string \<Rightarrow> rule list \<Rightarrow> (string, json) btree \<Rightarrow> (string, json) btree" where
  "insert_rules k rs m = (if rs \<noteq> [] then btree_insert k (JArray (map rule_to_json rs)) m else m)"

definition policy_to_json :: "policy \<Rightarrow> json" where
  "policy_to_json p =
     (let m0 = [(''@type'', JString (kind_name (kind p)))];
          m1 = insert_some ''@id'' (policy_id p) m0;
          m2 = insert_some ''odrl:assigner'' (assigner p) m1;
          m3 = insert_some ''odrl:assignee'' (assignee p) m2;
          m4 = insert_rules ''permission'' (permissions p) m3;
          m5 = insert_rules ''prohibition'' (prohibitions p) m4;
          m6 = insert_rules ''obligation'' (obligations p) m5
      in JObject m6)"

section \<open>The conversion of a catalog\<close>

definition dataset_to_offer :: "dataset \<Rightarrow> dataset_offer" where
  "dataset_to_offer d =
     (let prop = map_of (ds_properties d);
          thumbnail_value = prop ''thumbnail''
      in \<lparr>do_id = dataset_id d,
          has_policy = map policy_to_json (policies d),
          content_type = (case distributions d of [] \<Rightarrow> [] | f # _ \<Rightarrow> format f),
          title = prop ''title'',
          description = prop ''description'',
          version = prop ''version'',
          creator = map_option (\<lambda>name. \<lparr>creator_name = name, creator_thumbnail = or_empty thumbnail_value\<rparr>)
            (prop ''creatorName''),
          thumbnail = thumbnail_value,
          keyword_list = or_empty (map_option (\<lambda>raw. filter (\<lambda>entry. entry \<noteq> []) (map trim (split_on (CHR '','') raw)))
            (prop ''keywords''))\<rparr>)"

definition catalog_to_offer :: "catalog \<Rightarrow> catalog_offer option" where
  "catalog_to_offer c =
     (case data_services c of
        [] \<Rightarrow> None
      | s # _ \<Rightarrow>
          (let participant = (case participant_id c of Some p \<Rightarrow> p | None \<Rightarrow> origin_node c)
           in Some \<lparr>co_id = catalog_id c, offered = map dataset_to_offer (datasets c),
                service = \<lparr>so_id = service_id s, so_description = or_empty (endpoint_description s),
                  so_url = endpoint_url s\<rparr>,
                offer_participant = participant, originator = participant\<rparr>))"

section \<open>The request and the response\<close>

record request_constraint =
  operand_left :: string
  request_operator :: string
  operand_right :: string

type_synonym request_body = "request_constraint list"

fun dataset_id_filter :: "request_constraint list \<Rightarrow> string option" where
  "dataset_id_filter [] = None"
| "dataset_id_filter (c # cs) =
     (if operand_left c = ''datasets.id'' \<and> request_operator c = ''='' then Some (operand_right c)
      else dataset_id_filter cs)"

definition some_entry :: "string \<Rightarrow> ('a \<Rightarrow> json) \<Rightarrow> 'a option \<Rightarrow> (string \<times> json) list" where
  "some_entry k f v = (case v of Some a \<Rightarrow> [(k, f a)] | None \<Rightarrow> [])"

definition thumbnail_json :: "string \<Rightarrow> json" where
  "thumbnail_json resource = JObject [(''resource'', JString resource)]"

definition dataset_json :: "dataset_offer \<Rightarrow> json" where
  "dataset_json d =
     JObject ([(''@id'', JString (do_id d)), (''@type'', JString ''Dataset''),
       (''http://www.w3.org/ns/odrl/2/hasPolicy'', JArray (has_policy d)),
       (''name'', JString (do_id d)), (''contenttype'', JString (content_type d))] @
       some_entry ''title'' JString (title d) @ some_entry ''description'' JString (description d) @
       some_entry ''version'' JString (version d) @
       some_entry ''creator'' (\<lambda>c. JObject [(''name'', JString (creator_name c)),
         (''thumbnail'', thumbnail_json (creator_thumbnail c))]) (creator d) @
       some_entry ''thumbnail'' thumbnail_json (thumbnail d) @
       (if keyword_list d = [] then [] else [(''keywords'', JArray (map JString (keyword_list d)))]))"

definition offer_json :: "catalog_offer \<Rightarrow> json" where
  "offer_json ofr =
     JObject ([(''@id'', JString (co_id ofr)), (''@type'', JString ''Catalog'')] @
       (if offered ofr = [] then [] else [(''http://www.w3.org/ns/dcat#dataset'', JArray (map dataset_json (offered ofr)))]) @
       [(''http://www.w3.org/ns/dcat#service'', JObject [(''@id'', JString (so_id (service ofr))),
          (''@type'', JString ''DataService''),
          (''http://www.w3.org/ns/dcat#endpointDescription'', JString (so_description (service ofr))),
          (''http://www.w3.org/ns/dcat#endpointURL'', JString (so_url (service ofr)))]),
        (''participantId'', JObject [(''@id'', JString (offer_participant ofr))]),
        (''originator'', JString (originator ofr))])"

definition served_offers :: "(string \<Rightarrow> request_body option) \<Rightarrow> catalog list \<Rightarrow> string \<Rightarrow> catalog_offer list" where
  "served_offers from_slice cs body =
     (let offers = somes (map catalog_to_offer cs);
          filter_expression = or_empty (from_slice body)
      in case dataset_id_filter filter_expression of
           Some i \<Rightarrow> filter (\<lambda>ofr. list_ex (\<lambda>d. do_id d = i) (offered ofr)) offers
         | None \<Rightarrow> offers)"

definition render_offers :: "(string \<Rightarrow> request_body option) \<Rightarrow> catalog list \<Rightarrow> string \<Rightarrow> json" where
  "render_offers from_slice cs body = JArray (map offer_json (served_offers from_slice cs body))"

section \<open>Reading a served policy back\<close>

text \<open>
  What a reader gets from a served policy: ordered groups without their order, and a group nested too deep as
  the marker that no request satisfies.
\<close>

fun regroup :: "logical_constraint \<Rightarrow> constraint list \<Rightarrow> logical_constraint" where
  "regroup (And _) cs = And cs"
| "regroup (AndSequence _) cs = And cs"
| "regroup (Or _) cs = Or cs"
| "regroup (Xone _) cs = Xone cs"

function served_constraint :: "nat \<Rightarrow> constraint \<Rightarrow> constraint" where
  "served_constraint d (Atomic a) = Atomic a"
| "served_constraint d (Logical l) =
     (if d \<ge> MAX_SERVED_GROUP_DEPTH then unmappable ''logical group nested beyond the served depth limit''
      else Logical (regroup l (map (served_constraint (d + 1)) (children l))))"
  by pat_completeness auto

termination
  by (relation "measure (size \<circ> snd)") (use children_size in auto)

declare served_constraint.simps(2) [simp del]

definition served_rule :: "rule \<Rightarrow> rule" where
  "served_rule r = \<lparr>action = normalize_action (action r), constraints = map (served_constraint 0) (constraints r)\<rparr>"

definition served_policy :: "(json \<Rightarrow> string) \<Rightarrow> policy \<Rightarrow> policy" where
  "served_policy print p =
     p\<lparr>permissions := map served_rule (permissions p), prohibitions := map served_rule (prohibitions p),
       obligations := map served_rule (obligations p) @
         (if policy_rules p = [] then [unmappable_rule print (policy_to_json p)] else [])\<rparr>"

lemmas alias_simps = aliased_all_def aliases_def ODRL_NS_def one_or_many_aliased_def get_field_def

lemma parse_atomic:
  "d \<le> MAX_CONSTRAINT_DEPTH \<Longrightarrow> parse_constraint print (constraint_to_json (Atomic a) e) d = Atomic a"
  by (simp add: parse_constraint.simps [of print _ d] logical_present_def LOGICAL_CONSTRAINT_BUILDERS_def atomic_triple_def
      alias_simps atomic_def)

lemma parse_group:
  assumes "d < MAX_CONSTRAINT_DEPTH"
  shows "parse_constraint print (JObject [(group_key l, JArray vs)]) d = Logical (regroup l (map (\<lambda>v. parse_constraint print v (d + 1)) vs))"
  using assms by (cases l) (simp_all add: parse_constraint.simps [of print _ d] logical_present_def has_atomic_key_def
      LOGICAL_CONSTRAINT_BUILDERS_def atomic_triple_def alias_simps and_of_def or_of_def xone_of_def)

lemma parse_served: "d \<le> MAX_SERVED_GROUP_DEPTH \<Longrightarrow> parse_constraint print (constraint_to_json c d) d = served_constraint d c"
proof (induction c arbitrary: d rule: constraint_induct)
  case (Atomic a)
  then show ?case by (simp add: parse_atomic MAX_SERVED_GROUP_DEPTH_def MAX_CONSTRAINT_DEPTH_def del: constraint_to_json.simps(1))
next
  case (Logical l)
  show ?case
  proof (cases "d = MAX_SERVED_GROUP_DEPTH")
    case True
    then show ?thesis
      by (simp add: constraint_to_json.simps(2) served_constraint.simps(2) unmappable_def atomic_def parse_atomic
          MAX_SERVED_GROUP_DEPTH_def MAX_CONSTRAINT_DEPTH_def del: constraint_to_json.simps(1))
  next
    case False
    with Logical have "d < MAX_SERVED_GROUP_DEPTH" "d < MAX_CONSTRAINT_DEPTH"
      by (simp_all add: MAX_SERVED_GROUP_DEPTH_def MAX_CONSTRAINT_DEPTH_def)
    moreover from this have "map (\<lambda>c. parse_constraint print (constraint_to_json c (d + 1)) (d + 1)) (children l) =
        map (served_constraint (d + 1)) (children l)"
      using Logical.IH by simp
    ultimately show ?thesis
      by (simp add: constraint_to_json.simps(2) served_constraint.simps(2) parse_group cong: map_cong)
  qed
qed

lemma parse_served_rule: "parse_rule print (rule_to_json r) = served_rule r"
  by (simp add: parse_rule_def rule_to_json_def served_rule_def alias_simps rule_level_markers_def parse_constraints_def
      parse_served)

lemma map_of_insert_some [simp]: "map_of (insert_some k v m) = (case v of Some s \<Rightarrow> (map_of m)(k \<mapsto> JString s) | None \<Rightarrow> map_of m)"
  by (simp add: insert_some_def split: option.splits)

lemma map_of_insert_rules [simp]:
  "map_of (insert_rules k rs m) = (if rs \<noteq> [] then (map_of m)(k \<mapsto> JArray (map rule_to_json rs)) else map_of m)"
  by (simp add: insert_rules_def)

lemma jget_policy:
  "jget (policy_to_json p) k =
     (if k = ''obligation'' \<and> obligations p \<noteq> [] then Some (JArray (map rule_to_json (obligations p)))
      else if k = ''prohibition'' \<and> prohibitions p \<noteq> [] then Some (JArray (map rule_to_json (prohibitions p)))
      else if k = ''permission'' \<and> permissions p \<noteq> [] then Some (JArray (map rule_to_json (permissions p)))
      else if k = ''odrl:assignee'' then map_option JString (assignee p)
      else if k = ''odrl:assigner'' then map_option JString (assigner p)
      else if k = ''@id'' then map_option JString (policy_id p)
      else if k = ''@type'' then Some (JString (kind_name (kind p))) else None)"
  unfolding policy_to_json_def Let_def jget.simps map_of_insert_rules map_of_insert_some
  by (cases "policy_id p"; cases "assigner p"; cases "assignee p") simp_all

lemma policy_fields:
  "get_field print (policy_to_json p) ''assigner'' = (case assigner p of Some a \<Rightarrow> Value a | None \<Rightarrow> Absent)"
  "get_field print (policy_to_json p) ''assignee'' = (case assignee p of Some a \<Rightarrow> Value a | None \<Rightarrow> Absent)"
  "parse_rules print (policy_to_json p) ''permission'' = map served_rule (permissions p)"
  "parse_rules print (policy_to_json p) ''prohibition'' = map served_rule (prohibitions p)"
  "parse_rules print (policy_to_json p) ''obligation'' = map served_rule (obligations p)"
  "parse_kind (policy_to_json p) = kind p"
  "get_str (policy_to_json p) ''@id'' = policy_id p"
  "no_rule_key (policy_to_json p) \<longleftrightarrow> policy_rules p = []"
  by (simp_all add: jget_policy alias_simps parse_rules_def parse_served_rule parse_kind_def get_str_def no_rule_key_def
      policy_rules_def comp_def split: option.splits) (cases "kind p"; cases "policy_id p"; simp)+

text \<open>
  Claim C28. What the management API serves loses no restriction: the crawler's own parser reads a served policy back
  as the stored one, every rule and constraint of it, in order, with three documented differences. Ordered
  groups come back as plain conjunctions, a group under 56 others as the marker, and a policy with no rule with
  the marker rule; an action comes back in its canonical spelling.
\<close>

theorem served_policy_reads_back:
  "parse_policy print (policy_to_json p) = served_policy print p"
  by (simp add: parse_policy_def policy_fields served_policy_def split: option.splits)

section \<open>The shape of the response\<close>

text \<open>
  The documents the client's types read: every key those types require is there with a value of its kind, and a
  key the client does not know is not.
\<close>

definition keys_within :: "string list \<Rightarrow> string list \<Rightarrow> (string \<times> json) list \<Rightarrow> bool" where
  "keys_within required optional m \<longleftrightarrow>
     distinct (map fst m) \<and> set required \<subseteq> fst ` set m \<and> fst ` set m \<subseteq> set (required @ optional)"

fun is_string :: "json \<Rightarrow> bool" where
  "is_string (JString s) = True"
| "is_string _ = False"

inductive client_constraint :: "json \<Rightarrow> bool" where
  atomic: "keys_within [''leftOperand'', ''operator'', ''rightOperand''] [] m \<Longrightarrow> list_all (\<lambda>e. is_string (snd e)) m \<Longrightarrow>
     client_constraint (JObject m)"
| multiplicity: "k \<in> {''and'', ''or'', ''xone''} \<Longrightarrow> (\<And>v. v \<in> set vs \<Longrightarrow> client_constraint v) \<Longrightarrow>
     client_constraint (JObject [(k, JArray vs)])"

fun entry_ok :: "(string \<Rightarrow> json \<Rightarrow> bool) \<Rightarrow> string \<times> json \<Rightarrow> bool" where
  "entry_ok ok (k, v) = ok k v"

definition array_of :: "(json \<Rightarrow> bool) \<Rightarrow> json \<Rightarrow> bool" where
  "array_of ok v = (case as_array v of Some vs \<Rightarrow> list_all ok vs | None \<Rightarrow> False)"

definition object_of :: "string list \<Rightarrow> string list \<Rightarrow> (string \<Rightarrow> json \<Rightarrow> bool) \<Rightarrow> json \<Rightarrow> bool" where
  "object_of required optional ok v = (case v of JObject m \<Rightarrow> keys_within required optional m \<and> list_all (entry_ok ok) m | _ \<Rightarrow> False)"

definition client_rule :: "json \<Rightarrow> bool" where
  "client_rule = object_of [''action''] [''constraint'']
     (\<lambda>k. if k = ''action'' then is_string else array_of client_constraint)"

definition client_policy :: "json \<Rightarrow> bool" where
  "client_policy = object_of [''@type''] [''@id'', ''odrl:assigner'', ''odrl:assignee'', ''permission'', ''prohibition'', ''obligation'']
     (\<lambda>k v. if k = ''@type'' then v \<in> JString ` {''Set'', ''Offer'', ''Agreement''}
       else if k \<in> {''permission'', ''prohibition'', ''obligation''} then array_of client_rule v else is_string v)"

definition client_thumbnail :: "json \<Rightarrow> bool" where
  "client_thumbnail = object_of [''resource''] [] (\<lambda>k. is_string)"

definition client_creator :: "json \<Rightarrow> bool" where
  "client_creator = object_of [''name'', ''thumbnail''] [] (\<lambda>k. if k = ''name'' then is_string else client_thumbnail)"

definition client_dataset :: "json \<Rightarrow> bool" where
  "client_dataset = object_of [''@id'', ''@type'', ''http://www.w3.org/ns/odrl/2/hasPolicy'', ''name'', ''contenttype'']
     [''title'', ''description'', ''version'', ''creator'', ''thumbnail'', ''keywords'']
     (\<lambda>k. if k = ''http://www.w3.org/ns/odrl/2/hasPolicy'' then array_of client_policy
       else if k = ''creator'' then client_creator else if k = ''thumbnail'' then client_thumbnail
       else if k = ''keywords'' then array_of is_string else is_string)"

definition client_service :: "json \<Rightarrow> bool" where
  "client_service = object_of [''@id'', ''@type'', ''http://www.w3.org/ns/dcat#endpointDescription'',
     ''http://www.w3.org/ns/dcat#endpointURL''] [] (\<lambda>k. is_string)"

definition client_offer :: "json \<Rightarrow> bool" where
  "client_offer = object_of [''@id'', ''@type'', ''http://www.w3.org/ns/dcat#service'', ''participantId'', ''originator'']
     [''http://www.w3.org/ns/dcat#dataset'']
     (\<lambda>k. if k = ''http://www.w3.org/ns/dcat#dataset'' then array_of client_dataset
       else if k = ''http://www.w3.org/ns/dcat#service'' then client_service
       else if k = ''participantId'' then object_of [''@id''] [] (\<lambda>k. is_string) else is_string)"

lemmas shape_simps = object_of_def array_of_def keys_within_def

lemma served_constraint_shape: "client_constraint (constraint_to_json c d)"
proof (induction c arbitrary: d rule: constraint_induct)
  case (Atomic a)
  then show ?case by (auto simp: keys_within_def intro: client_constraint.atomic)
next
  case (Logical l)
  have m: "client_constraint (constraint_to_json (unmappable x) d)" for x
    by (auto simp: keys_within_def unmappable_def atomic_def intro: client_constraint.atomic)
  have "client_constraint (JObject [(group_key l, JArray (map (\<lambda>child. constraint_to_json child (d + 1)) (children l)))])"
    using Logical by (intro client_constraint.multiplicity) (auto, cases l, auto)
  then show ?case using m by (simp add: constraint_to_json.simps(2))
qed

lemma rule_shape: "client_rule (rule_to_json r)"
  by (auto simp: client_rule_def rule_to_json_def shape_simps list_all_iff served_constraint_shape)

lemma policy_json_entries:
  obtains m where "policy_to_json p = JObject m" "btree_ok m" "map_of m = jget (policy_to_json p)"
proof -
  have ok: "btree_ok (insert_some k v m)" "btree_ok (insert_rules k rs m)" if "btree_ok m" for k v rs m
    using that by (simp_all add: insert_some_def insert_rules_def split: option.splits)
  show ?thesis
    by (rule that, unfold policy_to_json_def Let_def, rule refl) (auto intro!: ok simp: btree_ok_Cons)
qed

lemma policy_shape: "client_policy (policy_to_json p)"
proof -
  obtain m where m: "policy_to_json p = JObject m" "btree_ok m" "map_of m = jget (policy_to_json p)"
    by (rule policy_json_entries)
  have e: "(k, v) \<in> set m \<longleftrightarrow> jget (policy_to_json p) k = Some v" for k v
    using m btree_ok_distinct [OF m(2)] by (metis map_of_eq_Some_iff)
  have "JString (kind_name (kind p)) \<in> JString ` {''Set'', ''Offer'', ''Agreement''}" by (cases "kind p") simp_all
  then have "list_all (entry_ok (\<lambda>k v. if k = ''@type'' then v \<in> JString ` {''Set'', ''Offer'', ''Agreement''}
       else if k \<in> {''permission'', ''prohibition'', ''obligation''} then array_of client_rule v else is_string v)) m"
    by (auto simp: list_all_iff e jget_policy array_of_def rule_shape split: if_splits)
  moreover have "(k, v) \<in> set m \<Longrightarrow> k \<in> {''@type'', ''@id'', ''odrl:assigner'', ''odrl:assignee'', ''permission'', ''prohibition'', ''obligation''}" for k v
    by (auto simp: e jget_policy split: if_splits)
  then have "fst ` set m \<subseteq> {''@type'', ''@id'', ''odrl:assigner'', ''odrl:assignee'', ''permission'', ''prohibition'', ''obligation''}"
    by fastforce
  moreover have "(''@type'', JString (kind_name (kind p))) \<in> set m" by (simp add: e jget_policy)
  then have "''@type'' \<in> fst ` set m" by force
  ultimately show ?thesis
    using btree_ok_distinct [OF m(2)] unfolding client_policy_def object_of_def keys_within_def m(1) by simp
qed

lemma some_entry_simps [simp]: "some_entry k f None = []" "some_entry k f (Some a) = [(k, f a)]"
  by (simp_all add: some_entry_def)

lemma thumbnail_shape: "client_thumbnail (thumbnail_json u)"
  by (simp add: client_thumbnail_def thumbnail_json_def shape_simps)

lemma dataset_shape: "list_all client_policy (has_policy d) \<Longrightarrow> client_dataset (dataset_json d)"
  unfolding client_dataset_def dataset_json_def
  by (cases "title d"; cases "description d"; cases "version d"; cases "creator d"; cases "thumbnail d"; cases "keyword_list d = []")
    (simp_all add: shape_simps thumbnail_shape client_creator_def list_all_iff)

lemma policies_of_dataset: "has_policy (dataset_to_offer d) = map policy_to_json (policies d)"
  by (simp add: dataset_to_offer_def Let_def)

lemma offered_datasets: "catalog_to_offer c = Some ofr \<Longrightarrow> offered ofr = map dataset_to_offer (datasets c)"
  by (auto simp: catalog_to_offer_def Let_def split: list.splits)

lemma offer_shape: "catalog_to_offer c = Some ofr \<Longrightarrow> client_offer (offer_json ofr)"
  by (auto simp: client_offer_def offer_json_def shape_simps client_service_def list_all_iff offered_datasets
      policies_of_dataset intro!: dataset_shape policy_shape)

lemma served_offer: "ofr \<in> set (served_offers from_slice cs body) \<Longrightarrow> \<exists>c\<in>set cs. catalog_to_offer c = Some ofr"
  by (auto simp: served_offers_def Let_def set_somes split: option.splits)

text \<open>
  Claim C29. Every response of the management API is a list of documents of the client's type, whatever was
  harvested and whatever the request body: each object has every key its type requires, no key twice and none
  the type does not know, down to the last constraint of every policy.
\<close>

theorem offers_fit_client:
  "array_of client_offer (render_offers from_slice cs body)"
  using served_offer offer_shape by (fastforce simp: render_offers_def array_of_def list_all_iff)

section \<open>The depth of the response\<close>

lemma served_constraint_depth:
  "d \<le> MAX_SERVED_GROUP_DEPTH \<Longrightarrow> json_depth (constraint_to_json c d) \<le> 2 * (MAX_SERVED_GROUP_DEPTH - d) + 1"
proof (induction c arbitrary: d rule: constraint_induct)
  case (Logical l)
  show ?case
  proof (cases "d = MAX_SERVED_GROUP_DEPTH")
    case True
    then show ?thesis by (simp add: constraint_to_json.simps(2) unmappable_def atomic_def)
  next
    case False
    with Logical.prems have d: "d < MAX_SERVED_GROUP_DEPTH" by simp
    then have *: "json_depth (constraint_to_json c (d + 1)) \<le> 2 * (MAX_SERVED_GROUP_DEPTH - (d + 1)) + 1"
      if "c \<in> set (children l)" for c
      using Logical.IH that by (metis Suc_eq_plus1 Suc_leI)
    have "json_depth (constraint_to_json c (d + 1)) \<le> 2 * (MAX_SERVED_GROUP_DEPTH - d) - 1" if "c \<in> set (children l)" for c
      using * [OF that] d by linarith
    with d show ?thesis by (auto simp: constraint_to_json.simps(2) list_all_iff)
  qed
qed simp

lemma rule_json_depth: "json_depth (rule_to_json r) \<le> 115"
  using served_constraint_depth [of 0] by (auto simp: rule_to_json_def list_all_iff MAX_SERVED_GROUP_DEPTH_def)

lemma policy_json_depth: "json_depth (policy_to_json p) \<le> 117"
proof -
  obtain m where m: "policy_to_json p = JObject m" "btree_ok m" "map_of m = jget (policy_to_json p)"
    by (rule policy_json_entries)
  have "json_depth v \<le> 116" if "(k, v) \<in> set m" for k v
  proof -
    have "jget (policy_to_json p) k = Some v"
      using m that btree_ok_distinct [OF m(2)] by (metis map_of_eq_Some_iff)
    then show ?thesis using rule_json_depth by (auto simp: jget_policy list_all_iff split: if_splits)
  qed
  then show ?thesis unfolding m(1) by (auto simp: list_all_iff)
qed

lemma dataset_json_depth: "list_all (\<lambda>v. json_depth v \<le> 117) (has_policy d) \<Longrightarrow> json_depth (dataset_json d) \<le> 119"
  unfolding dataset_json_def
  by (cases "title d"; cases "description d"; cases "version d"; cases "creator d"; cases "thumbnail d"; cases "keyword_list d = []")
    (simp_all add: thumbnail_json_def list_all_iff)

lemma offer_json_depth: "catalog_to_offer c = Some ofr \<Longrightarrow> json_depth (offer_json ofr) \<le> 121"
  by (auto simp: offer_json_def list_all_iff offered_datasets policies_of_dataset
      intro!: dataset_json_depth policy_json_depth)

text \<open>A catalog whose only policy has the deepest tree of groups that is served whole.\<close>

fun nest :: "nat \<Rightarrow> constraint" where
  "nest 0 = atomic ''purpose'' ''eq'' ''research''"
| "nest (Suc n) = and_of [nest n]"

definition deepest_catalog :: catalog where
  "deepest_catalog = (catalog_new ''c'' ''node a'')\<lparr>
     datasets := [\<lparr>dataset_id = ''d'', ds_properties = [], distributions = [],
       policies = [\<lparr>policy_id = None, kind = KindOffer, assigner = None, assignee = None,
         permissions = [\<lparr>action = ''odrl:use'', constraints = [nest MAX_SERVED_GROUP_DEPTH]\<rparr>],
         prohibitions = [], obligations = []\<rparr>]\<rparr>],
     data_services := [\<lparr>service_id = ''s'', endpoint_url = [], endpoint_description = None\<rparr>]\<rparr>"

lemma nest_depth: "n + d \<le> MAX_SERVED_GROUP_DEPTH \<Longrightarrow> json_depth (constraint_to_json (nest n) d) = 2 * n + 1"
  by (induction n arbitrary: d) (simp_all add: atomic_def and_of_def constraint_to_json.simps(2) json_depth.simps)

lemma deepest_response: "json_depth (render_offers (\<lambda>_. None) [deepest_catalog] []) = 122"
  by (simp add: render_offers_def served_offers_def deepest_catalog_def catalog_new_def catalog_to_offer_def dataset_to_offer_def
      Let_def or_empty_def offer_json_def dataset_json_def some_entry_def policy_to_json_def insert_some_def insert_rules_def
      rule_to_json_def json_depth.simps nest_depth MAX_SERVED_GROUP_DEPTH_def)

text \<open>
  Claim C30. No response of the management API is nested deeper than 122 levels, so that a reader with serde's limit
  of 128 parses it whatever was harvested; and the bound is reached.
\<close>

theorem response_depth_bounded:
  "json_depth (render_offers from_slice cs body) \<le> 122 \<and> json_depth (render_offers (\<lambda>_. None) [deepest_catalog] []) = 122"
proof
  show "json_depth (render_offers from_slice cs body) \<le> 122"
    using served_offer offer_json_depth by (fastforce simp: render_offers_def list_all_iff)
qed (rule deepest_response)

end
