(* ===== verification/Crawl_To_Store.thy ===== *)
theory Crawl_To_Store
  imports Crawl_Parse Catalog_Store
begin

text \<open>
  Properties of the catalog cache, and the chain from a crawled response to the stored catalog.
\<close>

lemma sample_storable: "storable percent_codec sample_catalog"
  using sample_catalog_ok by (simp add: storable_def)

lemma sample_stored:
  "represents percent_codec (snd (store_catalog percent_codec NoFault sample_catalog empty_db)) [''node a'' \<mapsto> sample_catalog]"
proof -
  obtain r db where s: "store_catalog percent_codec NoFault sample_catalog empty_db = (r, db)" by fastforce
  have "origin_node sample_catalog = ''node a''" by (simp add: sample_catalog_def)
  then show ?thesis
    using s percent.store.upsert_good [OF represents_empty sample_storable s] by simp
qed

text \<open>
  Claim C10. The store implements a map from nodes to catalogs: after storing a catalog, a query for its node returns
  exactly it and a query for any other node returns what it returned before, whatever was stored for the node
  earlier.
\<close>

theorem store_refines_map:
  assumes "iri_codec K" "represents K db m" "storable K c" "store_catalog K NoFault c db = (r, db')"
  shows "r = Inr () \<and> represents K db' (m(origin_node c \<mapsto> c)) \<and>
    catalogs K (query_for_node n) (db_quads db')
      = (if n = origin_node c then Inr [c] else catalogs K (query_for_node n) (db_quads db))"
  using catalog_cache.upsert_good [OF iri_codec.cache_laws [OF assms(1)] assms(2-4)]
    catalog_cache.query_after_upsert [OF iri_codec.cache_laws [OF assms(1)] assms(2-4), of n]
  by (auto simp: fun_upd_def)

theorem store_refines_map_witness:
  "catalogs percent_codec (query_for_node ''node a'')
     (db_quads (snd (store_catalog percent_codec NoFault sample_catalog empty_db))) = Inr [sample_catalog]"
proof -
  obtain r db where s: "store_catalog percent_codec NoFault sample_catalog empty_db = (r, db)" by fastforce
  have "origin_node sample_catalog = ''node a''" by (simp add: sample_catalog_def)
  then show ?thesis
    using store_refines_map [OF percent.iri_codec_axioms represents_empty sample_storable s, of "''node a''"] s
    by simp
qed



text \<open>
  A failed write changes no catalog: when the catalog is refused or the storage fails, the stored quads
  are those from before, and a catalog with a constraint past the depth bound is always refused.
\<close>

theorem failed_write_changes_nothing:
  "(case store_catalog K fault c db of
      (Inl e, db') \<Rightarrow> db_quads db' = db_quads db \<and> (catalog_depth_ok c \<longrightarrow> fault \<noteq> NoFault)
    | (Inr u, db') \<Rightarrow> catalog_depth_ok c \<and> fault = NoFault \<and> write_sequence db' = write_sequence db + 2)"
  using isl_write_catalog [of K c]
  by (cases "write_catalog K c"; cases fault) (auto simp: store_catalog_def)

theorem failed_write_changes_nothing_witness:
  "db_quads (snd (store_catalog percent_codec (StartFault ''full'') sample_catalog empty_db)) = []"
  using failed_write_changes_nothing [where K = percent_codec and fault = "StartFault ''full''" and c = sample_catalog and db = empty_db]
  by (auto simp: store_catalog_def empty_db_def split: sum.splits)

text \<open>A crawled catalog meets the store's conditions, its lists being vectors.\<close>

lemma dataset_keys_plain: "k \<in> set DATASET_KEYS \<Longrightarrow> CHR '':'' \<notin> set k"
  by (auto simp: DATASET_KEYS_def)

lemma crawled_storable:
  assumes "iri_codec K" "catalog_vecs (parse_catalog_response print uuid v participant)"
  shows "storable K (parse_catalog_response print uuid v participant)"
proof -
  let ?c = "parse_catalog_response print uuid v participant"
  have "keys_ok K R (ds_properties d)" if d: "d \<in> set (datasets ?c)" for d R
  proof -
    obtain w where "d = parse_dataset print w" using crawled_datasets_parsed [OF d] by blast
    then have "\<forall>k\<in>fst ` set (ds_properties d). \<not> iri_valid K k"
      using parse_ds_properties_keys [of w] dataset_keys_plain iri_codec.plain_key [OF assms(1)]
      by (auto simp: parse_dataset_def)
    then show ?thesis by (simp add: keys_ok_def)
  qed
  moreover have "properties ?c = []" by (rule parsed_identity)
  ultimately show ?thesis
    using crawled_wf assms(2) by (simp add: storable_def catalog_keys_ok_def)
qed

text \<open>
  Claim C1. From response to query: any response a participant sends, parsed and stored, is returned by the next query
  for that participant exactly as it was parsed, so what the policy filter judges is what the crawler read,
  down to every marker and nested group.
\<close>

theorem crawl_store_query:
  assumes "iri_codec K" "represents K db m" "catalog_vecs (parse_catalog_response print uuid v participant)"
    "store_catalog K NoFault (parse_catalog_response print uuid v participant) db = (r, db')"
  shows "r = Inr () \<and> catalogs K (query_for_node (pe_part_id participant)) (db_quads db')
    = Inr [parse_catalog_response print uuid v participant]"
proof -
  have "origin_node (parse_catalog_response print uuid v participant) = pe_part_id participant" by (rule parsed_identity)
  then show ?thesis
    using catalog_cache.upsert_good [OF iri_codec.cache_laws [OF assms(1)] assms(2) crawled_storable [OF assms(1,3)] assms(4)]
      catalog_cache.query_after_upsert [OF iri_codec.cache_laws [OF assms(1)] assms(2) crawled_storable [OF assms(1,3)]
        assms(4), of "pe_part_id participant"] by simp
qed

definition sample_response :: json where
  "sample_response = JObject [(''dataset'', JArray [JObject [(''@id'', JString ''d''),
     (''hasPolicy'', JString ''urn:p''), (''title'', JString ''Soil'')]])]"

definition sample_participant :: participant_entry where
  "sample_participant = \<lparr>pe_part_id = ''n'', pe_name = ''N'', catalog_request_url = ''https://n/catalog'',
     pe_protocol = ProtocolNone, provider_did = Some ''did:web:n'', oid4vp_response_uri = None\<rparr>"

lemma sample_response_vecs:
  "catalog_vecs (parse_catalog_response (\<lambda>_. []) ''u'' sample_response sample_participant)"
proof -
  have "parse_policies (\<lambda>_. []) (JObject [(''@id'', JString ''d''), (''hasPolicy'', JString ''urn:p''), (''title'', JString ''Soil'')])
      = [\<lparr>policy_id = None, kind = policy_kind_default, assigner = None, assignee = None,
          permissions = [], prohibitions = [], obligations = [unmappable_rule (\<lambda>_. []) (JString ''urn:p'')]\<rparr>]"
    by (simp add: parse_policies_def one_or_many_aliased_def aliased_all_def aliases_def ODRL_NS_def)
  then show ?thesis
    by (simp add: sample_response_def parse_catalog_response_def Let_def, subst collect_datasets_and_services.simps)
      (simp add: get_array_def or_empty_def push_dataset_def json_id_def catalog_new_def catalog_vecs_def vec_len_def
        dataset_vecs_def policy_vecs_def policy_rules_def rule_vecs_def unmappable_rule_def unmappable_def atomic_def)
qed

theorem crawl_store_query_witness:
  "catalogs percent_codec (query_for_node ''n'') (db_quads (snd (store_catalog percent_codec NoFault
      (parse_catalog_response (\<lambda>_. []) ''u'' sample_response sample_participant) empty_db)))
   = Inr [parse_catalog_response (\<lambda>_. []) ''u'' sample_response sample_participant]"
proof -
  obtain r db where s: "store_catalog percent_codec NoFault
      (parse_catalog_response (\<lambda>_. []) ''u'' sample_response sample_participant) empty_db = (r, db)" by fastforce
  have "pe_part_id sample_participant = ''n''" by (simp add: sample_participant_def)
  then show ?thesis
    using crawl_store_query [OF percent.iri_codec_axioms represents_empty sample_response_vecs s] s by simp
qed

end
