(* ===== verification/Crawl_Fetch.thy ===== *)
theory Crawl_Fetch
  imports Crawl_To_Store
begin

text \<open>
  Fetching one participant's catalog: \<open>crawl_one\<close> and the limits of \<open>crates/crawler/src/lib.rs\<close>, and the OID4VP
  presentation of \<open>oid4vp.rs\<close>. The peer is a function from the request sent to the reply, and what the clock
  and the random ids give is an argument.
\<close>

section \<open>Limits and allowed peers\<close>

record crawl_limits =
  participant_timeout :: nat
  concurrency :: nat
  max_catalog_age :: nat
  max_response_bytes :: nat

definition DEFAULT_MAX_RESPONSE_BYTES :: nat where
  "DEFAULT_MAX_RESPONSE_BYTES = 16 * 1024 * 1024"

text \<open>Durations are milliseconds.\<close>

definition crawl_limits_default :: crawl_limits where
  "crawl_limits_default = \<lparr>participant_timeout = 30 * 1000, concurrency = 8, max_catalog_age = 24 * 60 * 60 * 1000,
     max_response_bytes = DEFAULT_MAX_RESPONSE_BYTES\<rparr>"

text \<open>The scheme and host are the \<open>url\<close> crate's.\<close>

definition remote_allowed :: "string \<Rightarrow> string option \<Rightarrow> bool" where
  "remote_allowed scheme host =
     (if scheme = ''https'' then True
      else if scheme = ''http'' then
        (case host of
           Some h \<Rightarrow> is_loopback_literal (rev (dropWhile (\<lambda>c. c = CHR '']'') (rev (dropWhile (\<lambda>c. c = CHR ''['') h))))
         | None \<Rightarrow> False)
      else False)"

text \<open>The redirect policy of \<open>outbound_client\<close>: the origins visited so far, the last one first, and the target's.\<close>

definition follow_redirect :: "'o list \<Rightarrow> 'o \<Rightarrow> bool" where
  "follow_redirect previous target =
     (if length previous > 10 then False else (case previous of [] \<Rightarrow> False | from # _ \<Rightarrow> from = target))"

section \<open>Requests\<close>

datatype outgoing =
    CatalogRequest string string json
  | FormPost string "(string \<times> string) list"

definition OPEN_PARTICIPANT_PLACEHOLDER_AUTH :: string where
  "OPEN_PARTICIPANT_PLACEHOLDER_AUTH = ''federated-catalog-rs-crawler-anonymous''"

definition DSP_CONTEXT_URL :: string where
  "DSP_CONTEXT_URL = ''https://w3id.org/dspace/2025/1/context.jsonld''"

definition catalog_request_body :: json where
  "catalog_request_body = JObject
     [(''@context'', JArray [JString DSP_CONTEXT_URL]), (''@type'', JString ''CatalogRequestMessage'')]"

definition bearer :: "string \<Rightarrow> string" where
  "bearer token = ''Bearer '' @ token"

section \<open>OID4VP\<close>

definition DEFINITION_ID :: string where "DEFINITION_ID = ''federated-catalog-access''"
definition DESCRIPTOR_ID :: string where "DESCRIPTOR_ID = ''federated-catalog-access-credential''"

definition build_vp_token :: "jose \<Rightarrow> dcp_key_pair \<Rightarrow> string \<Rightarrow> string \<Rightarrow> nat \<Rightarrow> string \<Rightarrow> string" where
  "build_vp_token E kp credential audience now nonce =
     sign_jws E (JObject
        [(''aud'', JString audience), (''exp'', JNumber (PosInt (now + 300))), (''iat'', JNumber (PosInt now)),
         (''iss'', JString (own_did kp)), (''nonce'', JString nonce), (''sub'', JString (own_did kp)),
         (''vp'', JObject
           [(''@context'', JArray [JString ''https://www.w3.org/2018/credentials/v1'']),
            (''type'', JArray [JString ''VerifiablePresentation'']),
            (''verifiableCredential'', JArray [JString credential])])])
       (signing_key_bytes kp) (own_key_id kp)"

definition build_presentation_submission :: "string \<Rightarrow> string \<Rightarrow> json" where
  "build_presentation_submission definition_id uuid = JObject
     [(''definition_id'', JString definition_id),
      (''descriptor_map'', JArray [JObject
         [(''format'', JString ''jwt_vp_json''), (''id'', JString DESCRIPTOR_ID), (''path'', JString ''$'')]]),
      (''id'', JString uuid)]"

datatype oid4vp_error =
    VpTransport string string
  | VpStatus string nat
  | VpReadBody string body_error
  | VpMalformed string string
  | VpNoAccessToken string

definition present_oid4vp ::
    "jose \<Rightarrow> (outgoing \<Rightarrow> http_reply) \<Rightarrow> dcp_key_pair \<Rightarrow> string \<Rightarrow> string \<Rightarrow> nat \<Rightarrow> nat \<Rightarrow> string \<Rightarrow> string \<Rightarrow>
     oid4vp_error + string" where
  "present_oid4vp E post kp credential uri max_bytes now nonce submission_id =
     (case post (FormPost uri
         [(''vp_token'', build_vp_token E kp credential uri now nonce),
          (''presentation_submission'', json_print E (build_presentation_submission DEFINITION_ID submission_id))]) of
        TransportError e \<Rightarrow> Inl (VpTransport uri e)
      | Reply status content_length chunks \<Rightarrow>
          if \<not> is_success status then Inl (VpStatus uri status)
          else
            rbind (map_error (VpReadBody uri) (read_body_limited content_length chunks max_bytes)) (\<lambda>bytes.
            rbind (map_error (VpMalformed uri) (json_read E bytes)) (\<lambda>body.
              of_option (VpNoAccessToken uri) (get_str body ''access_token''))))"

section \<open>One participant\<close>

datatype crawl_error =
    NoHolderConfigured string
  | NoProviderDid string
  | NoResponseUri string
  | PresentationFailed string string oid4vp_error
  | RequestFailed string string
  | HttpStatus string nat
  | ReadFailed string body_error
  | MalformedJson string string
  | CrawlTimedOut string
  | CacheFailed store_error

text \<open>What one crawl draws: the clock when it signs, twice when it mints, and four ids.\<close>

record draws =
  dr_now :: nat
  dr_swept :: nat
  dr_jti :: string
  dr_access_jti :: string
  dr_nonce :: string
  dr_uuid :: string

text \<open>The \<open>Authorization\<close> header, and the holder after a token was minted.\<close>

definition authorization ::
    "jose \<Rightarrow> (outgoing \<Rightarrow> http_reply) \<Rightarrow> draws \<Rightarrow> nat \<Rightarrow> participant_entry \<Rightarrow> holder_identity option \<Rightarrow>
     (crawl_error + string) \<times> holder_identity option" where
  "authorization E post dr max_bytes p holder =
     (case pe_protocol p of
        ProtocolNone \<Rightarrow> (Inr OPEN_PARTICIPANT_PLACEHOLDER_AUTH, holder)
      | ProtocolDcp \<Rightarrow>
          (case holder of
             None \<Rightarrow> (Inl (NoHolderConfigured (pe_part_id p)), holder)
           | Some h \<Rightarrow>
               (case provider_did p of
                  None \<Rightarrow> (Inl (NoProviderDid (pe_part_id p)), holder)
                | Some did \<Rightarrow>
                    (case mint_self_issued_token E did (dr_now dr) (dr_swept dr) (dr_access_jti dr) (dr_jti dr) h of
                       (token, h') \<Rightarrow> (Inr (bearer token), Some h'))))
      | ProtocolOid4Vp \<Rightarrow>
          (case holder of
             None \<Rightarrow> (Inl (NoHolderConfigured (pe_part_id p)), holder)
           | Some h \<Rightarrow>
               (case oid4vp_response_uri p of
                  None \<Rightarrow> (Inl (NoResponseUri (pe_part_id p)), holder)
                | Some uri \<Rightarrow>
                    (map_error (PresentationFailed (pe_part_id p) uri)
                       (rbind (present_oid4vp E post (key_pair h) (credential_jws h) uri max_bytes (dr_now dr)
                           (dr_nonce dr) (dr_uuid dr)) (\<lambda>token. Inr (bearer token))),
                     holder))))"

text \<open>The request with that header, and the reading of its reply.\<close>

definition fetch_catalog ::
    "jose \<Rightarrow> (outgoing \<Rightarrow> http_reply) \<Rightarrow> string \<Rightarrow> nat \<Rightarrow> participant_entry \<Rightarrow> string \<Rightarrow> crawl_error + catalog" where
  "fetch_catalog E post uuid max_bytes p header =
     (case post (CatalogRequest (catalog_request_url p) header catalog_request_body) of
        TransportError e \<Rightarrow> Inl (RequestFailed (catalog_request_url p) e)
      | Reply status content_length chunks \<Rightarrow>
          if \<not> is_success status then Inl (HttpStatus (catalog_request_url p) status)
          else
            rbind (map_error (ReadFailed (catalog_request_url p))
                (read_body_limited content_length chunks max_bytes)) (\<lambda>bytes.
            rbind (map_error (MalformedJson (catalog_request_url p)) (json_read E bytes)) (\<lambda>body.
              Inr (parse_catalog_response (json_print E) uuid body p))))"

definition crawl_one ::
    "jose \<Rightarrow> (outgoing \<Rightarrow> http_reply) \<Rightarrow> draws \<Rightarrow> nat \<Rightarrow> participant_entry \<Rightarrow> holder_identity option \<Rightarrow>
     (crawl_error + catalog) \<times> holder_identity option" where
  "crawl_one E post dr max_bytes p holder =
     (case authorization E post dr max_bytes p holder of
        (auth, holder') \<Rightarrow> (rbind auth (fetch_catalog E post (dr_uuid dr) max_bytes p), holder'))"

lemma fetched_body:
  assumes "fetch_catalog E post uuid max_bytes p header = Inr c"
  shows "\<exists>bytes body. length bytes \<le> max_bytes \<and> json_read E bytes = Inr body \<and>
    c = parse_catalog_response (json_print E) uuid body p"
proof (cases "post (CatalogRequest (catalog_request_url p) header catalog_request_body)")
  case (Reply status cl chunks)
  then obtain bytes body where
    r: "read_body_limited cl chunks max_bytes = Inr bytes" "json_read E bytes = Inr body"
    "c = parse_catalog_response (json_print E) uuid body p"
    using assms by (auto simp: fetch_catalog_def result_simps split: if_splits)
  then show ?thesis using read_body_limited_ok [OF r(1)] by blast
qed (use assms in \<open>simp add: fetch_catalog_def\<close>)

lemma crawled_body:
  assumes "crawl_one E post dr max_bytes p holder = (Inr c, holder')"
  shows "\<exists>bytes body. length bytes \<le> max_bytes \<and> json_read E bytes = Inr body \<and>
    c = parse_catalog_response (json_print E) (dr_uuid dr) body p"
proof -
  obtain header where "fetch_catalog E post (dr_uuid dr) max_bytes p header = Inr c"
    using assms by (auto simp: crawl_one_def rbind_Inr_iff split: prod.splits)
  then show ?thesis by (rule fetched_body)
qed

text \<open>What a crawled catalog says about whose it is comes from the registry.\<close>

lemma crawled_identity:
  "crawl_one E post dr max_bytes p holder = (Inr c, holder') \<Longrightarrow>
   origin_node c = pe_part_id p \<and> participant_id c = provider_did p"
  using crawled_body [of E post dr max_bytes p holder c holder']
  by (auto simp: parsed_identity)

text \<open>
  What a crawl yields depends on the holder's keys and credential only, not on the tokens issued so far, which are
  all a crawl changes of it.
\<close>

definition same_holder :: "holder_identity option \<Rightarrow> holder_identity option \<Rightarrow> bool" where
  "same_holder a b \<longleftrightarrow> map_option (issued_update (\<lambda>_. [])) a = map_option (issued_update (\<lambda>_. [])) b"

lemma same_holder_refl [simp]: "same_holder h h"
  by (simp add: same_holder_def)

lemma same_holder_trans: "same_holder a b \<Longrightarrow> same_holder b c \<Longrightarrow> same_holder a c"
  by (simp add: same_holder_def)

lemma same_holder_None [simp]: "same_holder None h \<longleftrightarrow> h = None"
  by (auto simp: same_holder_def)

lemma same_holder_Some:
  "same_holder (Some h) h' \<longleftrightarrow> (\<exists>k. h' = Some k \<and> key_pair k = key_pair h \<and> own_did_host k = own_did_host h \<and>
     insecure_http k = insecure_http h \<and> credential_jws k = credential_jws h \<and> required_scope k = required_scope h)"
proof (cases h')
  case (Some k)
  then show ?thesis by (cases h, cases k) (auto simp: same_holder_def)
qed (simp add: same_holder_def)

lemma authorization_holder:
  "same_holder holder (snd (authorization E post dr max_bytes p holder))"
  by (cases "pe_protocol p"; cases holder)
    (auto simp: authorization_def same_holder_Some mint_self_issued_token_def remember_issued_def
      remember_issued_capped_def Let_def split: option.splits)

lemma authorization_indep:
  "same_holder holder holder' \<Longrightarrow>
   fst (authorization E post dr max_bytes p holder) = fst (authorization E post dr max_bytes p holder')"
  by (cases "pe_protocol p"; cases holder)
    (auto simp: authorization_def same_holder_Some mint_self_issued_token_def access_token_def split: option.splits)

lemma crawl_one_holder: "same_holder holder (snd (crawl_one E post dr max_bytes p holder))"
  using authorization_holder [of holder E post dr max_bytes p] by (simp add: crawl_one_def case_prod_beta)

lemma crawl_one_indep:
  "same_holder holder holder' \<Longrightarrow>
   fst (crawl_one E post dr max_bytes p holder) = fst (crawl_one E post dr max_bytes p holder')"
  using authorization_indep [of holder holder' E post dr max_bytes p] by (simp add: crawl_one_def case_prod_beta)

text \<open>Under a configuration that passed its checks, no crawl fails for want of configuration.\<close>

lemma authorization_configured:
  assumes "gate_ok hc p" "hc \<noteq> None \<Longrightarrow> holder \<noteq> None"
  shows "fst (authorization E post dr max_bytes p holder) \<notin>
    {Inl (NoHolderConfigured (pe_part_id p)), Inl (NoProviderDid (pe_part_id p)), Inl (NoResponseUri (pe_part_id p))}"
proof (cases "pe_protocol p")
  case ProtocolDcp
  then show ?thesis using assms by (auto simp: gate_ok_def authorization_def split: option.splits prod.splits)
next
  case ProtocolOid4Vp
  then obtain h uri where "holder = Some h" "oid4vp_response_uri p = Some uri" using assms by (auto simp: gate_ok_def)
  then show ?thesis using ProtocolOid4Vp
    by (cases "present_oid4vp E post (key_pair h) (credential_jws h) uri max_bytes (dr_now dr) (dr_nonce dr) (dr_uuid dr)")
      (simp_all add: authorization_def)
qed (simp add: authorization_def)

lemma fetch_no_config_error:
  "fetch_catalog E post uuid max_bytes p header \<notin>
    {Inl (NoHolderConfigured i), Inl (NoProviderDid i), Inl (NoResponseUri i)}"
proof (cases "post (CatalogRequest (catalog_request_url p) header catalog_request_body)")
  case (Reply status cl chunks)
  then show ?thesis
    by (cases "read_body_limited cl chunks max_bytes"; cases "json_read E (projr (read_body_limited cl chunks max_bytes))")
      (simp_all add: fetch_catalog_def)
qed (simp add: fetch_catalog_def)

text \<open>
  A configuration that passed its checks is complete: when the holder configured has been built, no crawl of
  a configured participant fails because the holder, the provider's DID or the response URI is missing, the three
  failures the crawl guards against for configurations built by hand.
\<close>

theorem validated_config_suffices:
  assumes "participants_config_new interval ps hc = Inr config" "p \<in> set (pc_participants config)"
    "pc_holder config \<noteq> None \<Longrightarrow> holder \<noteq> None"
  shows "fst (crawl_one E post dr max_bytes p holder) \<notin>
    {Inl (NoHolderConfigured (pe_part_id p)), Inl (NoProviderDid (pe_part_id p)), Inl (NoResponseUri (pe_part_id p))}"
proof -
  have "gate_ok (pc_holder config) p" using assms(1,2) by (auto simp: config_new_ok)
  note auth = authorization_configured [OF this assms(3), of E post dr max_bytes]
  show ?thesis
  proof (cases "fst (authorization E post dr max_bytes p holder)")
    case (Inl e)
    then show ?thesis using auth by (simp add: crawl_one_def case_prod_beta)
  next
    case (Inr header)
    then show ?thesis
      using fetch_no_config_error [of E post "dr_uuid dr" max_bytes p header "pe_part_id p"]
      by (simp add: crawl_one_def case_prod_beta)
  qed
qed

theorem validated_config_suffices_witness:
  "\<forall>E post dr max_bytes. fst (crawl_one E post dr max_bytes sample_participant None) \<noteq> Inl (NoHolderConfigured ''n'')"
proof -
  have "participants_config_new 60 [sample_participant] None =
      Inr \<lparr>interval_secs = 60, pc_participants = [sample_participant], pc_holder = None\<rparr>"
    by (simp add: participants_config_new_def sample_participant_def)
  from validated_config_suffices [OF this, of sample_participant None] show ?thesis
    by (simp add: sample_participant_def)
qed

end
