(* ===== verification/Oauth2.thy ===== *)
theory Oauth2
  imports Crawl_Fetch
begin

text \<open>
  The OAuth2 resource server check: \<open>crates/ds-catalog-broker-rs/src/oauth2.rs\<close>. The key set is fetched once; a token
  is verified with the key its header names, under the algorithm of that key.

  The crate \<open>jsonwebtoken\<close> is a parameter, the record \<open>jwt_library\<close>: the parsers of a key set and of a token header, the
  conversion of a key to its decoding form (the type \<open>'k\<close>) and the decoder, with the clock inside. What the code
  relies on is \<open>lawful_decode\<close>, the decoder's documented checks.
\<close>

section \<open>Keys\<close>

datatype key_algorithm = KRS256 | KES256 | KES384 | KOther string

datatype algorithm = RS256 | ES256 | ES384

datatype curve = P256 | P384 | OtherCurve string

datatype algorithm_parameters = RSA | EllipticCurve curve | OctetKey | OctetKeyPair

record web_key =
  key_id :: "string option"
  key_algorithm :: "key_algorithm option"
  key_params :: algorithm_parameters
  key_material :: string

definition determine_algorithm :: "web_key \<Rightarrow> algorithm option" where
  "determine_algorithm jwk =
     (case key_algorithm jwk of
        Some a \<Rightarrow> (case a of KRS256 \<Rightarrow> Some RS256 | KES256 \<Rightarrow> Some ES256 | KES384 \<Rightarrow> Some ES384 | KOther _ \<Rightarrow> None)
      | None \<Rightarrow>
          (case key_params jwk of
             RSA \<Rightarrow> Some RS256
           | EllipticCurve c \<Rightarrow> (case c of P256 \<Rightarrow> Some ES256 | P384 \<Rightarrow> Some ES384 | OtherCurve _ \<Rightarrow> None)
           | OctetKey \<Rightarrow> None
           | OctetKeyPair \<Rightarrow> None))"

section \<open>The library\<close>

text \<open>The fields of the library's \<open>Validation\<close> that the code sets; \<open>validation_new\<close> has the library's defaults.\<close>

record validation =
  algorithms :: "algorithm list"
  required_spec_claims :: "string set"
  validate_nbf :: bool
  validate_aud :: bool
  accepted_issuers :: "string list option"
  accepted_audiences :: "string list option"

definition validation_new :: "algorithm \<Rightarrow> validation" where
  "validation_new a = \<lparr>algorithms = [a], required_spec_claims = {''exp''}, validate_nbf = False, validate_aud = True,
     accepted_issuers = None, accepted_audiences = None\<rparr>"

record 'k jwt_library =
  parse_url :: "string \<Rightarrow> (string \<times> string option) option"
  jwks_read :: "string \<Rightarrow> string + web_key list"
  key_from_jwk :: "web_key \<Rightarrow> string + 'k"
  header_kid :: "string \<Rightarrow> string + string option"
  jwt_decode :: "string \<Rightarrow> 'k \<Rightarrow> validation \<Rightarrow> string + json"

section \<open>Fetching the keys\<close>

record oauth2_config =
  jwks_uri :: string
  issuer :: "string option"
  audience :: "string option"
  required_scope :: "string option"

definition MAX_JWKS_BYTES :: nat where
  "MAX_JWKS_BYTES = 1024 * 1024"

datatype jwks_error =
    JwksFetch string
  | JwksParse string
  | InsecureUri string
  | InvalidUri string
  | JwksTooLarge nat
  | NoUsableKeys string

datatype verify_error = UnknownKid | InvalidToken string | InsufficientScope string

record 'k verification_key =
  decoding_key :: 'k
  key_alg :: algorithm

record 'k oauth2_verifier =
  oauth2_config :: oauth2_config
  verifier_keys :: "(string \<times> 'k verification_key) list"

text \<open>One pass of the loop over the key set, \<open>None\<close> for a key that is skipped.\<close>

definition usable_key :: "'k jwt_library \<Rightarrow> web_key \<Rightarrow> (string \<times> 'k verification_key) option" where
  "usable_key J jwk =
     (case key_id jwk of
        None \<Rightarrow> None
      | Some kid \<Rightarrow>
          if key_params jwk = OctetKey then None
          else (case determine_algorithm jwk of
            None \<Rightarrow> None
          | Some alg \<Rightarrow>
              (case key_from_jwk J jwk of
                 Inl err \<Rightarrow> None
               | Inr key \<Rightarrow> Some (kid, \<lparr>decoding_key = key, key_alg = alg\<rparr>))))"

definition usable_keys :: "'k jwt_library \<Rightarrow> web_key list \<Rightarrow> (string \<times> 'k verification_key) list" where
  "usable_keys J jwks = fold (\<lambda>(kid, key). AList.update kid key) (somes (map (usable_key J) jwks)) []"

text \<open>\<open>error_for_status\<close>: the client and server error codes.\<close>

definition is_error_status :: "nat \<Rightarrow> bool" where
  "is_error_status status \<longleftrightarrow> 400 \<le> status \<and> status < 600"

fun jwks_body_error :: "body_error \<Rightarrow> jwks_error" where
  "jwks_body_error (BodyTransport e) = JwksFetch e"
| "jwks_body_error (TooLarge limit) = JwksTooLarge limit"

definition fetch_verifier ::
    "'k jwt_library \<Rightarrow> (string \<Rightarrow> http_reply) \<Rightarrow> oauth2_config \<Rightarrow> jwks_error + 'k oauth2_verifier" where
  "fetch_verifier J get config =
     (let uri = jwks_uri config in
      case parse_url J uri of
        None \<Rightarrow> Inl (InvalidUri uri)
      | Some (scheme, host) \<Rightarrow>
          if \<not> remote_allowed scheme host then Inl (InsecureUri uri)
          else (case get uri of
            TransportError e \<Rightarrow> Inl (JwksFetch e)
          | Reply status content_length chunks \<Rightarrow>
              if is_error_status status then Inl (JwksFetch (show_nat status))
              else
                rbind (map_error jwks_body_error (read_body_limited content_length chunks MAX_JWKS_BYTES)) (\<lambda>bytes.
                rbind (map_error JwksParse (jwks_read J bytes)) (\<lambda>jwk_set.
                  let keys = usable_keys J jwk_set
                  in if keys = [] then Inl (NoUsableKeys uri)
                     else Inr \<lparr>oauth2_config = config, verifier_keys = keys\<rparr>))))"

section \<open>Verifying a token\<close>

definition token_validation :: "oauth2_config \<Rightarrow> algorithm \<Rightarrow> validation" where
  "token_validation config alg =
     (let v0 = (validation_new alg)\<lparr>validate_nbf := True\<rparr>;
          v1 = (case issuer config of
                  Some i \<Rightarrow> v0\<lparr>accepted_issuers := Some [i],
                    required_spec_claims := insert ''iss'' (required_spec_claims v0)\<rparr>
                | None \<Rightarrow> v0)
      in case audience config of
           Some a \<Rightarrow> v1\<lparr>accepted_audiences := Some [a], required_spec_claims := insert ''aud'' (required_spec_claims v1)\<rparr>
         | None \<Rightarrow> v1\<lparr>validate_aud := False\<rparr>)"

definition has_scope :: "json \<Rightarrow> string \<Rightarrow> bool" where
  "has_scope claims scope = (case get_str claims ''scope'' of Some scopes \<Rightarrow> scope \<in> set (split_whitespace scopes) | None \<Rightarrow> False)"

definition verify :: "'k jwt_library \<Rightarrow> 'k oauth2_verifier \<Rightarrow> string \<Rightarrow> verify_error + json" where
  "verify J V token =
     rbind (map_error InvalidToken (header_kid J token)) (\<lambda>header.
     rbind (of_option UnknownKid header) (\<lambda>kid.
     rbind (of_option UnknownKid (map_of (verifier_keys V) kid)) (\<lambda>key.
     rbind (map_error InvalidToken (jwt_decode J token (decoding_key key) (token_validation (oauth2_config V) (key_alg key)))) (\<lambda>claims.
       (case required_scope (oauth2_config V) of
          Some scope \<Rightarrow> if has_scope claims scope then Inr claims else Inl (InsufficientScope scope)
        | None \<Rightarrow> Inr claims)))))"

section \<open>What an accepted token proves\<close>

text \<open>The \<open>iss\<close> and \<open>aud\<close> claims are a string or a list of strings.\<close>

definition claim_values :: "json \<Rightarrow> string \<Rightarrow> string list option" where
  "claim_values claims n =
     (case jget claims n of
        Some (JString s) \<Rightarrow> Some [s]
      | Some (JArray vs) \<Rightarrow> if list_all (\<lambda>v. as_str v \<noteq> None) vs then Some (somes (map as_str vs)) else None
      | _ \<Rightarrow> None)"

text \<open>
  The documented checks of \<open>decode\<close>: the signature under one of the algorithms of the validation, \<open>sig_ok\<close>; each
  required claim present in its form; the expiry, \<open>unexpired\<close>; and issuers and audiences compared with claims that
  are present.
\<close>

definition lawful_decode :: "'k jwt_library \<Rightarrow> ('k \<Rightarrow> algorithm \<Rightarrow> string \<Rightarrow> bool) \<Rightarrow> (json \<Rightarrow> bool) \<Rightarrow> bool" where
  "lawful_decode J sig_ok unexpired \<longleftrightarrow>
     (\<forall>token key v claims. jwt_decode J token key v = Inr claims \<longrightarrow>
        (\<exists>a\<in>set (algorithms v). sig_ok key a token) \<and>
        (''exp'' \<in> required_spec_claims v \<longrightarrow> unexpired claims) \<and>
        (\<forall>n\<in>required_spec_claims v \<inter> {''iss'', ''aud''}. claim_values claims n \<noteq> None) \<and>
        (\<forall>is ss. accepted_issuers v = Some is \<longrightarrow> claim_values claims ''iss'' = Some ss \<longrightarrow> set is \<inter> set ss \<noteq> {}) \<and>
        (\<forall>is ss. validate_aud v \<longrightarrow> accepted_audiences v = Some is \<longrightarrow> claim_values claims ''aud'' = Some ss \<longrightarrow> set is \<inter> set ss \<noteq> {}))"

lemma lawful_decodeD:
  assumes "lawful_decode J sig_ok unexpired" "jwt_decode J token key v = Inr claims"
  shows "\<exists>a\<in>set (algorithms v). sig_ok key a token" "''exp'' \<in> required_spec_claims v \<Longrightarrow> unexpired claims"
  using assms unfolding lawful_decode_def by blast+

lemma lawful_decode_iss:
  assumes "lawful_decode J sig_ok unexpired" "jwt_decode J token key v = Inr claims"
    "''iss'' \<in> required_spec_claims v" "accepted_issuers v = Some [i]"
  shows "\<exists>ss. claim_values claims ''iss'' = Some ss \<and> i \<in> set ss"
proof -
  obtain ss where ss: "claim_values claims ''iss'' = Some ss"
    using assms unfolding lawful_decode_def by fastforce
  moreover have "set [i] \<inter> set ss \<noteq> {}" using assms ss unfolding lawful_decode_def by blast
  ultimately show ?thesis by auto
qed

lemma lawful_decode_aud:
  assumes "lawful_decode J sig_ok unexpired" "jwt_decode J token key v = Inr claims"
    "''aud'' \<in> required_spec_claims v" "validate_aud v" "accepted_audiences v = Some [i]"
  shows "\<exists>ss. claim_values claims ''aud'' = Some ss \<and> i \<in> set ss"
proof -
  obtain ss where ss: "claim_values claims ''aud'' = Some ss"
    using assms unfolding lawful_decode_def by fastforce
  moreover have "set [i] \<inter> set ss \<noteq> {}" using assms ss unfolding lawful_decode_def by blast
  ultimately show ?thesis by auto
qed

lemma token_validation_simps [simp]:
  "algorithms (token_validation c a) = [a]"
  "''exp'' \<in> required_spec_claims (token_validation c a)"
  "''iss'' \<in> required_spec_claims (token_validation c a) \<longleftrightarrow> issuer c \<noteq> None"
  "''aud'' \<in> required_spec_claims (token_validation c a) \<longleftrightarrow> audience c \<noteq> None"
  "accepted_issuers (token_validation c a) = map_option (\<lambda>i. [i]) (issuer c)"
  "accepted_audiences (token_validation c a) = map_option (\<lambda>i. [i]) (audience c)"
  "validate_aud (token_validation c a) \<longleftrightarrow> audience c \<noteq> None"
  "validate_nbf (token_validation c a)"
  by (auto simp: token_validation_def validation_new_def Let_def split: option.splits)

lemma usable_key_SomeD:
  "usable_key J jwk = Some (kid, k) \<Longrightarrow> key_id jwk = Some kid \<and> key_params jwk \<noteq> OctetKey \<and>
   determine_algorithm jwk = Some (key_alg k) \<and> key_from_jwk J jwk = Inr (decoding_key k)"
  by (auto simp: usable_key_def split: option.splits if_splits sum.splits)

lemma fold_update_set: "(kid, k) \<in> set (fold (\<lambda>(kid, key). AList.update kid key) xs m) \<Longrightarrow> (kid, k) \<in> set xs \<union> set m"
  using set_update by (induction xs arbitrary: m) fastforce+

lemma usable_keys_from: "map_of (usable_keys J jwks) kid = Some k \<Longrightarrow> \<exists>jwk\<in>set jwks. usable_key J jwk = Some (kid, k)"
  by (fastforce simp: usable_keys_def set_somes dest!: map_of_SomeD fold_update_set)

lemma fetch_verifier_ok:
  assumes "fetch_verifier J get config = Inr V"
  obtains scheme host status cl chunks jwks where
    "parse_url J (jwks_uri config) = Some (scheme, host)" "remote_allowed scheme host"
    "get (jwks_uri config) = Reply status cl chunks" "\<not> is_error_status status"
    "length (concat (map projr chunks)) \<le> MAX_JWKS_BYTES" "jwks_read J (concat (map projr chunks)) = Inr jwks"
    "V = \<lparr>oauth2_config = config, verifier_keys = usable_keys J jwks\<rparr>" "usable_keys J jwks \<noteq> []"
  using assms read_body_limited_ok
  by (fastforce simp: fetch_verifier_def Let_def result_simps split: option.splits prod.splits if_splits http_reply.splits)

lemma verify_ok:
  assumes "verify J V token = Inr claims"
  obtains kid key where "header_kid J token = Inr (Some kid)" "map_of (verifier_keys V) kid = Some key"
    "jwt_decode J token (decoding_key key) (token_validation (oauth2_config V) (key_alg key)) = Inr claims"
    "\<And>scope. required_scope (oauth2_config V) = Some scope \<Longrightarrow> has_scope claims scope"
  using assms by (fastforce simp: verify_def result_simps split: option.splits if_splits)

text \<open>
  Claim C8. A token the resource server accepts was signed by a key that the configured key set served, one that is
  not a shared secret, under the algorithm the key itself determines and not one the token names; the token has
  not expired, names the configured issuer and audience, and carries the configured scope. The key set
  came over an allowed URL and within its bound.
\<close>

theorem accepted_token_proves:
  assumes "lawful_decode J sig_ok unexpired" "fetch_verifier J get config = Inr V" "verify J V token = Inr claims"
  shows "\<exists>scheme host status cl chunks jwks jwk kid key alg.
      parse_url J (jwks_uri config) = Some (scheme, host) \<and> remote_allowed scheme host \<and>
      get (jwks_uri config) = Reply status cl chunks \<and> length (concat (map projr chunks)) \<le> MAX_JWKS_BYTES \<and>
      jwks_read J (concat (map projr chunks)) = Inr jwks \<and> jwk \<in> set jwks \<and>
      header_kid J token = Inr (Some kid) \<and> key_id jwk = Some kid \<and> key_params jwk \<noteq> OctetKey \<and>
      key_from_jwk J jwk = Inr key \<and> determine_algorithm jwk = Some alg \<and> sig_ok key alg token \<and> unexpired claims \<and>
      (issuer config = None \<or> (\<exists>is. claim_values claims ''iss'' = Some is \<and> the (issuer config) \<in> set is)) \<and>
      (audience config = None \<or> (\<exists>as. claim_values claims ''aud'' = Some as \<and> the (audience config) \<in> set as)) \<and>
      (required_scope config = None \<or> has_scope claims (the (required_scope config)))"
proof -
  obtain scheme host status cl chunks jwks where f:
    "parse_url J (jwks_uri config) = Some (scheme, host)" "remote_allowed scheme host"
    "get (jwks_uri config) = Reply status cl chunks"
    "length (concat (map projr chunks)) \<le> MAX_JWKS_BYTES" "jwks_read J (concat (map projr chunks)) = Inr jwks"
    and V: "V = \<lparr>oauth2_config = config, verifier_keys = usable_keys J jwks\<rparr>"
    using fetch_verifier_ok [OF assms(2)] by metis
  obtain kid key where v: "header_kid J token = Inr (Some kid)" "map_of (usable_keys J jwks) kid = Some key"
    "jwt_decode J token (decoding_key key) (token_validation config (key_alg key)) = Inr claims"
    "\<And>scope. required_scope config = Some scope \<Longrightarrow> has_scope claims scope"
    using verify_ok [OF assms(3)] unfolding V by auto
  obtain jwk where k: "jwk \<in> set jwks" "key_id jwk = Some kid" "key_params jwk \<noteq> OctetKey"
    "determine_algorithm jwk = Some (key_alg key)" "key_from_jwk J jwk = Inr (decoding_key key)"
    using usable_keys_from [OF v(2)] usable_key_SomeD by blast
  note d = lawful_decodeD [OF assms(1) v(3)]
  have "issuer config = None \<or> (\<exists>is. claim_values claims ''iss'' = Some is \<and> the (issuer config) \<in> set is)"
    using lawful_decode_iss [OF assms(1) v(3)] by (cases "issuer config") auto
  moreover have "audience config = None \<or> (\<exists>as. claim_values claims ''aud'' = Some as \<and> the (audience config) \<in> set as)"
    using lawful_decode_aud [OF assms(1) v(3)] by (cases "audience config") auto
  moreover have "required_scope config = None \<or> has_scope claims (the (required_scope config))"
    using v(4) by (cases "required_scope config") auto
  ultimately show ?thesis using f v(1) k d(1,2) by auto
qed

text \<open>A library with one token, and a key set with one key for it and one shared secret.\<close>

definition sample_claims :: json where
  "sample_claims = JObject [(''aud'', JArray [JString ''broker'', JString ''portal'']), (''exp'', JNumber (PosInt 1900000000)),
     (''iss'', JString ''https://idp.example''), (''scope'', JString ''profile catalog:read'')]"

definition sample_decode :: "string \<Rightarrow> string \<Rightarrow> validation \<Rightarrow> string + json" where
  "sample_decode token key v =
     (if token = ''t'' \<and> key = ''ec'' \<and> ES256 \<in> set (algorithms v) \<and>
         (case accepted_issuers v of Some is \<Rightarrow> ''https://idp.example'' \<in> set is | None \<Rightarrow> True) \<and>
         (validate_aud v \<longrightarrow> (case accepted_audiences v of Some as \<Rightarrow> ''broker'' \<in> set as | None \<Rightarrow> False))
      then Inr sample_claims else Inl ''InvalidToken'')"

definition sample_jwks :: "web_key list" where
  "sample_jwks =
     [\<lparr>key_id = Some ''k1'', key_algorithm = None, key_params = EllipticCurve P256, key_material = ''ec''\<rparr>,
      \<lparr>key_id = Some ''k2'', key_algorithm = None, key_params = OctetKey, key_material = ''secret''\<rparr>]"

definition sample_jwt :: "string jwt_library" where
  "sample_jwt = \<lparr>parse_url = (\<lambda>u. Some (''https'', Some ''idp.example'')), jwks_read = (\<lambda>b. Inr sample_jwks),
     key_from_jwk = (\<lambda>k. Inr (key_material k)), header_kid = (\<lambda>t. Inr (if t = ''t'' then Some ''k1'' else Some ''k2'')),
     jwt_decode = sample_decode\<rparr>"

definition sample_oauth2 :: oauth2_config where
  "sample_oauth2 = \<lparr>jwks_uri = ''https://idp.example/jwks'', issuer = Some ''https://idp.example'', audience = Some ''broker'',
     required_scope = Some ''catalog:read''\<rparr>"

definition sample_verifier :: "string oauth2_verifier" where
  "sample_verifier = \<lparr>oauth2_config = sample_oauth2, verifier_keys = [(''k1'', \<lparr>decoding_key = ''ec'', key_alg = ES256\<rparr>)]\<rparr>"

lemma sample_jwt_lawful:
  "lawful_decode sample_jwt (\<lambda>key a t. key = ''ec'' \<and> a = ES256 \<and> t = ''t'') (\<lambda>claims. jget claims ''exp'' \<noteq> None)"
  by (auto simp: lawful_decode_def sample_jwt_def sample_decode_def sample_claims_def claim_values_def split: if_splits)

lemma sample_fetch: "fetch_verifier sample_jwt (\<lambda>u. Reply 200 None []) sample_oauth2 = Inr sample_verifier"
  by (simp add: fetch_verifier_def Let_def sample_jwt_def sample_oauth2_def remote_allowed_def is_error_status_def
      read_body_limited_def usable_keys_def usable_key_def sample_jwks_def determine_algorithm_def sample_verifier_def)

lemma sample_scope: "has_scope sample_claims ''catalog:read''"
  by (simp add: has_scope_def get_str_def sample_claims_def split_whitespace_def find_printable find_space)

lemma sample_decodes: "jwt_decode sample_jwt ''t'' ''ec'' (token_validation sample_oauth2 ES256) = Inr sample_claims"
  by (simp add: sample_jwt_def sample_decode_def) (simp add: sample_oauth2_def)

lemma sample_verify: "verify sample_jwt sample_verifier ''t'' = Inr sample_claims"
proof -
  have "header_kid sample_jwt ''t'' = Inr (Some ''k1'')" "required_scope sample_oauth2 = Some ''catalog:read''"
    by (simp_all add: sample_jwt_def sample_oauth2_def)
  then show ?thesis by (simp add: verify_def sample_verifier_def sample_decodes sample_scope)
qed

theorem accepted_token_proves_witness:
  "\<exists>jwk alg. jwk \<in> set sample_jwks \<and> key_params jwk \<noteq> OctetKey \<and> determine_algorithm jwk = Some alg \<and> alg = ES256 \<and>
     verify sample_jwt sample_verifier ''t'' = Inr sample_claims \<and> verify sample_jwt sample_verifier ''u'' = Inl UnknownKid"
proof -
  have "verify sample_jwt sample_verifier ''u'' = Inl UnknownKid"
    by (simp add: verify_def sample_verifier_def sample_jwt_def)
  then show ?thesis
    using accepted_token_proves [OF sample_jwt_lawful sample_fetch sample_verify] sample_verify
    by (auto simp: sample_jwt_def)
qed

end
