(* ===== verification/Crawl_Cycle.thy ===== *)
theory Crawl_Cycle
  imports Crawl_Fetch "HOL-Library.Multiset"
begin

text \<open>
  One crawl cycle: \<open>crawl_and_cache\<close> and \<open>crawl_once\<close> of \<open>crates/crawler/src/lib.rs\<close>. The crawls run
  concurrently, at most \<open>concurrency\<close> at a time; a schedule says when the next one starts and which one in
  flight ends. Each crawl's environment (the peers, the clock, a timeout, a storage fault) is fixed by its index.
  The cache is any that keeps the contract \<open>cache_writes\<close>, which the quad store does.
\<close>

section \<open>Operations\<close>

record 'f crawl_env =
  ce_post :: "outgoing \<Rightarrow> http_reply"
  ce_draws :: draws
  ce_timed_out :: bool
  ce_fault :: 'f
  ce_finished_at :: nat
  ce_finished_instant :: nat

type_synonym outcome = "(crawl_error + unit) \<times> nat \<times> nat"

text \<open>What becomes of a crawl: past the timeout its result is dropped, otherwise a catalog is cached.\<close>

definition crawl_and_cache ::
    "('f \<Rightarrow> catalog \<Rightarrow> 's \<Rightarrow> (store_error + unit) \<times> 's) \<Rightarrow> 'f crawl_env \<Rightarrow> participant_entry \<Rightarrow>
     crawl_error + catalog \<Rightarrow> 's \<Rightarrow> (crawl_error + unit) \<times> 's" where
  "crawl_and_cache upsert env p r s =
     (if ce_timed_out env then (Inl (CrawlTimedOut (catalog_request_url p)), s)
      else (case r of
          Inl e \<Rightarrow> (Inl e, s)
        | Inr c \<Rightarrow> (case upsert (ce_fault env) c s of (r', s') \<Rightarrow> (map_error CacheFailed r', s'))))"

record 's cycle =
  cy_queue :: "(nat \<times> participant_entry) list"
  cy_flight :: "(nat \<times> participant_entry \<times> (crawl_error + catalog)) list"
  cy_outcomes :: "(nat \<times> outcome) list"
  cy_cache :: 's
  cy_holder :: "holder_identity option"

definition cycle_start :: "participant_entry list \<Rightarrow> holder_identity option \<Rightarrow> 's \<Rightarrow> 's cycle" where
  "cycle_start ps holder s =
     \<lparr>cy_queue = enumerate 0 ps, cy_flight = [], cy_outcomes = [], cy_cache = s, cy_holder = holder\<rparr>"

datatype cycle_event = StartNext | Finish nat

fun cycle_step ::
    "jose \<Rightarrow> ('f \<Rightarrow> catalog \<Rightarrow> 's \<Rightarrow> (store_error + unit) \<times> 's) \<Rightarrow> crawl_limits \<Rightarrow> (nat \<Rightarrow> 'f crawl_env) \<Rightarrow>
     cycle_event \<Rightarrow> 's cycle \<Rightarrow> 's cycle option" where
  "cycle_step E upsert limits envs StartNext st =
     (case cy_queue st of
        [] \<Rightarrow> None
      | (i, p) # queue \<Rightarrow>
          if length (cy_flight st) \<ge> max (concurrency limits) 1 then None
          else
            (case crawl_one E (ce_post (envs i)) (ce_draws (envs i)) (max_response_bytes limits) p (cy_holder st) of
               (r, holder) \<Rightarrow>
                 Some (st\<lparr>cy_queue := queue, cy_flight := cy_flight st @ [(i, p, r)], cy_holder := holder\<rparr>)))"
| "cycle_step E upsert limits envs (Finish k) st =
     (if k \<ge> length (cy_flight st) then None
      else
        (case cy_flight st ! k of
           (i, p, r) \<Rightarrow>
             (case crawl_and_cache upsert (envs i) p r (cy_cache st) of
                (outcome, s) \<Rightarrow>
                  Some (st\<lparr>cy_flight := take k (cy_flight st) @ drop (Suc k) (cy_flight st),
                    cy_outcomes := cy_outcomes st @
                      [(i, outcome, ce_finished_at (envs i), ce_finished_instant (envs i))],
                    cy_cache := s\<rparr>))))"

fun cycle_run ::
    "jose \<Rightarrow> ('f \<Rightarrow> catalog \<Rightarrow> 's \<Rightarrow> (store_error + unit) \<times> 's) \<Rightarrow> crawl_limits \<Rightarrow> (nat \<Rightarrow> 'f crawl_env) \<Rightarrow>
     cycle_event list \<Rightarrow> 's cycle \<Rightarrow> 's cycle option" where
  "cycle_run E upsert limits envs [] st = Some st"
| "cycle_run E upsert limits envs (ev # evs) st =
     Option.bind (cycle_step E upsert limits envs ev st) (cycle_run E upsert limits envs evs)"

lemma cycle_run_append:
  "cycle_run E upsert limits envs (evs @ evs') st =
   Option.bind (cycle_run E upsert limits envs evs st) (cycle_run E upsert limits envs evs')"
  by (induction evs arbitrary: st) (simp_all split: bind_split)

definition cycle_finished :: "'s cycle \<Rightarrow> bool" where
  "cycle_finished st \<longleftrightarrow> cy_queue st = [] \<and> cy_flight st = []"

record crawl_summary =
  attempted :: nat
  succeeded :: nat
  failed :: nat
  succeeded_ids :: "string list"
  failures :: "(string \<times> crawl_error) list"
  finished_at :: "(string, nat) btree"
  finished_instants :: "(string, nat) btree"

definition crawl_summary_default :: crawl_summary where
  "crawl_summary_default = \<lparr>attempted = 0, succeeded = 0, failed = 0, succeeded_ids = [], failures = [],
     finished_at = [], finished_instants = []\<rparr>"

definition add_outcome :: "participant_entry \<times> nat \<times> outcome \<Rightarrow> crawl_summary \<Rightarrow> crawl_summary" where
  "add_outcome po s =
     (case po of (p, i, outcome, at, inst) \<Rightarrow>
        let s1 = s\<lparr>attempted := attempted s + 1,
              finished_at := btree_insert (pe_part_id p) at (finished_at s),
              finished_instants := btree_insert (pe_part_id p) inst (finished_instants s)\<rparr>
        in case outcome of
             Inr _ \<Rightarrow> s1\<lparr>succeeded := succeeded s + 1, succeeded_ids := succeeded_ids s @ [pe_part_id p]\<rparr>
           | Inl e \<Rightarrow> s1\<lparr>failed := failed s + 1, failures := failures s @ [(pe_part_id p, e)]\<rparr>)"

definition summarize :: "participant_entry list \<Rightarrow> (nat \<times> outcome) list \<Rightarrow> crawl_summary" where
  "summarize ps outcomes = fold add_outcome (zip ps (sort_key fst outcomes)) crawl_summary_default"

text \<open>The result under one schedule; \<open>None\<close> when the schedule does not run the cycle to its end.\<close>

definition crawl_once ::
    "jose \<Rightarrow> ('f \<Rightarrow> catalog \<Rightarrow> 's \<Rightarrow> (store_error + unit) \<times> 's) \<Rightarrow> crawl_limits \<Rightarrow> (nat \<Rightarrow> 'f crawl_env) \<Rightarrow>
     cycle_event list \<Rightarrow> participant_entry list \<Rightarrow> holder_identity option \<Rightarrow> 's \<Rightarrow>
     (crawl_summary \<times> 's \<times> holder_identity option) option" where
  "crawl_once E upsert limits envs evs ps holder s =
     Option.bind (cycle_run E upsert limits envs evs (cycle_start ps holder s)) (\<lambda>st.
       if cycle_finished st then Some (summarize ps (cy_outcomes st), cy_cache st, cy_holder st) else None)"

section \<open>The contract of a cache, with faults\<close>

text \<open>
  What the harvester relies on: \<open>accept\<close> tells which faults let a write through; a write that fails changes no
  catalog.
\<close>

locale cache_writes =
  fixes upsert :: "'f \<Rightarrow> catalog \<Rightarrow> 's \<Rightarrow> (store_error + unit) \<times> 's"
    and delete :: "'f \<Rightarrow> node_id \<Rightarrow> 's \<Rightarrow> (store_error + bool) \<times> 's"
    and holds :: "'s \<Rightarrow> (node_id \<Rightarrow> catalog option) \<Rightarrow> bool"
    and good :: "catalog \<Rightarrow> bool"
    and accept :: "'f \<Rightarrow> store_error + unit"
  assumes upsert_result: "holds s m \<Longrightarrow> good c \<Longrightarrow> fst (upsert f c s) = accept f"
    and upsert_holds: "holds s m \<Longrightarrow> good c \<Longrightarrow>
      holds (snd (upsert f c s)) (if isl (accept f) then m else m(origin_node c \<mapsto> c))"
    and delete_holds: "holds s m \<Longrightarrow> holds (snd (delete f n s)) (if isl (fst (delete f n s)) then m else m(n := None))"

section \<open>What a cycle comes to, without a schedule\<close>

definition fetched ::
    "jose \<Rightarrow> crawl_limits \<Rightarrow> (nat \<Rightarrow> 'f crawl_env) \<Rightarrow> holder_identity option \<Rightarrow> nat \<Rightarrow> participant_entry \<Rightarrow>
     crawl_error + catalog" where
  "fetched E limits envs holder i p =
     fst (crawl_one E (ce_post (envs i)) (ce_draws (envs i)) (max_response_bytes limits) p holder)"

definition cached_at ::
    "jose \<Rightarrow> ('f \<Rightarrow> store_error + unit) \<Rightarrow> crawl_limits \<Rightarrow> (nat \<Rightarrow> 'f crawl_env) \<Rightarrow> holder_identity option \<Rightarrow>
     nat \<Rightarrow> participant_entry \<Rightarrow> crawl_error + catalog" where
  "cached_at E accept limits envs holder i p =
     (if ce_timed_out (envs i) then Inl (CrawlTimedOut (catalog_request_url p))
      else rbind (fetched E limits envs holder i p) (\<lambda>c.
        rbind (map_error CacheFailed (accept (ce_fault (envs i)))) (\<lambda>_. Inr c)))"

definition outcome_at ::
    "jose \<Rightarrow> ('f \<Rightarrow> store_error + unit) \<Rightarrow> crawl_limits \<Rightarrow> (nat \<Rightarrow> 'f crawl_env) \<Rightarrow> holder_identity option \<Rightarrow>
     nat \<Rightarrow> participant_entry \<Rightarrow> outcome" where
  "outcome_at E accept limits envs holder i p =
     (rbind (cached_at E accept limits envs holder i p) (\<lambda>_. Inr ()), ce_finished_at (envs i), ce_finished_instant (envs i))"

text \<open>The catalogs the crawls of some participants cached.\<close>

definition cycle_catalogs ::
    "jose \<Rightarrow> ('f \<Rightarrow> store_error + unit) \<Rightarrow> crawl_limits \<Rightarrow> (nat \<Rightarrow> 'f crawl_env) \<Rightarrow> holder_identity option \<Rightarrow>
     (nat \<times> participant_entry) list \<Rightarrow> (node_id \<times> catalog) list" where
  "cycle_catalogs E accept limits envs holder ips =
     somes (map (\<lambda>(i, p). case cached_at E accept limits envs holder i p of
       Inr c \<Rightarrow> Some (pe_part_id p, c) | Inl _ \<Rightarrow> None) ips)"

definition cycle_outcomes ::
    "jose \<Rightarrow> ('f \<Rightarrow> store_error + unit) \<Rightarrow> crawl_limits \<Rightarrow> (nat \<Rightarrow> 'f crawl_env) \<Rightarrow> holder_identity option \<Rightarrow>
     participant_entry list \<Rightarrow> (nat \<times> outcome) list" where
  "cycle_outcomes E accept limits envs holder ps =
     map (\<lambda>(i, p). (i, outcome_at E accept limits envs holder i p)) (enumerate 0 ps)"

section \<open>The invariant of a cycle\<close>

definition ended :: "participant_entry list \<Rightarrow> 's cycle \<Rightarrow> (nat \<times> participant_entry) list" where
  "ended ps st = map (\<lambda>(i, _). (i, ps ! i)) (cy_outcomes st)"

definition running :: "'s cycle \<Rightarrow> (nat \<times> participant_entry) list" where
  "running st = map (\<lambda>(i, p, _). (i, p)) (cy_flight st)"

definition cycle_inv ::
    "jose \<Rightarrow> ('f \<Rightarrow> store_error + unit) \<Rightarrow> ('s \<Rightarrow> (node_id \<Rightarrow> catalog option) \<Rightarrow> bool) \<Rightarrow> crawl_limits \<Rightarrow>
     (nat \<Rightarrow> 'f crawl_env) \<Rightarrow> participant_entry list \<Rightarrow> holder_identity option \<Rightarrow> (node_id \<Rightarrow> catalog option) \<Rightarrow>
     's cycle \<Rightarrow> bool" where
  "cycle_inv E accept holds limits envs ps holder m st \<longleftrightarrow>
     mset (running st @ ended ps st @ cy_queue st) = mset (enumerate 0 ps) \<and>
     (\<forall>(i, p, r)\<in>set (cy_flight st). r = fetched E limits envs holder i p) \<and>
     (\<forall>(i, out)\<in>set (cy_outcomes st). out = outcome_at E accept limits envs holder i (ps ! i)) \<and>
     same_holder holder (cy_holder st) \<and>
     holds (cy_cache st) (m ++ map_of (cycle_catalogs E accept limits envs holder (ended ps st)))"

lemma cycle_catalogs_append:
  "cycle_catalogs E accept limits envs holder (xs @ [(i, p)]) =
   cycle_catalogs E accept limits envs holder xs @
     (case cached_at E accept limits envs holder i p of Inr c \<Rightarrow> [(pe_part_id p, c)] | Inl _ \<Rightarrow> [])"
  by (cases "cached_at E accept limits envs holder i p") (simp_all add: cycle_catalogs_def)

lemma cycle_catalogs_keys:
  "fst ` set (cycle_catalogs E accept limits envs holder xs) \<subseteq> (pe_part_id \<circ> snd) ` set xs"
  by (auto simp: cycle_catalogs_def set_somes image_iff split: sum.splits) force

lemma map_add_new_key: "k \<notin> fst ` set xs \<Longrightarrow> m ++ map_of (xs @ [(k, c)]) = (m ++ map_of xs)(k \<mapsto> c)"
proof -
  assume "k \<notin> fst ` set xs"
  then have "map_of xs k = None" by (simp add: map_of_eq_None_iff)
  then show ?thesis by (auto simp: map_add_def fun_eq_iff split: option.splits)
qed

lemma enumerate_ids: "map (pe_part_id \<circ> snd) (enumerate n ps) = map pe_part_id ps"
  by (simp flip: map_map)

lemma in_cycle_outcomes:
  "(i, out) \<in> set (cycle_outcomes E accept limits envs holder ps) \<longleftrightarrow>
   i < length ps \<and> out = outcome_at E accept limits envs holder i (ps ! i)"
proof -
  have "(i, out) \<in> set (cycle_outcomes E accept limits envs holder ps) \<longleftrightarrow>
      (\<exists>p. (i, p) \<in> set (enumerate 0 ps) \<and> out = outcome_at E accept limits envs holder i p)"
    unfolding cycle_outcomes_def by force
  then show ?thesis by (auto simp: in_enumerate)
qed

lemma cycle_outcomes_indices: "map fst (cycle_outcomes E accept limits envs holder ps) = [0..<length ps]"
  by (simp add: cycle_outcomes_def comp_def case_prod_beta)

lemma cycle_catalogs_distinct:
  "distinct (map (pe_part_id \<circ> snd) xs) \<Longrightarrow> distinct (map fst (cycle_catalogs E accept limits envs holder xs))"
proof (induction xs rule: rev_induct)
  case (snoc x xs)
  obtain i p where x: "x = (i, p)" by (cases x)
  have "pe_part_id p \<notin> fst ` set (cycle_catalogs E accept limits envs holder xs)"
    using snoc.prems cycle_catalogs_keys [of E accept limits envs holder xs] by (auto simp: x)
  then show ?case using snoc by (auto simp: x cycle_catalogs_append split: sum.splits)
qed (simp add: cycle_catalogs_def)

lemma cycle_catalogs_order:
  assumes "mset xs = mset ys" "distinct (map (pe_part_id \<circ> snd) ys)"
  shows "map_of (cycle_catalogs E accept limits envs holder xs) = map_of (cycle_catalogs E accept limits envs holder ys)"
proof -
  have "distinct (map (pe_part_id \<circ> snd) xs)" using assms by (metis mset_eq_imp_distinct_iff mset_map)
  moreover have "set (cycle_catalogs E accept limits envs holder xs) = set (cycle_catalogs E accept limits envs holder ys)"
    by (rule set_eqI) (simp add: cycle_catalogs_def set_somes mset_eq_setD [OF assms(1)])
  ultimately show ?thesis using assms(2) by (simp add: map_of_inject_set cycle_catalogs_distinct)
qed

context cache_writes
begin

lemma start_inv:
  "holds s m \<Longrightarrow> cycle_inv E accept holds limits envs ps holder m (cycle_start ps holder s)"
  by (simp add: cycle_inv_def cycle_start_def running_def ended_def cycle_catalogs_def)

lemma started_inv:
  assumes inv: "cycle_inv E accept holds limits envs ps holder m st"
    and step: "cycle_step E upsert limits envs StartNext st = Some st'"
  shows "cycle_inv E accept holds limits envs ps holder m st'"
proof -
  obtain i p queue where q: "cy_queue st = (i, p) # queue"
    using step by (cases "cy_queue st") auto
  have h: "same_holder holder (cy_holder st)" using inv by (simp add: cycle_inv_def)
  let ?c = "crawl_one E (ce_post (envs i)) (ce_draws (envs i)) (max_response_bytes limits) p"
  have "fst (?c (cy_holder st)) = fetched E limits envs holder i p"
    unfolding fetched_def by (rule crawl_one_indep [OF h, symmetric])
  moreover have "same_holder holder (snd (?c (cy_holder st)))"
    by (rule same_holder_trans [OF h crawl_one_holder])
  moreover have "st' = st\<lparr>cy_queue := queue, cy_flight := cy_flight st @ [(i, p, fst (?c (cy_holder st)))],
      cy_holder := snd (?c (cy_holder st))\<rparr>"
    using step q by (auto simp: case_prod_beta split: if_splits)
  ultimately show ?thesis
    using inv q by (simp add: cycle_inv_def running_def ended_def)
qed

lemma cached_write:
  assumes "holds s m" "\<forall>c. fetched E limits envs holder i p = Inr c \<longrightarrow> good c"
    "crawl_and_cache upsert (envs i) p (fetched E limits envs holder i p) s = (res, s')"
  shows "res = rbind (cached_at E accept limits envs holder i p) (\<lambda>_. Inr ())"
    and "holds s' (case cached_at E accept limits envs holder i p of Inr c \<Rightarrow> m(pe_part_id p \<mapsto> c) | Inl _ \<Rightarrow> m)"
proof -
  have "res = rbind (cached_at E accept limits envs holder i p) (\<lambda>_. Inr ()) \<and>
    holds s' (case cached_at E accept limits envs holder i p of Inr c \<Rightarrow> m(pe_part_id p \<mapsto> c) | Inl _ \<Rightarrow> m)"
  proof (cases "ce_timed_out (envs i)")
    case False
    show ?thesis
    proof (cases "fetched E limits envs holder i p")
      case (Inr c)
      then have "origin_node c = pe_part_id p"
        using crawled_identity [of E _ _ _ p holder c] by (metis fetched_def prod.collapse)
      then show ?thesis
        using assms False Inr upsert_result [OF assms(1), of c "ce_fault (envs i)"]
          upsert_holds [OF assms(1), of c "ce_fault (envs i)"]
        by (cases "accept (ce_fault (envs i))") (auto simp: crawl_and_cache_def cached_at_def split: prod.splits)
    qed (use assms False in \<open>simp add: crawl_and_cache_def cached_at_def\<close>)
  qed (use assms in \<open>simp add: crawl_and_cache_def cached_at_def\<close>)
  then show "res = rbind (cached_at E accept limits envs holder i p) (\<lambda>_. Inr ())"
    and "holds s' (case cached_at E accept limits envs holder i p of Inr c \<Rightarrow> m(pe_part_id p \<mapsto> c) | Inl _ \<Rightarrow> m)"
    by blast+
qed

lemma finished_inv:
  assumes inv: "cycle_inv E accept holds limits envs ps holder m st"
    and ids: "distinct (map pe_part_id ps)"
    and good: "\<forall>i<length ps. \<forall>c. fetched E limits envs holder i (ps ! i) = Inr c \<longrightarrow> good c"
    and step: "cycle_step E upsert limits envs (Finish k) st = Some st'"
  shows "cycle_inv E accept holds limits envs ps holder m st'"
proof -
  obtain i p r where f: "cy_flight st ! k = (i, p, r)" by (cases "cy_flight st ! k")
  have k: "k < length (cy_flight st)" using step by (simp split: if_splits)
  then have in_flight: "(i, p, r) \<in> set (cy_flight st)" using f by (metis nth_mem)
  then have r: "r = fetched E limits envs holder i p" using inv by (auto simp: cycle_inv_def)
  define before after where "before = take k (cy_flight st)" and "after = drop (Suc k) (cy_flight st)"
  have flight: "cy_flight st = before @ (i, p, r) # after"
    using id_take_nth_drop [OF k] f by (simp add: before_def after_def)
  have mset: "mset (running st @ ended ps st @ cy_queue st) = mset (enumerate 0 ps)"
    using inv by (simp add: cycle_inv_def)
  then have "(i, p) \<in> set (enumerate 0 ps)"
    using flight by (metis (mono_tags, lifting) append_assoc in_set_conv_decomp list.simps(9) map_append mset_eq_setD
        prod.simps(2) running_def Un_iff set_append)
  then have i: "i < length ps" "p = ps ! i" by (auto simp: in_enumerate)
  have "distinct (map (pe_part_id \<circ> snd) (running st @ ended ps st @ cy_queue st))"
    using ids mset by (metis enumerate_ids mset_eq_imp_distinct_iff mset_map)
  then have fresh: "pe_part_id p \<notin> (pe_part_id \<circ> snd) ` set (ended ps st)"
    using flight by (auto simp: running_def)
  obtain res s' where w: "crawl_and_cache upsert (envs i) p r (cy_cache st) = (res, s')" by fastforce
  let ?old = "m ++ map_of (cycle_catalogs E accept limits envs holder (ended ps st))"
  have "holds (cy_cache st) ?old" using inv by (simp add: cycle_inv_def)
  note written = cached_write [OF this _ w [unfolded r], unfolded i(2)]
  have st': "st' = st\<lparr>cy_flight := before @ after,
      cy_outcomes := cy_outcomes st @ [(i, res, ce_finished_at (envs i), ce_finished_instant (envs i))], cy_cache := s'\<rparr>"
    using step f k w by (simp add: before_def after_def)
  have ended: "ended ps st' = ended ps st @ [(i, p)]" by (simp add: st' ended_def i)
  have "holds s' (m ++ map_of (cycle_catalogs E accept limits envs holder (ended ps st @ [(i, p)])))"
  proof (cases "cached_at E accept limits envs holder i p")
    case (Inr c)
    have "pe_part_id p \<notin> fst ` set (cycle_catalogs E accept limits envs holder (ended ps st))"
      using fresh cycle_catalogs_keys by blast
    then show ?thesis
      using written(2) good i Inr by (simp add: cycle_catalogs_append map_add_new_key del: map_of_append)
  qed (use written(2) good i in \<open>simp add: cycle_catalogs_append\<close>)
  moreover have "res = rbind (cached_at E accept limits envs holder i p) (\<lambda>_. Inr ())"
    using written(1) good i by simp
  ultimately show ?thesis
    using inv mset i unfolding cycle_inv_def ended
    by (simp add: st' running_def flight outcome_at_def)
qed

lemma run_inv:
  assumes "cycle_run E upsert limits envs evs st = Some st'" "cycle_inv E accept holds limits envs ps holder m st"
    "distinct (map pe_part_id ps)" "\<forall>i<length ps. \<forall>c. fetched E limits envs holder i (ps ! i) = Inr c \<longrightarrow> good c"
  shows "cycle_inv E accept holds limits envs ps holder m st'"
  using assms(1,2)
proof (induction evs arbitrary: st)
  case (Cons ev evs)
  then obtain st1 where st1: "cycle_step E upsert limits envs ev st = Some st1"
    "cycle_run E upsert limits envs evs st1 = Some st'" by (auto simp: bind_eq_Some_conv)
  then have "cycle_inv E accept holds limits envs ps holder m st1"
    using Cons.prems(2) started_inv finished_inv assms(3,4) by (cases ev) blast+
  then show ?case using Cons.IH st1(2) by simp
qed simp

text \<open>What a cycle comes to is the same under every schedule.\<close>

lemma crawl_once_result:
  assumes "crawl_once E upsert limits envs evs ps holder s = Some (summary, s', holder')" "holds s m"
    "distinct (map pe_part_id ps)" "\<forall>i<length ps. \<forall>c. fetched E limits envs holder i (ps ! i) = Inr c \<longrightarrow> good c"
  shows "summary = fold add_outcome (zip ps (cycle_outcomes E accept limits envs holder ps)) crawl_summary_default"
    and "holds s' (m ++ map_of (cycle_catalogs E accept limits envs holder (enumerate 0 ps)))"
    and "same_holder holder holder'"
proof -
  obtain st where run: "cycle_run E upsert limits envs evs (cycle_start ps holder s) = Some st"
    and fin: "cycle_finished st" and res: "summary = summarize ps (cy_outcomes st)" "s' = cy_cache st"
      "holder' = cy_holder st"
    using assms(1) by (auto simp: crawl_once_def bind_eq_Some_conv split: if_splits)
  have inv: "cycle_inv E accept holds limits envs ps holder m st"
    by (rule run_inv [OF run start_inv [OF assms(2)] assms(3,4)])
  then have mset: "mset (ended ps st) = mset (enumerate 0 ps)"
    using fin by (simp add: cycle_inv_def cycle_finished_def running_def)
  have "map fst (ended ps st) = map fst (cy_outcomes st)" by (auto simp: ended_def)
  then have indices: "mset (map fst (cy_outcomes st)) = mset [0..<length ps]"
    using mset by (metis mset_map map_fst_enumerate add_0)
  have "(i, out) \<in> set (cy_outcomes st) \<longleftrightarrow> (i, out) \<in> set (cycle_outcomes E accept limits envs holder ps)" for i out
  proof -
    have "i < length ps \<longleftrightarrow> i \<in> set (map fst (cy_outcomes st))"
      using mset_eq_setD [OF indices] by simp
    then have "i < length ps \<longleftrightarrow> (\<exists>out'. (i, out') \<in> set (cy_outcomes st))" by (simp add: image_iff Bex_def)
    moreover have "out' = outcome_at E accept limits envs holder i (ps ! i)" if "(i, out') \<in> set (cy_outcomes st)" for out'
      using inv that unfolding cycle_inv_def by blast
    ultimately show ?thesis unfolding in_cycle_outcomes by blast
  qed
  then have "set (cy_outcomes st) = set (cycle_outcomes E accept limits envs holder ps)" by auto
  moreover have "distinct (map fst (cy_outcomes st))"
    using indices by (metis distinct_upt mset_eq_imp_distinct_iff)
  ultimately have "sort_key fst (cy_outcomes st) = cycle_outcomes E accept limits envs holder ps"
    by (intro sort_key_recovers) (simp_all add: cycle_outcomes_indices distinct_map)
  then show "summary = fold add_outcome (zip ps (cycle_outcomes E accept limits envs holder ps)) crawl_summary_default"
    using res by (simp add: summarize_def)
  show "same_holder holder holder'" using inv res by (simp add: cycle_inv_def)
  have "map_of (cycle_catalogs E accept limits envs holder (ended ps st)) =
      map_of (cycle_catalogs E accept limits envs holder (enumerate 0 ps))"
    by (rule cycle_catalogs_order [OF mset]) (simp add: enumerate_ids assms(3))
  then show "holds s' (m ++ map_of (cycle_catalogs E accept limits envs holder (enumerate 0 ps)))"
    using inv res by (simp add: cycle_inv_def)
qed

end

section \<open>Every cycle ends\<close>

definition cycle_work :: "'s cycle \<Rightarrow> nat" where
  "cycle_work st = 2 * length (cy_queue st) + length (cy_flight st)"

lemma step_work:
  assumes "cycle_step E upsert limits envs ev st = Some st'"
  shows "Suc (cycle_work st') = cycle_work st"
    and "length (cy_flight st) \<le> max (concurrency limits) 1 \<Longrightarrow> length (cy_flight st') \<le> max (concurrency limits) 1"
proof -
  have "Suc (cycle_work st') = cycle_work st \<and>
    (length (cy_flight st) \<le> max (concurrency limits) 1 \<longrightarrow> length (cy_flight st') \<le> max (concurrency limits) 1)"
  proof (cases ev)
    case StartNext
    then show ?thesis using assms
      by (cases "cy_queue st") (auto simp: cycle_work_def case_prod_beta split: if_splits)
  next
    case (Finish k)
    then have "k < length (cy_flight st)" using assms by (simp split: if_splits)
    then show ?thesis using assms Finish by (auto simp: cycle_work_def case_prod_beta)
  qed
  then show "Suc (cycle_work st') = cycle_work st"
    and "length (cy_flight st) \<le> max (concurrency limits) 1 \<Longrightarrow> length (cy_flight st') \<le> max (concurrency limits) 1"
    by blast+
qed

lemma run_work:
  "cycle_run E upsert limits envs evs st = Some st' \<Longrightarrow> length (cy_flight st) \<le> max (concurrency limits) 1 \<Longrightarrow>
   length evs + cycle_work st' = cycle_work st \<and> length (cy_flight st') \<le> max (concurrency limits) 1"
proof (induction evs arbitrary: st)
  case (Cons ev evs)
  then obtain st1 where "cycle_step E upsert limits envs ev st = Some st1"
    "cycle_run E upsert limits envs evs st1 = Some st'" by (auto simp: bind_eq_Some_conv)
  then show ?case using Cons.IH Cons.prems(2) step_work by fastforce
qed simp

lemma step_enabled:
  assumes "\<not> cycle_finished st"
  shows "\<exists>ev st'. cycle_step E upsert limits envs ev st = Some st'"
proof (cases "cy_flight st")
  case Nil
  then obtain i p queue where "cy_queue st = (i, p) # queue"
    using assms by (cases "cy_queue st") (auto simp: cycle_finished_def)
  then have "cycle_step E upsert limits envs StartNext st \<noteq> None" using Nil by (simp add: case_prod_beta)
  then show ?thesis by blast
next
  case (Cons f fs)
  then have "cycle_step E upsert limits envs (Finish 0) st \<noteq> None" by (simp add: case_prod_beta)
  then show ?thesis by blast
qed

lemma run_completes:
  "\<exists>evs st'. cycle_run E upsert limits envs evs st = Some st' \<and> cycle_finished st' \<and> length evs = cycle_work st"
proof (induction "cycle_work st" arbitrary: st rule: less_induct)
  case less
  show ?case
  proof (cases "cycle_finished st")
    case True
    then have "cycle_run E upsert limits envs [] st = Some st \<and> length ([] :: cycle_event list) = cycle_work st"
      by (simp add: cycle_work_def cycle_finished_def)
    with True show ?thesis by blast
  next
    case False
    obtain ev st1 where ev: "cycle_step E upsert limits envs ev st = Some st1"
      using step_enabled [OF False] by blast
    then obtain evs st' where "cycle_run E upsert limits envs evs st1 = Some st'" "cycle_finished st'"
      "length evs = cycle_work st1"
      using less step_work(1) [OF ev] by (metis lessI)
    then have "cycle_run E upsert limits envs (ev # evs) st = Some st' \<and> length (ev # evs) = cycle_work st"
      using ev step_work(1) [OF ev] by simp
    then show ?thesis using \<open>cycle_finished st'\<close> by blast
  qed
qed


section \<open>The summary\<close>

lemma fold_add_outcome:
  "length pos = length xs \<Longrightarrow> fold add_outcome (zip pos xs) sm =
   \<lparr>attempted = attempted sm + length pos,
    succeeded = succeeded sm + length (filter (\<lambda>(p, i, out, t). \<not> isl out) (zip pos xs)),
    failed = failed sm + length (filter (\<lambda>(p, i, out, t). isl out) (zip pos xs)),
    succeeded_ids = succeeded_ids sm @ map (pe_part_id \<circ> fst) (filter (\<lambda>(p, i, out, t). \<not> isl out) (zip pos xs)),
    failures = failures sm @ map (\<lambda>(p, i, out, t). (pe_part_id p, projl out)) (filter (\<lambda>(p, i, out, t). isl out) (zip pos xs)),
    finished_at = fold (\<lambda>(p, i, out, at, inst). btree_insert (pe_part_id p) at) (zip pos xs) (finished_at sm),
    finished_instants = fold (\<lambda>(p, i, out, at, inst). btree_insert (pe_part_id p) inst) (zip pos xs) (finished_instants sm)\<rparr>"
proof (induction pos xs arbitrary: sm rule: list_induct2)
  case (Cons p ps x xs)
  then show ?case by (cases x; cases "fst (snd x)") (auto simp: add_outcome_def Let_def)
qed simp

lemma zip_cycle_outcomes:
  "zip ps (cycle_outcomes E accept limits envs holder ps) =
   map (\<lambda>(i, p). (p, i, outcome_at E accept limits envs holder i p)) (enumerate 0 ps)"
  by (rule nth_equalityI) (simp_all add: cycle_outcomes_def nth_enumerate_eq)

text \<open>The failures of a cycle, in the order of the participants.\<close>

definition cycle_failures ::
    "jose \<Rightarrow> ('f \<Rightarrow> store_error + unit) \<Rightarrow> crawl_limits \<Rightarrow> (nat \<Rightarrow> 'f crawl_env) \<Rightarrow> holder_identity option \<Rightarrow>
     (nat \<times> participant_entry) list \<Rightarrow> (node_id \<times> crawl_error) list" where
  "cycle_failures E accept limits envs holder ips =
     somes (map (\<lambda>(i, p). case cached_at E accept limits envs holder i p of
       Inl e \<Rightarrow> Some (pe_part_id p, e) | Inr _ \<Rightarrow> None) ips)"

definition cycle_summary ::
    "jose \<Rightarrow> ('f \<Rightarrow> store_error + unit) \<Rightarrow> crawl_limits \<Rightarrow> (nat \<Rightarrow> 'f crawl_env) \<Rightarrow> holder_identity option \<Rightarrow>
     participant_entry list \<Rightarrow> crawl_summary" where
  "cycle_summary E accept limits envs holder ps =
     fold add_outcome (zip ps (cycle_outcomes E accept limits envs holder ps)) crawl_summary_default"

lemma map_of_fold_insert:
  "map_of (fold (\<lambda>x. btree_insert (k x) (v x)) xs b) = map_of b ++ map_of (rev (map (\<lambda>x. (k x, v x)) xs))"
  by (induction xs rule: rev_induct) (auto simp: fun_eq_iff map_add_def)

lemma finished_lookup:
  assumes "distinct (map pe_part_id ps)"
  shows "map_of (fold (\<lambda>x. btree_insert (pe_part_id (snd x)) (v x)) (enumerate 0 ps) []) n =
    map_option v (find (\<lambda>x. pe_part_id (snd x) = n) (enumerate 0 ps))"
proof -
  have d: "distinct (map fst (map (\<lambda>x. (pe_part_id (snd x), v x)) (enumerate 0 ps)))"
    using assms enumerate_ids [of 0 ps] by (simp add: comp_def)
  have "map_of (map (\<lambda>x. (pe_part_id (snd x), v x)) xs) n = map_option v (find (\<lambda>x. pe_part_id (snd x) = n) xs)" for xs
    by (induction xs) auto
  moreover have "map_of (rev (map (\<lambda>x. (pe_part_id (snd x), v x)) (enumerate 0 ps))) =
      map_of (map (\<lambda>x. (pe_part_id (snd x), v x)) (enumerate 0 ps))"
    using d by (subst map_of_inject_set) (simp_all add: rev_map [symmetric] del: map_map)
  ultimately show ?thesis by (simp add: map_of_fold_insert)
qed

lemma summary_parts:
  "map (pe_part_id \<circ> fst) (filter (\<lambda>(p, i, out, t). \<not> isl out)
     (map (\<lambda>(i, p). (p, i, outcome_at E accept limits envs holder i p)) ips)) =
   map fst (cycle_catalogs E accept limits envs holder ips)"
  "map (\<lambda>(p, i, out, t). (pe_part_id p, projl out)) (filter (\<lambda>(p, i, out, t). isl out)
     (map (\<lambda>(i, p). (p, i, outcome_at E accept limits envs holder i p)) ips)) =
   cycle_failures E accept limits envs holder ips"
  "fold (\<lambda>(p, i, out, at, inst). btree_insert (pe_part_id p) at)
     (map (\<lambda>(i, p). (p, i, outcome_at E accept limits envs holder i p)) ips) b =
   fold (\<lambda>x. btree_insert (pe_part_id (snd x)) (ce_finished_at (envs (fst x)))) ips b"
  "fold (\<lambda>(p, i, out, at, inst). btree_insert (pe_part_id p) inst)
     (map (\<lambda>(i, p). (p, i, outcome_at E accept limits envs holder i p)) ips) b =
   fold (\<lambda>x. btree_insert (pe_part_id (snd x)) (ce_finished_instant (envs (fst x)))) ips b"
proof (induction ips arbitrary: b)
  case (Cons x ips)
  obtain i p where x: "x = (i, p)" by (cases x)
  {
    case 1
    show ?case using Cons(1) by (cases "cached_at E accept limits envs holder i p")
      (simp_all add: x outcome_at_def cycle_catalogs_def)
  next
    case 2
    show ?case using Cons(2) by (cases "cached_at E accept limits envs holder i p")
      (simp_all add: x outcome_at_def cycle_failures_def)
  next
    case 3
    show ?case using Cons(3) by (simp add: x outcome_at_def)
  next
    case 4
    show ?case using Cons(4) by (simp add: x outcome_at_def)
  }
qed (simp_all add: cycle_catalogs_def cycle_failures_def)

lemma summary_counts:
  "length (filter (\<lambda>(p, i, out, t). \<not> isl out) (map (\<lambda>(i, p). (p, i, outcome_at E accept limits envs holder i p)) ips)) =
   length (cycle_catalogs E accept limits envs holder ips)"
  "length (filter (\<lambda>(p, i, out, t). isl out) (map (\<lambda>(i, p). (p, i, outcome_at E accept limits envs holder i p)) ips)) =
   length (cycle_failures E accept limits envs holder ips)"
  using arg_cong [OF summary_parts(1) [of E accept limits envs holder ips], of length]
    arg_cong [OF summary_parts(2) [of E accept limits envs holder ips], of length]
  by (simp_all only: length_map)

lemma cycle_summary_eq:
  "cycle_summary E accept limits envs holder ps =
   \<lparr>attempted = length ps,
    succeeded = length (cycle_catalogs E accept limits envs holder (enumerate 0 ps)),
    failed = length (cycle_failures E accept limits envs holder (enumerate 0 ps)),
    succeeded_ids = map fst (cycle_catalogs E accept limits envs holder (enumerate 0 ps)),
    failures = cycle_failures E accept limits envs holder (enumerate 0 ps),
    finished_at = fold (\<lambda>x. btree_insert (pe_part_id (snd x)) (ce_finished_at (envs (fst x)))) (enumerate 0 ps) [],
    finished_instants = fold (\<lambda>x. btree_insert (pe_part_id (snd x)) (ce_finished_instant (envs (fst x)))) (enumerate 0 ps) []\<rparr>"
proof -
  have "length ps = length (cycle_outcomes E accept limits envs holder ps)" by (simp add: cycle_outcomes_def)
  then show ?thesis
    unfolding cycle_summary_def
    by (subst fold_add_outcome, assumption)
      (simp only: zip_cycle_outcomes summary_parts summary_counts crawl_summary_default_def crawl_summary.simps
        append_Nil add_0)
qed

text \<open>Every participant either succeeded or failed.\<close>

lemma cycle_total:
  "length (cycle_catalogs E accept limits envs holder ips) + length (cycle_failures E accept limits envs holder ips) = length ips"
  by (induction ips) (auto simp: cycle_catalogs_def cycle_failures_def split: sum.splits)

end
