(* ===== verification/Harvester.thy ===== *)
theory Harvester
  imports Crawl_Cycle
begin

text \<open>
  The harvester of \<open>crates/crawler/src/lib.rs\<close> and the status it reports (\<open>status.rs\<close>): crawl cycles one after
  another, the removal of catalogs that have gone stale, and the record of each participant's crawls.
\<close>

section \<open>Status\<close>

record participant_status =
  last_attempt :: "nat option"
  last_success :: "nat option"
  last_error :: "crawl_error option"
  cached :: bool

definition participant_status_default :: participant_status where
  "participant_status_default = \<lparr>last_attempt = None, last_success = None, last_error = None, cached = False\<rparr>"

record crawl_status =
  cycles_completed :: "64 word"
  status_participants :: "(string, participant_status) btree"

text \<open>\<open>entry(pid).or_default()\<close> and an update of the entry.\<close>

definition update_entry ::
    "string \<Rightarrow> (participant_status \<Rightarrow> participant_status) \<Rightarrow> (string, participant_status) btree \<Rightarrow>
     (string, participant_status) btree" where
  "update_entry pid f m =
     btree_insert pid (f (case map_of m pid of Some e \<Rightarrow> e | None \<Rightarrow> participant_status_default)) m"

definition record_status :: "crawl_summary \<Rightarrow> string list \<Rightarrow> nat \<Rightarrow> crawl_status \<Rightarrow> crawl_status" where
  "record_status summary expired cycle_end st =
     (let finished = (\<lambda>pid. case map_of (finished_at summary) pid of Some t \<Rightarrow> t | None \<Rightarrow> cycle_end);
          m1 = fold (\<lambda>pid. update_entry pid (\<lambda>e. e\<lparr>last_attempt := Some (finished pid),
                 last_success := Some (finished pid), last_error := None, cached := True\<rparr>))
               (succeeded_ids summary) (status_participants st);
          m2 = fold (\<lambda>(pid, err). update_entry pid (\<lambda>e. e\<lparr>last_attempt := Some (finished pid), last_error := Some err\<rparr>))
               (failures summary) m1;
          m3 = fold (\<lambda>pid. update_entry pid (\<lambda>e. e\<lparr>cached := False\<rparr>)) expired m2
      in \<lparr>cycles_completed = cycles_completed st + 1, status_participants = m3\<rparr>)"

section \<open>Cycles\<close>

record 's harvester =
  hv_cache :: 's
  hv_participants :: "participant_entry list"
  hv_holder :: "holder_identity option"
  hv_limits :: crawl_limits
  hv_last_success :: "(string \<times> nat) list"
  hv_status :: crawl_status

definition harvester_new ::
    "'s \<Rightarrow> participant_entry list \<Rightarrow> holder_identity option \<Rightarrow> crawl_limits \<Rightarrow> 's harvester" where
  "harvester_new s ps holder limits =
     \<lparr>hv_cache = s, hv_participants = ps, hv_holder = holder, hv_limits = limits, hv_last_success = [],
      hv_status = \<lparr>cycles_completed = 0,
        status_participants = btree_of_list (map (\<lambda>p. (pe_part_id p, participant_status_default)) ps)\<rparr>\<rparr>"

text \<open>What a cycle meets: each crawl's environment, the schedule, the clocks at its end and the storage's faults.\<close>

record 'f cycle_env =
  cx_crawls :: "nat \<Rightarrow> 'f crawl_env"
  cx_events :: "cycle_event list"
  cx_now :: nat
  cx_delete :: "string \<Rightarrow> 'f"
  cx_end :: nat

text \<open>The removal of stale catalogs: a failed delete keeps the entry, so that the next cycle tries again.\<close>

fun expire ::
    "('f \<Rightarrow> node_id \<Rightarrow> 's \<Rightarrow> (store_error + bool) \<times> 's) \<Rightarrow> (string \<Rightarrow> 'f) \<Rightarrow> string list \<Rightarrow> 's \<Rightarrow>
     (string \<times> nat) list \<Rightarrow> string list \<times> 's \<times> (string \<times> nat) list" where
  "expire delete faults [] s ls = ([], s, ls)"
| "expire delete faults (pid # ids) s ls =
     (case delete (faults pid) pid s of
        (Inr _, s') \<Rightarrow>
          (case expire delete faults ids s' (AList.delete pid ls) of (expired, s'', ls') \<Rightarrow> (pid # expired, s'', ls'))
      | (Inl _, s') \<Rightarrow> expire delete faults ids s' ls)"

definition note_successes :: "crawl_summary \<Rightarrow> nat \<Rightarrow> (string \<times> nat) list \<Rightarrow> (string \<times> nat) list" where
  "note_successes summary now ls =
     fold (\<lambda>pid. AList.update pid (case map_of (finished_instants summary) pid of Some at \<Rightarrow> at | None \<Rightarrow> now))
       (succeeded_ids summary) ls"

definition stale_ids :: "nat \<Rightarrow> nat \<Rightarrow> (string \<times> nat) list \<Rightarrow> string list" where
  "stale_ids now max_age ls = sort (map fst (filter (\<lambda>(pid, at). now - at > max_age) ls))"

definition run_cycle ::
    "jose \<Rightarrow> ('f \<Rightarrow> catalog \<Rightarrow> 's \<Rightarrow> (store_error + unit) \<times> 's) \<Rightarrow>
     ('f \<Rightarrow> node_id \<Rightarrow> 's \<Rightarrow> (store_error + bool) \<times> 's) \<Rightarrow> 'f cycle_env \<Rightarrow> 's harvester \<Rightarrow>
     ((crawl_summary \<times> string list) \<times> 's harvester) option" where
  "run_cycle E upsert delete x h =
     Option.bind (crawl_once E upsert (hv_limits h) (cx_crawls x) (cx_events x) (hv_participants h) (hv_holder h)
         (hv_cache h)) (\<lambda>(summary, s, holder).
       let ls = note_successes summary (cx_now x) (hv_last_success h);
           stale = stale_ids (cx_now x) (max_catalog_age (hv_limits h)) ls
       in case expire delete (cx_delete x) stale s ls of
            (expired, s', ls') \<Rightarrow>
              Some ((summary, expired),
                h\<lparr>hv_cache := s', hv_holder := holder, hv_last_success := ls',
                  hv_status := record_status summary expired (cx_end x) (hv_status h)\<rparr>))"

section \<open>The parts of a cycle\<close>

lemma update_entry_simps:
  "map_of (update_entry pid f m) = (map_of m)(pid \<mapsto> f (case map_of m pid of Some e \<Rightarrow> e | None \<Rightarrow> participant_status_default))"
  "btree_ok m \<Longrightarrow> btree_ok (update_entry pid f m)"
  by (simp_all add: update_entry_def)

lemma fold_update_entry:
  "btree_ok m \<Longrightarrow> btree_ok (fold (\<lambda>x. update_entry (k x) (f x)) xs m)"
  "dom (map_of (fold (\<lambda>x. update_entry (k x) (f x)) xs m)) = dom (map_of m) \<union> k ` set xs"
  by (induction xs arbitrary: m) (auto simp: update_entry_simps simp del: fun_upd_apply)

text \<open>The cached flag of an entry after a run of updates: \<open>g\<close> is what every update does to it.\<close>

definition cached_flag :: "(string, participant_status) btree \<Rightarrow> string \<Rightarrow> bool" where
  "cached_flag m n = (case map_of m n of Some e \<Rightarrow> cached e | None \<Rightarrow> False)"

lemma cached_flag_fold:
  assumes "\<And>x e. cached (f x e) = g (cached e)" "\<And>b. g (g b) = g b"
  shows "cached_flag (fold (\<lambda>x. update_entry (k x) (f x)) xs m) n =
    (if n \<in> k ` set xs then g (cached_flag m n) else cached_flag m n)"
proof -
  have step: "cached_flag (update_entry (k x) (f x) m) j = (if j = k x then g (cached_flag m j) else cached_flag m j)" for x m j
    by (simp add: cached_flag_def update_entry_simps assms(1) participant_status_default_def split: option.splits)
  show ?thesis
  proof (induction xs rule: rev_induct)
    case (snoc x xs)
    then show ?case by (cases "n = k x"; cases "n \<in> k ` set xs") (simp_all add: step assms(2))
  qed simp
qed

lemma map_of_note_successes:
  "map_of (note_successes summary now ls) n =
   (if n \<in> set (succeeded_ids summary)
    then Some (case map_of (finished_instants summary) n of Some at \<Rightarrow> at | None \<Rightarrow> now) else map_of ls n)"
proof -
  have "map_of (fold (\<lambda>pid. AList.update pid (f pid)) ids ls) n = (if n \<in> set ids then Some (f n) else map_of ls n)" for f ids
    by (induction ids arbitrary: ls) (auto simp: update_conv')
  then show ?thesis by (simp add: note_successes_def)
qed

lemma dom_note_successes:
  "dom (map_of (note_successes summary now ls)) = set (succeeded_ids summary) \<union> dom (map_of ls)"
  by (auto simp: map_of_note_successes domIff split: if_splits)

lemma distinct_note_successes:
  "distinct (map fst ls) \<Longrightarrow> distinct (map fst (note_successes summary now ls))"
proof -
  have "distinct (map fst ls) \<Longrightarrow> distinct (map fst (fold (\<lambda>pid. AList.update pid (f pid)) ids ls))" for f ids
    by (induction ids arbitrary: ls) (auto simp: distinct_update)
  then show "distinct (map fst ls) \<Longrightarrow> distinct (map fst (note_successes summary now ls))"
    by (simp add: note_successes_def)
qed

lemma in_stale: "distinct (map fst ls) \<Longrightarrow>
    n \<in> set (stale_ids now age ls) \<longleftrightarrow> (\<exists>at. map_of ls n = Some at \<and> now - at > age)"
  by (force simp: stale_ids_def)

lemma record_status_entries:
  assumes "btree_ok (status_participants st)"
  shows "btree_ok (status_participants (record_status summary expired t st))"
    and "dom (map_of (status_participants (record_status summary expired t st))) =
      dom (map_of (status_participants st)) \<union> set (succeeded_ids summary) \<union> fst ` set (failures summary) \<union> set expired"
  using assms unfolding record_status_def Let_def case_prod_unfold
  by (simp_all add: fold_update_entry [where k = "\<lambda>x. x"] fold_update_entry [where k = fst])

lemma record_status_cached:
  "cached_flag (status_participants (record_status summary expired t st)) n \<longleftrightarrow>
   n \<notin> set expired \<and> (n \<in> set (succeeded_ids summary) \<or> cached_flag (status_participants st) n)"
proof -
  define fin where "fin = (\<lambda>pid. case map_of (finished_at summary) pid of Some u \<Rightarrow> u | None \<Rightarrow> t)"
  define m1 where "m1 = fold (\<lambda>pid. update_entry pid (\<lambda>e. e\<lparr>last_attempt := Some (fin pid),
      last_success := Some (fin pid), last_error := None, cached := True\<rparr>)) (succeeded_ids summary) (status_participants st)"
  define m2 where "m2 = fold (\<lambda>x. update_entry (fst x) (\<lambda>e. e\<lparr>last_attempt := Some (fin (fst x)),
      last_error := Some (snd x)\<rparr>)) (failures summary) m1"
  have "status_participants (record_status summary expired t st) =
      fold (\<lambda>pid. update_entry pid (\<lambda>e. e\<lparr>cached := False\<rparr>)) expired m2"
    by (simp add: record_status_def Let_def m2_def m1_def fin_def case_prod_unfold)
  then have "cached_flag (status_participants (record_status summary expired t st)) n =
      (n \<notin> set expired \<and> cached_flag m2 n)"
    by (simp add: cached_flag_fold [where g = "\<lambda>_. False" and k = "\<lambda>x. x"])
  also have "cached_flag m2 n = cached_flag m1 n"
    unfolding m2_def by (subst cached_flag_fold [where g = "\<lambda>b. b"]) simp_all
  also have "cached_flag m1 n = (n \<in> set (succeeded_ids summary) \<or> cached_flag (status_participants st) n)"
    unfolding m1_def by (subst cached_flag_fold [where g = "\<lambda>_. True" and k = "\<lambda>x. x"]) simp_all
  finally show ?thesis .
qed

definition harvester_inv ::
    "('s \<Rightarrow> (node_id \<Rightarrow> catalog option) \<Rightarrow> bool) \<Rightarrow> 's harvester \<Rightarrow> (node_id \<Rightarrow> catalog option) \<Rightarrow> bool" where
  "harvester_inv holds h m \<longleftrightarrow>
     holds (hv_cache h) m \<and> distinct (map fst (hv_last_success h)) \<and> dom (map_of (hv_last_success h)) = dom m \<and>
     dom m \<subseteq> pe_part_id ` set (hv_participants h) \<and> btree_ok (status_participants (hv_status h)) \<and>
     dom (map_of (status_participants (hv_status h))) = pe_part_id ` set (hv_participants h) \<and>
     (\<forall>n. cached_flag (status_participants (hv_status h)) n \<longleftrightarrow> n \<in> dom m)"

lemma cycle_ids:
  "fst ` set (cycle_catalogs E accept limits envs holder (enumerate 0 ps)) \<union>
   fst ` set (cycle_failures E accept limits envs holder (enumerate 0 ps)) = pe_part_id ` set ps"
proof -
  have "fst ` set (cycle_catalogs E accept limits envs holder ips) \<union>
      fst ` set (cycle_failures E accept limits envs holder ips) = (pe_part_id \<circ> snd) ` set ips" for ips
  proof (induction ips)
    case (Cons x ips)
    obtain i p where x: "x = (i, p)" by (cases x)
    show ?case using Cons unfolding x
      by (cases "cached_at E accept limits envs holder i p")
        (auto simp: cycle_catalogs_def cycle_failures_def)
  qed (simp add: cycle_catalogs_def cycle_failures_def)
  then show ?thesis by (metis enumerate_ids list.set_map)
qed

lemma finished_instant:
  assumes "distinct (map pe_part_id ps)" "i < length ps"
  shows "map_of (finished_instants (cycle_summary E accept limits envs holder ps)) (pe_part_id (ps ! i)) =
    Some (ce_finished_instant (envs i))"
proof -
  have "pe_part_id (ps ! j) \<noteq> pe_part_id (ps ! i)" if "j < i" for j
    using that assms nth_eq_iff_index_eq [OF assms(1), of j i] by simp
  then have "find (\<lambda>x. pe_part_id (snd x) = pe_part_id (ps ! i)) (enumerate 0 ps) = Some (i, ps ! i)"
    unfolding find_Some_iff using assms(2) by (intro exI [of _ i]) (simp add: nth_enumerate_eq)
  then show ?thesis by (simp add: cycle_summary_eq finished_lookup [OF assms(1)])
qed

text \<open>A stale catalog is removed when no fault stops its delete.\<close>

lemma expire_removes:
  assumes "expire delete faults ids s ls = (expired, s', ls')" "n \<in> set ids"
    "\<And>s. \<not> isl (fst (delete (faults n) n s))"
  shows "n \<in> set expired"
  using assms(1,2)
proof (induction ids arbitrary: s ls expired)
  case (Cons pid ids)
  obtain r s1 where d: "delete (faults pid) pid s = (r, s1)" by fastforce
  show ?case
  proof (cases r)
    case (Inl e)
    then have "n \<noteq> pid" using assms(3) [of s] d by auto
    then show ?thesis using Cons d Inl by auto
  next
    case (Inr b)
    then show ?thesis using Cons d by (auto split: prod.splits)
  qed
qed simp

lemma run_cycle_parts:
  assumes "run_cycle E upsert delete x h = Some ((summary, expired), h')"
  shows "\<exists>s holder s' ls'.
    crawl_once E upsert (hv_limits h) (cx_crawls x) (cx_events x) (hv_participants h) (hv_holder h) (hv_cache h)
      = Some (summary, s, holder) \<and>
    expire delete (cx_delete x) (stale_ids (cx_now x) (max_catalog_age (hv_limits h))
      (note_successes summary (cx_now x) (hv_last_success h))) s
      (note_successes summary (cx_now x) (hv_last_success h)) = (expired, s', ls') \<and>
    h' = h\<lparr>hv_cache := s', hv_holder := holder, hv_last_success := ls',
      hv_status := record_status summary expired (cx_end x) (hv_status h)\<rparr>"
proof -
  obtain sm s holder where
    o: "crawl_once E upsert (hv_limits h) (cx_crawls x) (cx_events x) (hv_participants h) (hv_holder h) (hv_cache h)
      = Some (sm, s, holder)"
    using assms by (cases "crawl_once E upsert (hv_limits h) (cx_crawls x) (cx_events x) (hv_participants h)
      (hv_holder h) (hv_cache h)") (auto simp: run_cycle_def)
  obtain ex s' ls' where
    e: "expire delete (cx_delete x) (stale_ids (cx_now x) (max_catalog_age (hv_limits h))
        (note_successes sm (cx_now x) (hv_last_success h))) s (note_successes sm (cx_now x) (hv_last_success h))
      = (ex, s', ls')" by (rule prod_cases3)
  have "sm = summary \<and> ex = expired \<and> h' = h\<lparr>hv_cache := s', hv_holder := holder, hv_last_success := ls',
      hv_status := record_status sm ex (cx_end x) (hv_status h)\<rparr>"
    using assms o e by (auto simp: run_cycle_def Let_def)
  with o e show ?thesis by blast
qed

lemma run_cycle_frame:
  assumes "run_cycle E upsert delete x h = Some ((summary, expired), h')"
  shows "hv_participants h' = hv_participants h \<and> hv_limits h' = hv_limits h \<and>
    cycles_completed (hv_status h') = cycles_completed (hv_status h) + 1"
  using run_cycle_parts [OF assms] by (auto simp: record_status_def Let_def)

context cache_writes
begin

lemma expire_holds:
  assumes "holds s m" "expire delete faults ids s ls = (expired, s', ls')"
  shows "holds s' (m |` (- set expired)) \<and> set expired \<subseteq> set ids \<and>
    map_of ls' = map_of ls |` (- set expired) \<and> (distinct (map fst ls) \<longrightarrow> distinct (map fst ls'))"
  using assms
proof (induction ids arbitrary: s m ls expired)
  case Nil
  then show ?case by simp
next
  case (Cons pid ids)
  obtain r s1 where d: "delete (faults pid) pid s = (r, s1)" by fastforce
  note kept = delete_holds [OF Cons.prems(1), of "faults pid" pid]
  show ?case
  proof (cases r)
    case (Inl e)
    then show ?thesis using Cons.IH [of s1 m ls expired] Cons.prems d kept by auto
  next
    case (Inr b)
    obtain expired1 where e: "expire delete faults ids s1 (AList.delete pid ls) = (expired1, s', ls')"
      "expired = pid # expired1" using Cons.prems(2) d Inr by (auto split: prod.splits)
    have "holds s1 (m(pid := None))" using kept d Inr by simp
    from Cons.IH [OF this e(1)] show ?thesis
      using e(2) by (auto simp: delete_conv' restrict_map_def fun_eq_iff distinct_delete if_distrib
          cong: if_cong elim!: back_subst [of "holds s'"])
  qed
qed

text \<open>One cycle: what the store holds afterwards, what expired, and what is remembered.\<close>

lemma cycle_effect:
  assumes inv: "harvester_inv holds h m" and ids: "distinct (map pe_part_id (hv_participants h))"
    and good: "\<forall>i<length (hv_participants h). \<forall>c.
      fetched E (hv_limits h) (cx_crawls x) (hv_holder h) i (hv_participants h ! i) = Inr c \<longrightarrow> good c"
    and run: "run_cycle E upsert delete x h = Some ((summary, expired), h')"
  shows "summary = cycle_summary E accept (hv_limits h) (cx_crawls x) (hv_holder h) (hv_participants h)"
    and "harvester_inv holds h' ((m ++ map_of (cycle_catalogs E accept (hv_limits h) (cx_crawls x) (hv_holder h)
      (enumerate 0 (hv_participants h)))) |` (- set expired))"
    and "map_of (hv_last_success h') = map_of (note_successes summary (cx_now x) (hv_last_success h)) |` (- set expired)"
    and "set expired \<subseteq> set (stale_ids (cx_now x) (max_catalog_age (hv_limits h))
      (note_successes summary (cx_now x) (hv_last_success h)))"
proof -
  let ?cs = "cycle_catalogs E accept (hv_limits h) (cx_crawls x) (hv_holder h) (enumerate 0 (hv_participants h))"
  let ?ls = "note_successes summary (cx_now x) (hv_last_success h)"
  let ?stale = "stale_ids (cx_now x) (max_catalog_age (hv_limits h)) ?ls"
  obtain s holder s' ls' where
    once: "crawl_once E upsert (hv_limits h) (cx_crawls x) (cx_events x) (hv_participants h) (hv_holder h) (hv_cache h)
      = Some (summary, s, holder)"
    and ex: "expire delete (cx_delete x) ?stale s ?ls = (expired, s', ls')"
    and h': "h' = h\<lparr>hv_cache := s', hv_holder := holder, hv_last_success := ls',
      hv_status := record_status summary expired (cx_end x) (hv_status h)\<rparr>"
    using run_cycle_parts [OF run] by blast
  have m: "holds (hv_cache h) m" using inv by (simp add: harvester_inv_def)
  show summary: "summary = cycle_summary E accept (hv_limits h) (cx_crawls x) (hv_holder h) (hv_participants h)"
    using crawl_once_result(1) [OF once m ids good] by (simp add: cycle_summary_def)
  then have succ: "succeeded_ids summary = map fst ?cs" and fail: "failures summary =
      cycle_failures E accept (hv_limits h) (cx_crawls x) (hv_holder h) (enumerate 0 (hv_participants h))"
    by (simp_all add: cycle_summary_eq)
  note e = expire_holds [OF crawl_once_result(2) [OF once m ids good] ex]
  show "map_of (hv_last_success h') = map_of ?ls |` (- set expired)" "set expired \<subseteq> set ?stale"
    using e h' by simp_all
  have dls: "distinct (map fst ?ls)" using inv distinct_note_successes by (simp add: harvester_inv_def)
  have dom: "dom (map_of ?ls) = dom (m ++ map_of ?cs)"
    unfolding dom_note_successes using inv by (simp add: harvester_inv_def succ dom_map_of_conv_image_fst)
  have sub: "dom (m ++ map_of ?cs) \<subseteq> pe_part_id ` set (hv_participants h)"
    using inv cycle_ids [of E accept "hv_limits h" "cx_crawls x" "hv_holder h" "hv_participants h"]
    by (auto simp: harvester_inv_def dom_map_of_conv_image_fst)
  have "set ?stale \<subseteq> dom (map_of ?ls)" by (auto simp: in_stale [OF dls])
  then have "set expired \<subseteq> dom (map_of ?ls)" using e by blast
  then have ex_sub: "set expired \<subseteq> pe_part_id ` set (hv_participants h)"
    unfolding dom using sub by (rule subset_trans)
  have old: "btree_ok (status_participants (hv_status h))"
    "dom (map_of (status_participants (hv_status h))) = pe_part_id ` set (hv_participants h)"
    using inv by (simp_all add: harvester_inv_def)
  have "set (succeeded_ids summary) \<union> fst ` set (failures summary) = pe_part_id ` set (hv_participants h)"
    unfolding succ fail set_map by (rule cycle_ids)
  then have "dom (map_of (status_participants (record_status summary expired (cx_end x) (hv_status h)))) =
      pe_part_id ` set (hv_participants h)"
    unfolding record_status_entries(2) [OF old(1)] old(2) using ex_sub by blast
  then have status: "dom (map_of (status_participants (hv_status h'))) = pe_part_id ` set (hv_participants h)"
    "btree_ok (status_participants (hv_status h'))"
    using record_status_entries(1) [OF old(1)] by (simp_all add: h')
  have "cached_flag (status_participants (hv_status h')) n \<longleftrightarrow> n \<in> dom ((m ++ map_of ?cs) |` (- set expired))" for n
    using inv by (simp add: h' record_status_cached succ harvester_inv_def dom_map_of_conv_image_fst) blast
  then show "harvester_inv holds h' ((m ++ map_of ?cs) |` (- set expired))"
    using e dom sub dls status by (auto simp: harvester_inv_def h')
qed

end

end
