(* ===== verification/Json_Text.thy ===== *)
theory Json_Text
  imports Json
begin

text \<open>
  A self-delimiting text form of JSON values with its reader, executable and proved to round-trip. The witnesses
  instantiate the library parameters with it where the program only relies on reading back what was printed.
\<close>

definition put_nat :: "nat \<Rightarrow> string" where
  "put_nat n = show_nat n @ '':''"

definition put_int :: "int \<Rightarrow> string" where
  "put_int i = (if i < 0 then ''-'' else ''+'') @ put_nat (nat \<bar>i\<bar>)"

definition put_str :: "string \<Rightarrow> string" where
  "put_str s = put_nat (length s) @ s"

fun put_json :: "json \<Rightarrow> string" where
  "put_json JNull = ''n''"
| "put_json (JBool b) = (if b then ''t'' else ''f'')"
| "put_json (JNumber (PosInt n)) = ''p'' @ put_nat n"
| "put_json (JNumber (NegInt i)) = ''m'' @ put_int i"
| "put_json (JNumber (Float m e)) = ''d'' @ put_int m @ put_int e"
| "put_json (JString s) = ''s'' @ put_str s"
| "put_json (JArray vs) = ''['' @ put_nat (length vs) @ concat (map put_json vs)"
| "put_json (JObject m) = ''{'' @ put_nat (length m) @ concat (map (\<lambda>(k, v). put_str k @ put_json v) m)"

definition take_nat :: "string \<Rightarrow> (nat \<times> string) option" where
  "take_nat s = map_option (\<lambda>(ds, r). (digits_val 0 ds, r)) (split_once (CHR '':'') s)"

definition take_int :: "string \<Rightarrow> (int \<times> string) option" where
  "take_int s =
     (case s of [] \<Rightarrow> None
      | c # r \<Rightarrow> map_option (\<lambda>(n, q). (if c = CHR ''-'' then - int n else int n, q)) (take_nat r))"

definition take_str :: "string \<Rightarrow> (string \<times> string) option" where
  "take_str s = map_option (\<lambda>(n, r). (take n r, drop n r)) (take_nat s)"

fun take_many :: "(string \<Rightarrow> ('a \<times> string) option) \<Rightarrow> nat \<Rightarrow> string \<Rightarrow> ('a list \<times> string) option" where
  "take_many f 0 s = Some ([], s)"
| "take_many f (Suc n) s =
     (case f s of None \<Rightarrow> None
      | Some (x, r) \<Rightarrow> map_option (\<lambda>(xs, q). (x # xs, q)) (take_many f n r))"

definition take_entry :: "(string \<Rightarrow> ('a \<times> string) option) \<Rightarrow> string \<Rightarrow> ((string \<times> 'a) \<times> string) option" where
  "take_entry f s =
     (case take_str s of None \<Rightarrow> None | Some (k, r) \<Rightarrow> map_option (\<lambda>(v, q). ((k, v), q)) (f r))"

fun take_json :: "nat \<Rightarrow> string \<Rightarrow> (json \<times> string) option" where
  "take_json 0 s = None"
| "take_json (Suc fuel) s =
     (case s of [] \<Rightarrow> None
      | c # r \<Rightarrow>
          if c = CHR ''n'' then Some (JNull, r)
          else if c = CHR ''t'' then Some (JBool True, r)
          else if c = CHR ''f'' then Some (JBool False, r)
          else if c = CHR ''p'' then map_option (\<lambda>(n, q). (JNumber (PosInt n), q)) (take_nat r)
          else if c = CHR ''m'' then map_option (\<lambda>(i, q). (JNumber (NegInt i), q)) (take_int r)
          else if c = CHR ''d'' then
            (case take_int r of None \<Rightarrow> None
             | Some (m, q) \<Rightarrow> map_option (\<lambda>(e, u). (JNumber (Float m e), u)) (take_int q))
          else if c = CHR ''s'' then map_option (\<lambda>(x, q). (JString x, q)) (take_str r)
          else if c = CHR ''['' then
            (case take_nat r of None \<Rightarrow> None
             | Some (n, q) \<Rightarrow> map_option (\<lambda>(vs, u). (JArray vs, u)) (take_many (take_json fuel) n q))
          else
            (case take_nat r of None \<Rightarrow> None
             | Some (n, q) \<Rightarrow> map_option (\<lambda>(m, u). (JObject m, u)) (take_many (take_entry (take_json fuel)) n q)))"

definition get_json :: "string \<Rightarrow> string + json" where
  "get_json s =
     (case take_json (length s) s of Some (j, []) \<Rightarrow> Inr j | _ \<Rightarrow> Inl ''not JSON'')"

lemma take_put_nat [simp]: "take_nat (put_nat n @ r) = Some (n, r)"
proof -
  have "CHR '':'' \<notin> set (show_nat n)" using show_nat_chars is_digit_props by blast
  then show ?thesis
    using split_once_append [of "CHR '':''" "show_nat n" r] digits_val_show_nat by (simp add: take_nat_def put_nat_def)
qed

lemma take_put_int [simp]: "take_int (put_int i @ r) = Some (i, r)"
  by (simp add: take_int_def put_int_def)

lemma take_put_str [simp]: "take_str (put_str s @ r) = Some (s, r)"
  by (simp add: take_str_def put_str_def)

lemma take_many_concat:
  "(\<And>x r. x \<in> set xs \<Longrightarrow> f (g x @ r) = Some (x, r)) \<Longrightarrow>
   take_many f (length xs) (concat (map g xs) @ r) = Some (xs, r)"
  by (induction xs arbitrary: r) simp_all

lemma length_concat_elem: "x \<in> set xs \<Longrightarrow> length (g x) \<le> length (concat (map g xs))"
  by (induction xs) auto

lemma take_put_json: "length (put_json j) \<le> fuel \<Longrightarrow> take_json fuel (put_json j @ r) = Some (j, r)"
proof (induction fuel arbitrary: j r)
  case 0
  then show ?case by (cases j rule: put_json.cases) (auto split: if_splits)
next
  case (Suc fuel)
  show ?case
  proof (cases j rule: put_json.cases)
    case (7 vs)
    have "take_json fuel (put_json x @ r) = Some (x, r)" if "x \<in> set vs" for x r
      using Suc length_concat_elem [OF that, of put_json] by (simp add: 7 put_nat_def)
    then show ?thesis
      using take_many_concat [of vs "take_json fuel" put_json] by (simp add: 7)
  next
    case (8 m)
    let ?g = "\<lambda>(k, v). put_str k @ put_json v"
    have "take_entry (take_json fuel) (?g x @ r) = Some (x, r)" if "x \<in> set m" for x r
    proof -
      obtain k v where x: "x = (k, v)" by (cases x)
      have "length (put_json v) \<le> fuel"
        using Suc.prems length_concat_elem [OF that, of ?g] by (simp add: 8 x put_nat_def)
      then show ?thesis using Suc.IH by (simp add: x take_entry_def)
    qed
    then show ?thesis
      using take_many_concat [of m "take_entry (take_json fuel)" ?g] by (simp add: 8)
  qed simp_all
qed

lemma get_put_json: "get_json (put_json j) = Inr j"
  using take_put_json [OF order_refl, of j "[]"] by (simp add: get_json_def)

end
