(* ===== verification/Dcp_Holder.thy ===== *)
theory Dcp_Holder
  imports Dcp_Core Json_Text
begin

text \<open>
  What the holder of \<open>Dcp_Core\<close> guarantees over its life: it answers, and looks up the DID of, only a caller it
  minted a still valid token for; the table of tokens stays bounded; and a provider that follows the protocol
  gets its answer.
\<close>

section \<open>The life of a holder\<close>

text \<open>Minting is the only operation that changes the holder; the log lists what was minted.\<close>

inductive holder_run :: "jose \<Rightarrow> holder_identity \<Rightarrow> (string \<times> string \<times> nat) list \<Rightarrow> bool" for E :: jose where
  created: "holder_run E (holder_new E random_key host insecure jws scope) []"
| minted: "holder_run E h log \<Longrightarrow> mint_self_issued_token E provider now swept access_jti jti h = (t1, h') \<Longrightarrow>
    holder_run E h' ((access_jti, provider, now + 300) # log)"

lemma issued_remember:
  "(k, t) \<in> set (issued (remember_issued_capped cap now jti provider exp h)) \<Longrightarrow>
   (k, t) = (jti, \<lparr>it_provider_did = provider, it_exp = exp\<rparr>) \<or> (k, t) \<in> set (issued h)"
  by (auto simp: remember_issued_capped_def Let_def AList.delete_eq dest!: set_update [THEN subsetD]
      split: if_splits option.splits)

lemma issued_were_minted:
  "holder_run E h log \<Longrightarrow> (k, t) \<in> set (issued h) \<Longrightarrow> (k, it_provider_did t, it_exp t) \<in> set log"
  by (induction rule: holder_run.induct)
    (auto simp: holder_new_def mint_self_issued_token_def remember_issued_def dest!: issued_remember)

definition table_ok :: "nat \<Rightarrow> holder_identity \<Rightarrow> bool" where
  "table_ok cap h \<longleftrightarrow> length (issued h) \<le> cap \<and> distinct (map fst (issued h))"

lemma remember_table_ok:
  assumes "table_ok cap h" "0 < cap"
  shows "table_ok cap (remember_issued_capped cap now jti provider exp h)"
proof -
  let ?live = "filter (\<lambda>(k, t). it_exp t > now) (issued h)"
  let ?room = "if length ?live \<ge> cap then (case oldest it_exp ?live of Some k \<Rightarrow> AList.delete k ?live | None \<Rightarrow> ?live) else ?live"
  have d: "distinct (map fst ?live)" using assms by (simp add: table_ok_def distinct_map_filter)
  have live: "length ?live \<le> cap"
    by (rule le_trans [OF length_filter_le]) (use assms in \<open>simp add: table_ok_def\<close>)
  have "length ?room < cap"
  proof (cases "oldest it_exp ?live")
    case None
    then have "?live = []" by (simp only: oldest_None)
    with assms(2) show ?thesis by simp
  next
    case (Some k)
    have "length (AList.delete k ?live) < length ?live" by (rule length_delete_key [OF oldest_key [OF Some]])
    with live Some show ?thesis by (auto simp del: AList.delete_conv)
  qed
  moreover have "distinct (map fst ?room)" using d by (auto simp: AList.distinct_delete split: option.split)
  ultimately show ?thesis
    by (simp add: remember_issued_capped_def Let_def table_ok_def length_update distinct_update)
qed

text \<open>
  However many tokens a holder mints, its table of outstanding ones holds at most ten thousand, one per
  token.
\<close>

theorem issued_tokens_bounded:
  assumes "holder_run E h log"
  shows "length (issued h) \<le> MAX_ISSUED_TOKENS \<and> distinct (map fst (issued h))"
proof -
  have "table_ok MAX_ISSUED_TOKENS h"
    using assms
  proof (induction rule: holder_run.induct)
    case (minted h log provider now swept access_jti jti t1 h')
    then have "h' = remember_issued swept access_jti provider (now + 300) h"
      by (simp add: mint_self_issued_token_def)
    then show ?case using remember_table_ok minted.IH by (simp add: remember_issued_def MAX_ISSUED_TOKENS_def)
  qed (simp add: table_ok_def holder_new_def)
  then show ?thesis by (simp add: table_ok_def)
qed

section \<open>Whom the holder answers\<close>

definition call_minted :: "jose \<Rightarrow> (string \<times> string \<times> nat) list \<Rightarrow> nat \<Rightarrow> holder_identity \<Rightarrow> string \<Rightarrow> string \<Rightarrow> string \<Rightarrow> bool" where
  "call_minted E log now h token caller nonce \<longleftrightarrow>
     (\<exists>input header payload nested nested_input nested_header nested_payload exp.
        decode_jws_unverified E token = Inr (input, header, payload) \<and> get_str payload ''iss'' = Some caller \<and>
        get_str payload ''token'' = Some nested \<and>
        decode_jws_unverified E nested = Inr (nested_input, nested_header, nested_payload) \<and>
        get_str nested_payload ''jti'' = Some nonce \<and>
        verify_jws_signature E nested (public_key_of E (signing_key_bytes (key_pair h))) = Inr () \<and>
        (nonce, caller, exp) \<in> set log \<and> now < exp)"

lemma bound_call_minted:
  assumes "holder_run E h log" "bound_call E now h token = Inr (caller, kid, nonce, payload)"
  shows "call_minted E log now h token caller nonce \<and>
    (\<exists>input header. decode_jws_unverified E token = Inr (input, header, payload) \<and> get_str header ''kid'' = Some kid)"
proof -
  from assms(2) obtain input header nested nested_input nested_header nested_payload where d:
    "decode_jws_unverified E token = Inr (input, header, payload)" "get_str payload ''iss'' = Some caller"
    "get_str header ''kid'' = Some kid" "get_str payload ''token'' = Some nested"
    "decode_jws_unverified E nested = Inr (nested_input, nested_header, nested_payload)"
    "get_str nested_payload ''jti'' = Some nonce" "issued_to now nonce h = Some caller"
    "verify_jws_signature E nested (public_key_of E (signing_key_bytes (key_pair h))) = Inr ()"
    by (auto simp: bound_call_def result_simps split: if_splits)
  then obtain t where t: "map_of (issued h) nonce = Some t" "now < it_exp t" "caller = it_provider_did t"
    by (auto simp: issued_to_def split: option.splits if_splits)
  then have "(nonce, caller, it_exp t) \<in> set log"
    using issued_were_minted [OF assms(1)] by (auto dest: map_of_SomeD)
  then show ?thesis using d t(2) unfolding call_minted_def by blast
qed

definition presentation_due ::
    "jose \<Rightarrow> (string \<Rightarrow> http_reply) \<Rightarrow> nat \<Rightarrow> holder_identity \<Rightarrow> string \<Rightarrow> string \<Rightarrow> bool" where
  "presentation_due E get t_exp h token caller \<longleftrightarrow>
     (\<exists>doc kid key input header payload n.
        decode_jws_unverified E token = Inr (input, header, payload) \<and> get_str header ''kid'' = Some kid \<and>
        fst (resolve_did E get caller (insecure_http h)) = Inr doc \<and> find_verifying_key E doc kid = Inr key \<and>
        verify_jws_signature E token key = Inr () \<and>
        (case get_str payload ''aud'' of Some a \<Rightarrow> a | None \<Rightarrow> []) = own_did (key_pair h) \<and>
        Option.bind (jget payload ''exp'') as_u64 = Some n \<and> t_exp < n)"

text \<open>
  Claim C18. A caller the holder did not mint a token for learns nothing and makes it contact nobody: any request for a
  DID document, and any answer, is for a token of its own minted for that very caller, still valid, with its own
  signature on it; every URL requested is https or on loopback; and an answer is one presentation for that caller
  and token, given only to a token addressed to the holder, unexpired, and signed with a key of the caller's DID
  document.
\<close>

theorem only_minted_callers_answered:
  assumes "holder_run E h log"
    "answer_presentation_query E get (t_issued, t_exp, now) jti h token = (r, requested)"
  shows "(requested \<noteq> [] \<or> isl r = False \<longrightarrow> (\<exists>caller nonce. call_minted E log t_issued h token caller nonce)) \<and>
    list_all did_url_allowed requested \<and>
    (\<forall>ps. r = Inr ps \<longrightarrow>
      (\<exists>caller nonce. call_minted E log t_issued h token caller nonce \<and> presentation_due E get t_exp h token caller \<and>
         ps = [presentation_jws E h caller nonce now jti]))"
proof (cases "bound_call E t_issued h token")
  case (Inl e)
  then show ?thesis using assms(2) by (auto simp: answer_presentation_query_def)
next
  case (Inr x)
  obtain caller kid nonce payload where x: "x = (caller, kid, nonce, payload)" by (cases x)
  obtain resolved reqs where res: "resolve_did E get caller (insecure_http h) = (resolved, reqs)" by fastforce
  have urls: "list_all did_url_allowed reqs"
    using res by (auto simp: resolve_did_def split: sum.splits if_splits)
  have m: "call_minted E log t_issued h token caller nonce"
    "\<exists>input header. decode_jws_unverified E token = Inr (input, header, payload) \<and> get_str header ''kid'' = Some kid"
    using bound_call_minted [OF assms(1)] Inr x by blast+
  have r: "requested = reqs" "r = rbind resolved (\<lambda>caller_doc. rbind (find_verifying_key E caller_doc kid) (\<lambda>caller_key.
      rbind (verify_jws_signature E token caller_key) (\<lambda>_.
        let aud = (case get_str payload ''aud'' of Some a \<Rightarrow> a | None \<Rightarrow> []);
            exp = (case Option.bind (jget payload ''exp'') as_u64 of Some n \<Rightarrow> n | None \<Rightarrow> 0)
        in if aud \<noteq> own_did (key_pair h) then Inl (WrongAudience aud)
           else if exp \<le> t_exp then Inl TokenExpired else Inr [presentation_jws E h caller nonce now jti])))"
    using assms(2) Inr x res by (simp_all add: answer_presentation_query_def)
  have due: "presentation_due E get t_exp h token caller \<and> ps = [presentation_jws E h caller nonce now jti]"
    if "r = Inr ps" for ps
  proof -
    from that obtain doc key n where "resolved = Inr doc" "find_verifying_key E doc kid = Inr key"
      "verify_jws_signature E token key = Inr ()"
      "(case get_str payload ''aud'' of Some a \<Rightarrow> a | None \<Rightarrow> []) = own_did (key_pair h)"
      "Option.bind (jget payload ''exp'') as_u64 = Some n" "t_exp < n" "ps = [presentation_jws E h caller nonce now jti]"
      unfolding r(2) by (auto simp: result_simps Let_def split: if_splits option.splits)
    moreover have "fst (resolve_did E get caller (insecure_http h)) = resolved" using res by simp
    ultimately show ?thesis using m(2) unfolding presentation_due_def by blast
  qed
  show ?thesis
    using m(1) urls r(1) due by blast
qed

section \<open>A provider that follows the protocol\<close>

text \<open>The documented behaviour of the libraries: each decoder undoes its encoder, and a signature verifies.\<close>

definition jose_ok :: "jose \<Rightarrow> bool" where
  "jose_ok E \<longleftrightarrow>
     (\<forall>b. b64_decode E (b64_encode E b) = Inr b) \<and> (\<forall>b. CHR ''.'' \<notin> set (b64_encode E b)) \<and>
     (\<forall>j. json_read E (json_print E j) = Inr j) \<and>
     (\<forall>k m. signature_form E (sig_sign E k m) \<and> sig_verify E (public_key_of E k) m (sig_sign E k m)) \<and>
     (\<forall>k. length (fst (public_key_of E k)) = 32 \<and> length (snd (public_key_of E k)) = 32 \<and>
        ec_point_valid E (public_key_of E k))"

lemma split_jws:
  "CHR ''.'' \<notin> set a \<Longrightarrow> CHR ''.'' \<notin> set b \<Longrightarrow> CHR ''.'' \<notin> set c \<Longrightarrow>
   split_on (CHR ''.'') (a @ ''.'' @ b @ ''.'' @ c) = [a, b, c]"
  by (simp add: split_on_append split_on_no_sep)

lemma decode_sign:
  assumes "jose_ok E"
  shows "\<exists>input. decode_jws_unverified E (sign_jws E payload k kid) =
    Inr (input, JObject [(''alg'', JString ''ES256''), (''kid'', JString kid)], payload)"
  using assms split_jws [of "b64_encode E (json_print E (JObject [(''alg'', JString ''ES256''), (''kid'', JString kid)]))"
      "b64_encode E (json_print E payload)"]
  by (simp add: jose_ok_def decode_jws_unverified_def sign_jws_def Let_def)

lemma verify_sign:
  assumes "jose_ok E"
  shows "verify_jws_signature E (sign_jws E payload k kid) (public_key_of E k) = Inr ()"
  using assms split_jws [of "b64_encode E (json_print E (JObject [(''alg'', JString ''ES256''), (''kid'', JString kid)]))"
      "b64_encode E (json_print E payload)"]
  by (simp add: jose_ok_def verify_jws_signature_def sign_jws_def Let_def)

lemma find_published_key:
  assumes "jose_ok E" "find (\<lambda>m. vm_id m = kid) (verification_methods doc) = Some m"
    "public_key_jwk m = Some \<lparr>jwk_x = b64_encode E (fst (public_key_of E k)), jwk_y = b64_encode E (snd (public_key_of E k))\<rparr>"
  shows "find_verifying_key E doc kid = Inr (public_key_of E k)"
  using assms by (simp add: find_verifying_key_def jwk_to_verifying_key_def jose_ok_def)

lemma resolve_published:
  assumes "did_web_to_url did insecure = Inr url" "did_url_allowed url" "get url = Reply 200 None [Inr body]"
    "length body \<le> MAX_DID_DOCUMENT_BYTES" "did_doc_read E body = Inr doc"
  shows "resolve_did E get did insecure = (Inr doc, [url])"
  using assms by (simp add: resolve_did_def is_success_def read_body_limited_def)

lemma minted_call_completes:
  assumes "jose_ok E" "mint_self_issued_token E provider now swept access_jti t1_jti h = (t1, h')"
    "did_web_to_url provider (insecure_http h) = Inr url" "did_url_allowed url" "get url = Reply 200 None [Inr body]"
    "length body \<le> MAX_DID_DOCUMENT_BYTES" "did_doc_read E body = Inr doc"
    "find (\<lambda>m. vm_id m = kid) (verification_methods doc) = Some m"
    "public_key_jwk m = Some \<lparr>jwk_x = b64_encode E (fst (public_key_of E k)), jwk_y = b64_encode E (snd (public_key_of E k))\<rparr>"
    "t_issued < now + 300" "t_exp < n"
  shows "\<exists>input header payload t2. decode_jws_unverified E t1 = Inr (input, header, payload) \<and>
    get_str payload ''aud'' = Some provider \<and> get_str payload ''token'' = Some t2 \<and>
    answer_presentation_query E get (t_issued, t_exp, t) jti h'
      (sign_jws E (JObject [(''aud'', JString (own_did (key_pair h))), (''exp'', JNumber (PosInt n)),
         (''iss'', JString provider), (''token'', JString t2)]) k kid)
    = (Inr [presentation_jws E h' provider access_jti t jti], [url])"
proof -
  let ?t2 = "access_token E h now access_jti"
  let ?t3 = "sign_jws E (JObject [(''aud'', JString (own_did (key_pair h))), (''exp'', JNumber (PosInt n)),
         (''iss'', JString provider), (''token'', JString ?t2)]) k kid"
  have h': "h' = remember_issued swept access_jti provider (now + 300) h"
    using assms(2) by (simp add: mint_self_issued_token_def)
  then have keep: "key_pair h' = key_pair h" "insecure_http h' = insecure_http h"
    by (simp_all add: remember_issued_def remember_issued_capped_def Let_def)
  have issued: "issued_to t_issued access_jti h' = Some provider"
    using assms(10) unfolding h' remember_issued_def remember_issued_capped_def Let_def issued_to_def
    by (simp add: update_conv)
  have nested: "\<exists>i hd p. decode_jws_unverified E ?t2 = Inr (i, hd, p) \<and> get_str p ''jti'' = Some access_jti"
    using decode_sign [OF assms(1)] unfolding access_token_def by (force simp: get_str_def)
  have own: "verify_jws_signature E ?t2 (public_key_of E (signing_key_bytes (key_pair h'))) = Inr ()"
    using verify_sign [OF assms(1)] unfolding access_token_def keep by blast
  obtain inp where t3: "decode_jws_unverified E ?t3 = Inr (inp, JObject [(''alg'', JString ''ES256''), (''kid'', JString kid)],
      JObject [(''aud'', JString (own_did (key_pair h))), (''exp'', JNumber (PosInt n)),
         (''iss'', JString provider), (''token'', JString ?t2)])"
    using decode_sign [OF assms(1)] by blast
  have bound: "bound_call E t_issued h' ?t3 = Inr (provider, kid, access_jti,
      JObject [(''aud'', JString (own_did (key_pair h))), (''exp'', JNumber (PosInt n)),
         (''iss'', JString provider), (''token'', JString ?t2)])"
    using nested own issued unfolding bound_call_def t3 by (auto simp: get_str_def)
  have answer: "answer_presentation_query E get (t_issued, t_exp, t) jti h' ?t3
      = (Inr [presentation_jws E h' provider access_jti t jti], [url])"
    using bound resolve_published [where get = get, OF assms(3-7)] find_published_key [OF assms(1,8,9)] verify_sign [OF assms(1)] assms(11)
    by (simp add: answer_presentation_query_def keep get_str_def)
  have "\<exists>input header payload. decode_jws_unverified E t1 = Inr (input, header, payload) \<and>
      get_str payload ''aud'' = Some provider \<and> get_str payload ''token'' = Some ?t2"
    using decode_sign [OF assms(1)] assms(2) by (force simp: mint_self_issued_token_def get_str_def)
  then show ?thesis using answer by blast
qed


section \<open>Examples\<close>

text \<open>
  Libraries with the documented behaviour: a byte as two letters for base64url, JSON as in \<open>Json_Text\<close>, and a
  signature that repeats its message.
\<close>

definition put_nibbles :: "string \<Rightarrow> string" where
  "put_nibbles s = concat (map (\<lambda>c. [char_of ((of_char c :: nat) div 16 + 65), char_of ((of_char c :: nat) mod 16 + 65)]) s)"

fun take_nibbles :: "string \<Rightarrow> string + string" where
  "take_nibbles [] = Inr []"
| "take_nibbles [c] = Inl ''odd length''"
| "take_nibbles (a # b # s) =
     rbind (take_nibbles s) (\<lambda>r. Inr (char_of (16 * (of_char a - 65) + (of_char b - 65 :: nat)) # r))"

lemma take_put_nibbles: "take_nibbles (put_nibbles s) = Inr s"
proof (induction s)
  case (Cons c s)
  have d: "(of_char c :: nat) div 16 < 16" "(of_char c :: nat) mod 16 < 16" using byte_nibbles [of c] by auto
  have "of_char (char_of (n + 65) :: char) = n + (65 :: nat)" if "n < 16" for n :: nat
    using that by simp
  then have "(of_char (char_of ((of_char c :: nat) div 16 + 65) :: char) :: nat) = of_char c div 16 + 65"
    "(of_char (char_of ((of_char c :: nat) mod 16 + 65) :: char) :: nat) = of_char c mod 16 + 65"
    using d by blast+
  then show ?case using Cons by (simp add: put_nibbles_def)
qed (simp add: put_nibbles_def)

lemma put_nibbles_no_dot: "CHR ''.'' \<notin> set (put_nibbles s)"
proof -
  have "CHR ''.'' \<noteq> char_of (n + 65)" if "n < 16" for n :: nat
  proof
    assume "CHR ''.'' = char_of (n + 65)"
    then have "(of_char (CHR ''.'') :: nat) = of_char (char_of (n + 65) :: char)" by simp
    then show False using that by simp
  qed
  then show ?thesis using byte_nibbles by (auto simp: put_nibbles_def)
qed

definition sample_public_key :: public_key where
  "sample_public_key = (replicate 32 CHR ''x'', replicate 32 CHR ''y'')"

definition sample_doc :: did_doc where
  "sample_doc = \<lparr>verification_methods = [\<lparr>vm_id = ''did:web:p#k'', public_key_jwk =
      Some \<lparr>jwk_x = put_nibbles (fst sample_public_key), jwk_y = put_nibbles (snd sample_public_key)\<rparr>\<rparr>], doc_services = []\<rparr>"

definition sample_jose :: jose where
  "sample_jose = \<lparr>b64_encode = put_nibbles, b64_decode = take_nibbles, json_print = put_json, json_read = get_json,
     did_doc_read = (\<lambda>body. if body = ''doc'' then Inr sample_doc else Inl ''invalid''),
     ec_point_valid = (\<lambda>_. True), signature_form = (\<lambda>_. True), sig_verify = (\<lambda>k m s. s = m), sig_sign = (\<lambda>k m. m),
     public_key_of = (\<lambda>_. sample_public_key)\<rparr>"

lemma sample_jose_ok: "jose_ok sample_jose"
  by (simp add: jose_ok_def sample_jose_def take_put_nibbles put_nibbles_no_dot get_put_json sample_public_key_def)

definition sample_holder :: holder_identity where
  "sample_holder = holder_new sample_jose ''key'' ''h:80'' False ''vc'' ''scope''"

definition sample_minted :: "string \<times> holder_identity" where
  "sample_minted = mint_self_issued_token sample_jose ''did:web:p'' 1000 1000 ''j2'' ''j1'' sample_holder"

lemma sample_mint:
  "mint_self_issued_token sample_jose ''did:web:p'' 1000 1000 ''j2'' ''j1'' sample_holder = (fst sample_minted, snd sample_minted)"
  by (simp add: sample_minted_def)

lemma sample_holder_run: "holder_run sample_jose (snd sample_minted) [(''j2'', ''did:web:p'', 1300)]"
proof -
  have "holder_run sample_jose sample_holder []" by (simp add: sample_holder_def created)
  from minted [OF this sample_mint] show ?thesis by simp
qed

theorem issued_tokens_bounded_witness:
  "length (issued (snd sample_minted)) \<le> MAX_ISSUED_TOKENS \<and> distinct (map fst (issued (snd sample_minted)))"
  by (rule issued_tokens_bounded [OF sample_holder_run])

definition sample_get :: "string \<Rightarrow> http_reply" where
  "sample_get url = (if url = ''https://p/.well-known/did.json'' then Reply 200 None [Inr ''doc''] else Reply 404 None [])"

lemma sample_url: "did_web_to_url ''did:web:p'' False = Inr ''https://p/.well-known/did.json''"
  by (simp add: did_web_to_url_def strip_prefix_def urlencoding_decode_def)

lemma sample_call:
  "did_web_to_url ''did:web:p'' (insecure_http sample_holder) = Inr ''https://p/.well-known/did.json''"
  "did_url_allowed ''https://p/.well-known/did.json''"
  "sample_get ''https://p/.well-known/did.json'' = Reply 200 None [Inr ''doc'']"
  "length ''doc'' \<le> MAX_DID_DOCUMENT_BYTES" "did_doc_read sample_jose ''doc'' = Inr sample_doc"
  "find (\<lambda>m. vm_id m = ''did:web:p#k'') (verification_methods sample_doc) = Some (hd (verification_methods sample_doc))"
  "public_key_jwk (hd (verification_methods sample_doc)) =
     Some \<lparr>jwk_x = b64_encode sample_jose (fst (public_key_of sample_jose ''k'')),
           jwk_y = b64_encode sample_jose (snd (public_key_of sample_jose ''k''))\<rparr>"
  by (simp_all add: sample_url sample_holder_def holder_new_def sample_jose_def MAX_DID_DOCUMENT_BYTES_def
      did_url_allowed_def sample_get_def sample_doc_def)

definition sample_t3 :: "string \<Rightarrow> string" where
  "sample_t3 t2 = sign_jws sample_jose (JObject [(''aud'', JString (own_did (key_pair sample_holder))),
     (''exp'', JNumber (PosInt 1500)), (''iss'', JString ''did:web:p''), (''token'', JString t2)]) ''k'' ''did:web:p#k''"


theorem only_minted_callers_answered_witness:
  "\<exists>t2 caller nonce. call_minted sample_jose [(''j2'', ''did:web:p'', 1300)] 1200 (snd sample_minted) (sample_t3 t2) caller nonce \<and>
     presentation_due sample_jose sample_get 1201 (snd sample_minted) (sample_t3 t2) caller"
proof -
  obtain t2 where "answer_presentation_query sample_jose sample_get (1200, 1201, 1202) ''j4'' (snd sample_minted) (sample_t3 t2)
     = (Inr [presentation_jws sample_jose (snd sample_minted) ''did:web:p'' ''j2'' 1202 ''j4''],
        [''https://p/.well-known/did.json''])"
    using minted_call_completes [where get = sample_get, OF sample_jose_ok sample_mint sample_call,
      of 1200 1201 1500 1202 "''j4''"] by (auto simp: sample_t3_def)
  from only_minted_callers_answered [OF sample_holder_run this] show ?thesis by blast
qed

end
