(* ===== verification/Routes.thy ===== *)
theory Routes
  imports Catalog_Offers Oauth2 Harvester Dcp_Holder
begin

text \<open>
  The HTTP routes of \<open>crates/ds-catalog-broker-rs/src/routes\<close> over the shared state of \<open>state.rs\<close>: the bearer gate, the
  catalog, SPARQL and management surfaces, the holder's call-back routes and the probes.

  A header map is a function from lower-case names to the bytes of the first value. What a handler takes from
  outside is the record \<open>environment\<close>: the parameters of the components, the host's date, and the text forms of a
  time and of a crawl error. A body keeps the value that is rendered, and one constructor per message.
\<close>

section \<open>Shared state\<close>

record sparql_limits_config =
  sparql_timeout :: nat
  sparql_max_rows :: nat
  max_concurrent :: nat

definition sparql_limits_config_default :: sparql_limits_config where
  "sparql_limits_config_default = \<lparr>sparql_timeout = 10 * 1000, sparql_max_rows = 10000, max_concurrent = 4\<rparr>"

record 'k app_state =
  app_holder :: "holder_identity option"
  app_oauth2 :: "'k oauth2_verifier option"
  policy_filter :: policy_filter_config
  sparql_limits :: sparql_limits_config
  sparql_slots :: nat
  app_crawl_status :: "crawl_status option"
  crawl_needs_holder_callbacks :: bool
  shutdown :: bool

text \<open>\<open>max_permits\<close> is the semaphore's own bound.\<close>

definition app_state_new :: "'k app_state" where
  "app_state_new = \<lparr>app_holder = None, app_oauth2 = None, policy_filter = policy_filter_config_default,
     sparql_limits = sparql_limits_config_default, sparql_slots = max_concurrent sparql_limits_config_default,
     app_crawl_status = None, crawl_needs_holder_callbacks = False, shutdown = False\<rparr>"

definition with_sparql_limits :: "nat \<Rightarrow> sparql_limits_config \<Rightarrow> 'k app_state \<Rightarrow> 'k app_state" where
  "with_sparql_limits max_permits limits S =
     S\<lparr>sparql_slots := min (max_concurrent limits) max_permits, sparql_limits := limits\<rparr>"

record 'k environment =
  env_codec :: codec
  env_engine :: engine
  env_jwt :: "'k jwt_library"
  env_jose :: jose
  env_parser :: sparql_parser
  env_key_print :: "claims \<Rightarrow> string"
  env_date :: string
  env_body :: "string \<Rightarrow> request_body option"
  env_rfc3339 :: "nat \<Rightarrow> string"
  env_error_text :: "crawl_error \<Rightarrow> string"

section \<open>Responses\<close>

datatype message =
    Fixed string
  | MissingScope string
  | StoreFailure store_error
  | SparqlFailure sparql_error
  | EndpointBusy nat
  | TimeLimit nat

datatype body =
    NoBody
  | PlainText message
  | ErrorJson message
  | JsonBody json
  | CatalogList "catalog list"
  | SparqlResults results_json
  | Presentation "string list"

record response =
  status :: nat
  headers :: "(string \<times> string) list"
  content :: body

definition respond :: "nat \<Rightarrow> body \<Rightarrow> response" where
  "respond code b = \<lparr>status = code, headers = [], content = b\<rparr>"

definition internal_error :: "message \<Rightarrow> response" where
  "internal_error m = respond 500 (ErrorJson m)"

lemma status_respond [simp]: "status (respond code b) = code" "content (respond code b) = b"
  by (simp_all add: respond_def)

section \<open>The bearer gate\<close>

type_synonym header_map = "string \<Rightarrow> string option"

text \<open>\<open>HeaderValue::to_str\<close>: visible ASCII and tabs.\<close>

definition to_str :: "string \<Rightarrow> string option" where
  "to_str v = (if list_all (\<lambda>c. let n = of_char c :: nat in 32 \<le> n \<and> n < 127 \<or> n = 9) v then Some v else None)"

definition bearer_token :: "header_map \<Rightarrow> string option" where
  "bearer_token hs =
     Option.bind (Option.bind (hs ''authorization'') to_str) (\<lambda>v.
     Option.bind (split_once (CHR '' '') v) (\<lambda>(scheme, token).
       if \<not> eq_ignore_ascii_case scheme ''Bearer'' then None
       else if trim token = [] then None else Some (trim token)))"

definition unauthorized_bearer_response :: response where
  "unauthorized_bearer_response =
     \<lparr>status = 401, headers = [(''www-authenticate'', ''Bearer'')], content = ErrorJson (Fixed ''missing or invalid bearer token'')\<rparr>"

definition check_oauth2_bearer :: "'k environment \<Rightarrow> 'k app_state \<Rightarrow> header_map \<Rightarrow> response + json option" where
  "check_oauth2_bearer E S hs =
     (case app_oauth2 S of
        None \<Rightarrow> Inr None
      | Some verifier \<Rightarrow>
          (case bearer_token hs of
             None \<Rightarrow> Inl unauthorized_bearer_response
           | Some token \<Rightarrow>
               (case verify (env_jwt E) verifier token of
                  Inr claims \<Rightarrow> Inr (Some claims)
                | Inl (InsufficientScope scope) \<Rightarrow> Inl (respond 403 (ErrorJson (MissingScope scope)))
                | Inl err \<Rightarrow> Inl unauthorized_bearer_response)))"

section \<open>The catalog surfaces\<close>

text \<open>\<open>joined\<close> is false when the task on the blocking pool panicked.\<close>

definition render_visible_catalogs ::
    "'k environment \<Rightarrow> 'k app_state \<Rightarrow> bool \<Rightarrow> rdf_db \<Rightarrow> catalog_query \<Rightarrow> json option \<Rightarrow> service_filtering \<Rightarrow>
     (catalog list \<Rightarrow> response) \<Rightarrow> response" where
  "render_visible_catalogs E S joined db query claims services render =
     (if \<not> joined then internal_error (Fixed ''serving the catalogs failed'')
      else case visible_catalogs (env_codec E) (env_engine E) (env_date E) claims (app_oauth2 S \<noteq> None) (policy_filter S)
             services query db of
        Inr cs \<Rightarrow> render cs
      | Inl err \<Rightarrow> internal_error (StoreFailure err))"

definition get_catalog ::
    "'k environment \<Rightarrow> 'k app_state \<Rightarrow> bool \<Rightarrow> rdf_db \<Rightarrow> header_map \<Rightarrow> string option \<Rightarrow> response" where
  "get_catalog E S joined db hs node_id =
     (case check_oauth2_bearer E S hs of
        Inl r \<Rightarrow> r
      | Inr claims \<Rightarrow>
          render_visible_catalogs E S joined db
            (case node_id of Some n \<Rightarrow> query_for_node n | None \<Rightarrow> query_all)
            claims HideGatedOnly (\<lambda>cs. respond 200 (CatalogList cs)))"

definition catalog_request_route ::
    "'k environment \<Rightarrow> 'k app_state \<Rightarrow> bool \<Rightarrow> rdf_db \<Rightarrow> header_map \<Rightarrow> string \<Rightarrow> response" where
  "catalog_request_route E S joined db hs body =
     (case check_oauth2_bearer E S hs of
        Inl r \<Rightarrow> r
      | Inr claims \<Rightarrow>
          render_visible_catalogs E S joined db query_all claims KeepAll
            (\<lambda>cs. respond 200 (JsonBody (render_offers (env_body E) cs body))))"

section \<open>The SPARQL surface\<close>

definition SPARQL_RESULTS_JSON :: string where
  "SPARQL_RESULTS_JSON = ''application/sparql-results+json''"

definition accepts_sparql_results_json :: "header_map \<Rightarrow> bool" where
  "accepts_sparql_results_json hs =
     (case Option.bind (hs ''accept'') to_str of
        None \<Rightarrow> True
      | Some accept \<Rightarrow>
          list_ex (\<lambda>range. trim (hd (split_on (CHR '';'') range))
              \<in> {SPARQL_RESULTS_JSON, ''application/json'', ''*/*'', ''application/*''})
            (split_on (CHR '','') accept))"

text \<open>
  The handler up to the moment the evaluation is handed to the blocking pool: a response, or the caller's claims and
  the query with one slot taken.
\<close>

definition sparql_admit ::
    "'k environment \<Rightarrow> 'k app_state \<Rightarrow> header_map \<Rightarrow> string option \<Rightarrow> (response + json option \<times> string) \<times> 'k app_state" where
  "sparql_admit E S hs query =
     (case check_oauth2_bearer E S hs of
        Inl r \<Rightarrow> (Inl r, S)
      | Inr claims \<Rightarrow>
          if \<not> accepts_sparql_results_json hs
          then (Inl (respond 406 (PlainText (Fixed (''this endpoint only produces '' @ SPARQL_RESULTS_JSON)))), S)
          else (case (case query of Some q \<Rightarrow> if trim q = [] then None else Some q | None \<Rightarrow> None) of
            None \<Rightarrow> (Inl (respond 400 (PlainText (Fixed ''missing required 'query' parameter''))), S)
          | Some q \<Rightarrow>
              (case check_sparql (env_parser E) q of
                 Inl err \<Rightarrow> (Inl (respond 400 (PlainText (SparqlFailure err))), S)
               | Inr _ \<Rightarrow>
                   if sparql_slots S = 0
                   then (Inl (respond 503 (PlainText (EndpointBusy (max_concurrent (sparql_limits S))))), S)
                   else (Inr (claims, q), S\<lparr>sparql_slots := sparql_slots S - 1\<rparr>))))"

text \<open>The slot is dropped when the evaluation itself ends, whatever became of its request.\<close>

definition evaluation_ends :: "'k app_state \<Rightarrow> 'k app_state" where
  "evaluation_ends S = S\<lparr>sparql_slots := Suc (sparql_slots S)\<rparr>"

definition allow_callback ::
    "'k environment \<Rightarrow> 'k app_state \<Rightarrow> json option \<Rightarrow> (nat \<Rightarrow> bool) \<Rightarrow> nat \<Rightarrow> catalog \<Rightarrow> string set" where
  "allow_callback E S claims stop t c =
     visible_resource_iris (env_codec E) (env_engine E) (engine_claims_from_bearer (env_date E) claims) (policy_filter S)
       (\<lambda>_. stop t) c"

definition evaluate_sparql ::
    "'k environment \<Rightarrow> 'k app_state \<Rightarrow> world \<Rightarrow> json option \<Rightarrow> string \<Rightarrow> sparql_limits \<Rightarrow> nat \<Rightarrow> list_caches \<Rightarrow>
     ((sparql_error + results_json) \<times> nat \<times> list_caches) option" where
  "evaluate_sparql E S W claims query L t cs =
     (if cancelled L t then Some (Inl Cancelled, t, cs)
      else if should_filter_by_policy (app_oauth2 S \<noteq> None) (policy_filter S) then
        sparql_query_json_policy_filtered (env_parser E) (env_codec E) W query (allow_list_key (env_key_print E) claims)
          (\<lambda>_. allow_callback E S claims (cancelled L)) L (Suc t) cs
      else (case sparql_query_json_limited (env_parser E) W query None L (Suc t) of (r, t') \<Rightarrow> Some (r, t', cs)))"

fun error_response :: "sparql_error \<Rightarrow> nat \<Rightarrow> response" where
  "error_response (SparqlStore e) timeout = internal_error (Fixed ''SPARQL evaluation failed'')"
| "error_response StoreBusy timeout = respond 503 (PlainText (SparqlFailure StoreBusy))"
| "error_response Cancelled timeout = respond 503 (PlainText (TimeLimit timeout))"
| "error_response (Serialize e) timeout = respond 500 (PlainText (SparqlFailure (Serialize e)))"
| "error_response (SparqlParse e) timeout = respond 400 (PlainText (SparqlFailure (SparqlParse e)))"
| "error_response (SparqlEvaluation e) timeout = respond 400 (PlainText (SparqlFailure (SparqlEvaluation e)))"
| "error_response UnsupportedGraphResult timeout = respond 400 (PlainText (SparqlFailure UnsupportedGraphResult))"
| "error_response (TooManyRows n) timeout = respond 400 (PlainText (SparqlFailure (TooManyRows n)))"

text \<open>What the request waited for: the evaluation, its panic, the timeout or the drain signal.\<close>

datatype finished = Evaluated "sparql_error + results_json" | Panicked | Elapsed | Draining

fun sparql_answer :: "sparql_limits_config \<Rightarrow> finished \<Rightarrow> response" where
  "sparql_answer limits (Evaluated (Inr results)) =
     \<lparr>status = 200, headers = [(''content-type'', SPARQL_RESULTS_JSON)], content = SparqlResults results\<rparr>"
| "sparql_answer limits (Evaluated (Inl err)) = error_response err (sparql_timeout limits)"
| "sparql_answer limits Panicked = internal_error (Fixed ''SPARQL evaluation failed'')"
| "sparql_answer limits Elapsed = error_response Cancelled (sparql_timeout limits)"
| "sparql_answer limits Draining =
     respond 503 (PlainText (Fixed ''the broker is shutting down; the SPARQL query was stopped''))"

definition sparql_route ::
    "'k environment \<Rightarrow> 'k app_state \<Rightarrow> header_map \<Rightarrow> string option \<Rightarrow> (json option \<Rightarrow> string \<Rightarrow> finished) \<Rightarrow> response \<times> 'k app_state" where
  "sparql_route E S hs query wait =
     (case sparql_admit E S hs query of
        (Inl r, S') \<Rightarrow> (r, S')
      | (Inr (claims, q), S') \<Rightarrow> (sparql_answer (sparql_limits S) (wait claims q), S'))"

section \<open>The holder's routes\<close>

definition holder_did_document_route :: "'k environment \<Rightarrow> 'k app_state \<Rightarrow> response" where
  "holder_did_document_route E S =
     (case app_holder S of
        Some holder \<Rightarrow> respond 200 (JsonBody (own_did_document (env_jose E) holder))
      | None \<Rightarrow> respond 404 NoBody)"

definition holder_presentation_query_route ::
    "'k environment \<Rightarrow> 'k app_state \<Rightarrow> (string \<Rightarrow> http_reply) \<Rightarrow> nat \<times> nat \<times> nat \<Rightarrow> string \<Rightarrow> header_map \<Rightarrow> response" where
  "holder_presentation_query_route E S get clocks jti hs =
     (case app_holder S of
        None \<Rightarrow> respond 404 NoBody
      | Some holder \<Rightarrow>
          (case bearer_token hs of
             None \<Rightarrow> respond 401 NoBody
           | Some token \<Rightarrow>
               (case fst (answer_presentation_query (env_jose E) get clocks jti holder token) of
                  Inr presentation \<Rightarrow> respond 200 (Presentation presentation)
                | Inl err \<Rightarrow> respond 401 NoBody)))"

section \<open>The probes\<close>

definition health :: response where
  "health = respond 200 (JsonBody (JObject [(''status'', JString ''ok'')]))"

definition or_null :: "('a \<Rightarrow> json) \<Rightarrow> 'a option \<Rightarrow> json" where
  "or_null f v = (case v of Some a \<Rightarrow> f a | None \<Rightarrow> JNull)"

definition participant_report :: "'k environment \<Rightarrow> nat \<Rightarrow> string \<times> participant_status \<Rightarrow> json" where
  "participant_report E now p =
     JObject [(''id'', JString (fst p)),
       (''last_attempt'', or_null (\<lambda>at. JString (env_rfc3339 E at)) (last_attempt (snd p))),
       (''last_success'', or_null (\<lambda>at. JString (env_rfc3339 E at)) (last_success (snd p))),
       (''last_error'', or_null (\<lambda>e. JString (env_error_text E e)) (last_error (snd p))),
       (''cached'', JBool (cached (snd p))),
       (''catalog_age_secs'', or_null (\<lambda>at. JNumber (PosInt ((now - at) div 1000)))
          (if cached (snd p) then last_success (snd p) else None))]"

definition crawler_report :: "'k environment \<Rightarrow> crawl_status \<Rightarrow> nat \<Rightarrow> bool \<Rightarrow> json" where
  "crawler_report E st now show_details =
     JObject ([(''cycles_completed'', JNumber (PosInt (unat (cycles_completed st))))] @
       (if show_details
        then [(''participants'', JArray (map (participant_report E now) (status_participants st)))] else []))"

definition ready :: "'k environment \<Rightarrow> 'k app_state \<Rightarrow> nat \<Rightarrow> header_map \<Rightarrow> response" where
  "ready E S now hs =
     (let show_details = (app_oauth2 S = None \<or> (case check_oauth2_bearer E S hs of Inr (Some _) \<Rightarrow> True | _ \<Rightarrow> False));
          snapshot = app_crawl_status S;
          waits_for_first_cycle = (\<not> crawl_needs_holder_callbacks S);
          (code, status) =
            (if shutdown S then (503, ''stopping'')
             else case snapshot of
               Some crawl \<Rightarrow> if cycles_completed crawl = 0 \<and> waits_for_first_cycle then (503, ''starting'') else (200, ''ready'')
             | None \<Rightarrow> (200, ''ready''))
      in respond code (JsonBody (JObject [(''status'', JString status),
           (''crawler'', or_null (\<lambda>crawl. crawler_report E crawl now show_details) snapshot)])))"

section \<open>The gate\<close>

lemma gate_closed:
  assumes "app_oauth2 S = Some V" "\<And>token claims. bearer_token hs = Some token \<Longrightarrow> verify (env_jwt E) V token \<noteq> Inr claims"
  shows "\<exists>r. check_oauth2_bearer E S hs = Inl r \<and> status r \<in> {401, 403}"
  using assms
  by (auto simp: check_oauth2_bearer_def unauthorized_bearer_response_def split: option.splits sum.splits verify_error.splits)

text \<open>
  With the gate configured, a caller whose token does not verify, or who has none, learns nothing of the
  catalogs: every catalog surface refuses with 401 or 403 and the same response whatever the store holds, a query
  takes no slot and is not evaluated, and the readiness report is the one for an empty list of participants.
\<close>

theorem gate_hides_everything:
  assumes "app_oauth2 S = Some V" "\<And>token claims. bearer_token hs = Some token \<Longrightarrow> verify (env_jwt E) V token \<noteq> Inr claims"
  shows "\<exists>r. status r \<in> {401, 403} \<and> (\<forall>joined db node_id. get_catalog E S joined db hs node_id = r) \<and>
    (\<forall>joined db request. catalog_request_route E S joined db hs request = r) \<and>
    (\<forall>query wait. sparql_route E S hs query wait = (r, S)) \<and>
    (\<forall>now. ready E S now hs =
       ready E (S\<lparr>app_crawl_status := map_option (\<lambda>c. c\<lparr>status_participants := []\<rparr>) (app_crawl_status S)\<rparr>) now hs)"
proof -
  obtain r where r: "check_oauth2_bearer E S hs = Inl r" "status r \<in> {401, 403}"
    using gate_closed [OF assms] by blast
  have "check_oauth2_bearer E (S\<lparr>app_crawl_status := x\<rparr>) hs = Inl r" for x
    using r(1) by (simp add: check_oauth2_bearer_def)
  then have "ready E S now hs =
      ready E (S\<lparr>app_crawl_status := map_option (\<lambda>c. c\<lparr>status_participants := []\<rparr>) (app_crawl_status S)\<rparr>) now hs" for now
    using assms(1) r(1) by (cases "app_crawl_status S") (simp_all add: ready_def or_null_def crawler_report_def)
  moreover have "\<forall>joined db node_id. get_catalog E S joined db hs node_id = r"
    using r(1) by (simp add: get_catalog_def)
  moreover have "\<forall>joined db request. catalog_request_route E S joined db hs request = r"
    using r(1) by (simp add: catalog_request_route_def)
  moreover have "\<forall>query wait. sparql_route E S hs query wait = (r, S)"
    using r(1) by (simp add: sparql_route_def sparql_admit_def)
  ultimately show ?thesis using r(2) by blast
qed

section \<open>Slots\<close>

text \<open>The life of the endpoint: requests that take a slot or not, and evaluations that end. \<open>n\<close> are running.\<close>

inductive serving :: "'k environment \<Rightarrow> nat \<Rightarrow> sparql_limits_config \<Rightarrow> 'k app_state \<Rightarrow> nat \<Rightarrow> bool"
  for E max_permits limits where
  start: "serving E max_permits limits (with_sparql_limits max_permits limits S) 0"
| admitted: "serving E max_permits limits S n \<Longrightarrow> sparql_admit E S hs query = (Inr x, S') \<Longrightarrow>
     serving E max_permits limits S' (Suc n)"
| refused: "serving E max_permits limits S n \<Longrightarrow> sparql_admit E S hs query = (Inl r, S') \<Longrightarrow>
     serving E max_permits limits S' n"
| ended: "serving E max_permits limits S (Suc n) \<Longrightarrow> serving E max_permits limits (evaluation_ends S) n"

lemma sparql_admit_refused: "sparql_admit E S hs query = (Inl r, S') \<Longrightarrow> S' = S"
  by (auto simp: sparql_admit_def split: sum.splits option.splits if_splits)

lemma sparql_admit_taken:
  "sparql_admit E S hs query = (Inr x, S') \<Longrightarrow> 0 < sparql_slots S \<and> S' = S\<lparr>sparql_slots := sparql_slots S - 1\<rparr>"
  by (auto simp: sparql_admit_def split: sum.splits option.splits if_splits)

lemma sparql_admit_busy:
  "fst (sparql_admit E S hs query) = Inl (respond 503 (PlainText (EndpointBusy m))) \<Longrightarrow> sparql_slots S = 0"
  by (auto simp: sparql_admit_def respond_def check_oauth2_bearer_def unauthorized_bearer_response_def
      split: sum.splits option.splits if_splits verify_error.splits)

lemma serving_slots:
  "serving E max_permits limits S n \<Longrightarrow>
   sparql_slots S + n = min (max_concurrent limits) max_permits \<and> sparql_limits S = limits"
proof (induction rule: serving.induct)
  case (admitted S n hs query x S')
  then show ?case using sparql_admit_taken by fastforce
next
  case (refused S n hs query r S')
  then show ?case using sparql_admit_refused by fastforce
qed (simp_all add: with_sparql_limits_def evaluation_ends_def)

text \<open>
  Claim C40. At no time do more queries run than the configured number, however requests, timeouts and ends of evaluations
  interleave; slots are neither lost nor made; and a caller is told the endpoint is busy only when that many
  are running.
\<close>

theorem slots_bound_evaluations:
  assumes "serving E max_permits limits S n"
  shows "n \<le> max_concurrent limits \<and> sparql_slots S + n = min (max_concurrent limits) max_permits \<and>
    (fst (sparql_admit E S hs query) = Inl (respond 503 (PlainText (EndpointBusy m))) \<longrightarrow>
     n = min (max_concurrent limits) max_permits)"
  using serving_slots [OF assms] sparql_admit_busy [of E S hs query m] by auto

section \<open>What a SPARQL caller reads\<close>

text \<open>A callback cut short by the cancellation is never kept: the loop notices right after it.\<close>

lemma decide_graphs_callback:
  assumes "\<And>i. cancelled L i \<Longrightarrow> cancelled L (Suc i)"
  shows "decide_graphs K (\<lambda>i. f (cancelled L i)) L gs t p = decide_graphs K (\<lambda>i. f False) L gs t p"
proof -
  have later: "\<not> cancelled L (Suc (Suc i)) \<Longrightarrow> cancelled L (Suc i) = False" for i
    using assms by blast
  show ?thesis
  proof (induction gs arbitrary: t p)
    case (Cons s gs)
    then show ?case using later by (cases s) (simp split: option.splits)
  qed simp
qed

lemma build_allow_list_callback:
  assumes "\<And>i. cancelled L i \<Longrightarrow> cancelled L (Suc i)"
  shows "build_allow_list K W (\<lambda>i. f (cancelled L i)) L key before t cs = build_allow_list K W (\<lambda>i. f False) L key before t cs"
proof -
  have "decide_graphs K (\<lambda>i. f (cancelled L i)) L = decide_graphs K (\<lambda>i. f False) L"
    using decide_graphs_callback [where f = f and L = L] assms by (intro ext) blast
  then show ?thesis by (simp only: build_allow_list_def)
qed

lemma policy_filtered_callback:
  assumes "\<And>i. cancelled L i \<Longrightarrow> cancelled L (Suc i)" "allow key = (\<lambda>i. f False)"
  shows "sparql_query_json_policy_filtered parse K W query key (\<lambda>_ i. f (cancelled L i)) L t cs =
    sparql_query_json_policy_filtered parse K W query key allow L t cs"
proof -
  have v: "visible_for K W (\<lambda>_ i. f (cancelled L i)) L key before t cs = visible_for K W allow L key before t cs"
    for before t cs
  proof -
    have "build_allow_list K W (\<lambda>i. f (cancelled L i)) L = build_allow_list K W (\<lambda>i. f False) L"
      using build_allow_list_callback [where f = f and L = L] assms(1) by (intro ext) blast
    then show ?thesis by (simp only: visible_for_def assms(2))
  qed
  have "policy_filtered_attempts n parse K W query key (\<lambda>_ i. f (cancelled L i)) L t cs =
      policy_filtered_attempts n parse K W query key allow L t cs" for n t cs
    by (induction n arbitrary: t cs) (simp_all add: v cong: option.case_cong sum.case_cong prod.case_cong if_cong)
  then show ?thesis by (simp add: sparql_query_json_policy_filtered_def)
qed

text \<open>The allow-list callback of a caller, undisturbed.\<close>

definition caller_list :: "'k environment \<Rightarrow> 'k app_state \<Rightarrow> json option \<Rightarrow> catalog \<Rightarrow> string set" where
  "caller_list E S claims c =
     visible_resource_iris (env_codec E) (env_engine E) (engine_claims_from_bearer (env_date E) claims) (policy_filter S)
       (\<lambda>_. False) c"


section \<open>Examples\<close>

definition sample_env :: "string environment" where
  "sample_env = \<lparr>env_codec = percent_codec, env_engine = deny_all, env_jwt = sample_jwt, env_jose = sample_jose,
     env_parser = ask_parser, env_key_print = show_claims, env_date = ''2026-01-01T00:00:00Z'', env_body = (\<lambda>_. None),
     env_rfc3339 = show_nat, env_error_text = (\<lambda>_. [])\<rparr>"

definition gated_state :: "string app_state" where
  "gated_state = with_sparql_limits 100 sparql_limits_config_default
     (app_state_new\<lparr>app_oauth2 := Some sample_verifier, app_crawl_status := Some \<lparr>cycles_completed = 0, status_participants = []\<rparr>\<rparr>)"

theorem gate_hides_everything_witness:
  "\<exists>r. status r \<in> {401, 403} \<and> get_catalog sample_env gated_state True (sample_db sample_catalog) (\<lambda>_. None) None = r \<and>
     sparql_route sample_env gated_state (\<lambda>_. None) (Some ''ASK {}'') (\<lambda>_ _. Panicked) = (r, gated_state)"
proof -
  have "app_oauth2 gated_state = Some sample_verifier" by (simp add: gated_state_def with_sparql_limits_def)
  moreover have "bearer_token (\<lambda>_. None) = None" by (simp add: bearer_token_def)
  ultimately show ?thesis using gate_hides_everything [of gated_state sample_verifier "\<lambda>_. None" sample_env] by auto
qed

theorem slots_bound_evaluations_witness:
  "\<exists>S. serving sample_env 100 sparql_limits_config_default S 0 \<and> sparql_slots S + 0 = 4"
proof -
  have S: "serving sample_env 100 sparql_limits_config_default gated_state 0"
    unfolding gated_state_def by (rule serving.start)
  then show ?thesis
    using slots_bound_evaluations [OF S, of "\<lambda>_. None" None 0] by (auto simp: sparql_limits_config_default_def)
qed

lemma quiet_history: "history_of quiet_world"
  by (simp add: store_history_def quiet_world_def writer_step.idle)


end
