(* ===== verification/Broker_Config.thy ===== *)
theory Broker_Config
  imports Routes
begin

text \<open>
  The broker's configuration: \<open>crates/ds-catalog-broker-rs/src/config.rs\<close>, from the triples of the config graph to the
  settings, the participants and the holder, and the limits \<open>state.rs\<close> reads from them.

  A graph is the list of its triples in the store's order. The \<open>url\<close> crate is the parameter \<open>parse\<close>, from the
  text of a URL to its scheme, host, local path and text without credentials. An error names a resource and
  a value by what the message is built from.
\<close>

section \<open>Settings\<close>

datatype setting_kind = TextSetting | PositiveInteger | BooleanSetting | OneOf "string list"

record setting =
  property :: string
  setting_kind :: setting_kind

definition BROKER_NS :: string where
  "BROKER_NS = ''https://catalog-broker.ds-labs.org/ontologies/config#''"

definition parse_positive_integer :: "string \<Rightarrow> nat option" where
  "parse_positive_integer value =
     (case parse_usize (trim value) of Some n \<Rightarrow> if n > 0 then Some n else None | None \<Rightarrow> None)"

definition parse_boolean :: "string \<Rightarrow> bool option" where
  "parse_boolean value =
     (if trim value = ''true'' \<or> trim value = ''1'' then Some True
      else if trim value = ''false'' \<or> trim value = ''0'' then Some False else None)"

definition BOOLEAN_REASON :: string where
  "BOOLEAN_REASON = ''expected true, false, 1 or 0''"

definition setting_check :: "setting \<Rightarrow> string \<Rightarrow> string + unit" where
  "setting_check s value =
     (case setting_kind s of
        TextSetting \<Rightarrow> Inr ()
      | PositiveInteger \<Rightarrow> if parse_positive_integer value \<noteq> None then Inr () else Inl ''expected a positive integer''
      | BooleanSetting \<Rightarrow> if parse_boolean value \<noteq> None then Inr () else Inl BOOLEAN_REASON
      | OneOf allowed \<Rightarrow> if value \<in> set allowed then Inr () else Inl (''expected one of '' @ join '', '' allowed))"

definition UNMAPPABLE_CONSTRAINT_ACTIONS :: "string list" where
  "UNMAPPABLE_CONSTRAINT_ACTIONS = [''skip'', ''drop_policy'', ''hide_dataset'']"

definition NO_POLICY_VISIBILITIES :: "string list" where
  "NO_POLICY_VISIBILITIES = [''open'', ''closed'']"

definition HTTP_API_ADDR :: setting where "HTTP_API_ADDR = \<lparr>property = ''httpApiAddr'', setting_kind = TextSetting\<rparr>"
definition CRAWL_INTERVAL_SECS :: setting where
  "CRAWL_INTERVAL_SECS = \<lparr>property = ''crawlIntervalSecs'', setting_kind = PositiveInteger\<rparr>"
definition CRAWL_TIMEOUT_MS :: setting where
  "CRAWL_TIMEOUT_MS = \<lparr>property = ''crawlTimeoutMs'', setting_kind = PositiveInteger\<rparr>"
definition CRAWL_CONCURRENCY :: setting where
  "CRAWL_CONCURRENCY = \<lparr>property = ''crawlConcurrency'', setting_kind = PositiveInteger\<rparr>"
definition CRAWL_MAX_RESPONSE_BYTES :: setting where
  "CRAWL_MAX_RESPONSE_BYTES = \<lparr>property = ''crawlMaxResponseBytes'', setting_kind = PositiveInteger\<rparr>"
definition CATALOG_MAX_AGE_SECS :: setting where
  "CATALOG_MAX_AGE_SECS = \<lparr>property = ''catalogMaxAgeSecs'', setting_kind = PositiveInteger\<rparr>"
definition OAUTH2_JWKS_URI :: setting where "OAUTH2_JWKS_URI = \<lparr>property = ''oauth2JwksUri'', setting_kind = TextSetting\<rparr>"
definition OAUTH2_ISSUER :: setting where "OAUTH2_ISSUER = \<lparr>property = ''oauth2Issuer'', setting_kind = TextSetting\<rparr>"
definition OAUTH2_AUDIENCE :: setting where "OAUTH2_AUDIENCE = \<lparr>property = ''oauth2Audience'', setting_kind = TextSetting\<rparr>"
definition OAUTH2_REQUIRED_SCOPE :: setting where
  "OAUTH2_REQUIRED_SCOPE = \<lparr>property = ''oauth2RequiredScope'', setting_kind = TextSetting\<rparr>"
definition SPARQL_QUERY_TIMEOUT_MS :: setting where
  "SPARQL_QUERY_TIMEOUT_MS = \<lparr>property = ''sparqlQueryTimeoutMs'', setting_kind = PositiveInteger\<rparr>"
definition SPARQL_MAX_ROWS :: setting where
  "SPARQL_MAX_ROWS = \<lparr>property = ''sparqlMaxRows'', setting_kind = PositiveInteger\<rparr>"
definition SPARQL_MAX_CONCURRENT :: setting where
  "SPARQL_MAX_CONCURRENT = \<lparr>property = ''sparqlMaxConcurrent'', setting_kind = PositiveInteger\<rparr>"
definition SHUTDOWN_DELAY_SECS :: setting where
  "SHUTDOWN_DELAY_SECS = \<lparr>property = ''shutdownDelaySecs'', setting_kind = PositiveInteger\<rparr>"
definition POLICY_FILTER_UNMAPPABLE_CONSTRAINT_ACTION :: setting where
  "POLICY_FILTER_UNMAPPABLE_CONSTRAINT_ACTION =
     \<lparr>property = ''policyFilterUnmappableConstraintAction'', setting_kind = OneOf UNMAPPABLE_CONSTRAINT_ACTIONS\<rparr>"
definition POLICY_FILTER_NO_POLICY_VISIBILITY :: setting where
  "POLICY_FILTER_NO_POLICY_VISIBILITY =
     \<lparr>property = ''policyFilterNoPolicyVisibility'', setting_kind = OneOf NO_POLICY_VISIBILITIES\<rparr>"
definition POLICY_FILTER_RUN_WHEN_OAUTH2_DISABLED :: setting where
  "POLICY_FILTER_RUN_WHEN_OAUTH2_DISABLED = \<lparr>property = ''policyFilterRunWhenOauth2Disabled'', setting_kind = BooleanSetting\<rparr>"

definition ALL_SETTINGS :: "setting list" where
  "ALL_SETTINGS =
     [HTTP_API_ADDR, CRAWL_INTERVAL_SECS, CRAWL_TIMEOUT_MS, CRAWL_CONCURRENCY, CRAWL_MAX_RESPONSE_BYTES, CATALOG_MAX_AGE_SECS,
      OAUTH2_JWKS_URI, OAUTH2_ISSUER, OAUTH2_AUDIENCE, OAUTH2_REQUIRED_SCOPE, SPARQL_QUERY_TIMEOUT_MS, SPARQL_MAX_ROWS,
      SPARQL_MAX_CONCURRENT, POLICY_FILTER_UNMAPPABLE_CONSTRAINT_ACTION, POLICY_FILTER_NO_POLICY_VISIBILITY,
      POLICY_FILTER_RUN_WHEN_OAUTH2_DISABLED, SHUTDOWN_DELAY_SECS]"

definition KNOWN_CLASSES :: "string list" where
  "KNOWN_CLASSES = [''BrokerConfig'', ''Participant'', ''Holder'']"

definition DEFAULT_CRAWL_INTERVAL_SECS :: nat where "DEFAULT_CRAWL_INTERVAL_SECS = 300"

definition PARTICIPANT_LINK :: string where "PARTICIPANT_LINK = ''participant''"
definition HOLDER_LINK :: string where "HOLDER_LINK = ''holder''"
definition PARTICIPANT_ID :: string where "PARTICIPANT_ID = ''participantId''"
definition PARTICIPANT_NAME :: string where "PARTICIPANT_NAME = ''participantName''"
definition CATALOG_REQUEST_URL :: string where "CATALOG_REQUEST_URL = ''catalogRequestUrl''"
definition CREDENTIAL_PROTOCOL :: string where "CREDENTIAL_PROTOCOL = ''credentialProtocol''"
definition PROVIDER_DID :: string where "PROVIDER_DID = ''providerDid''"
definition OID4VP_RESPONSE_URI :: string where "OID4VP_RESPONSE_URI = ''oid4vpResponseUri''"
definition OWN_DID_HOST :: string where "OWN_DID_HOST = ''ownDidHost''"
definition INSECURE_HTTP :: string where "INSECURE_HTTP = ''insecureHttp''"
definition CREDENTIAL_JWS_FILE :: string where "CREDENTIAL_JWS_FILE = ''credentialJwsFile''"
definition REQUIRED_SCOPE :: string where "REQUIRED_SCOPE = ''requiredScope''"

lemmas property_names = PARTICIPANT_LINK_def HOLDER_LINK_def PARTICIPANT_ID_def PARTICIPANT_NAME_def CATALOG_REQUEST_URL_def
  CREDENTIAL_PROTOCOL_def PROVIDER_DID_def OID4VP_RESPONSE_URI_def OWN_DID_HOST_def INSECURE_HTTP_def CREDENTIAL_JWS_FILE_def
  REQUIRED_SCOPE_def

definition PARTICIPANT_PROPERTIES :: "string list" where
  "PARTICIPANT_PROPERTIES =
     [PARTICIPANT_ID, PARTICIPANT_NAME, CATALOG_REQUEST_URL, CREDENTIAL_PROTOCOL, PROVIDER_DID, OID4VP_RESPONSE_URI]"

definition HOLDER_PROPERTIES :: "string list" where
  "HOLDER_PROPERTIES = [OWN_DID_HOST, INSECURE_HTTP, CREDENTIAL_JWS_FILE, REQUIRED_SCOPE]"

section \<open>Errors\<close>

datatype resource =
    ConfigResource
  | NamedResource string
  | BlankWithId string
  | BlankResource
  | ClassResource string resource

datatype shown = Shown string | ShownTerm rdf_term

datatype broker_config_error =
    MultipleConfigResources nat
  | MultipleValues resource string nat
  | UnknownProperty resource string
  | Unattached resource string
  | UnknownClass resource string
  | MissingProperty resource string
  | InvalidValue resource string shown string
  | NotAResource string rdf_term
  | WrongType resource string string
  | UnlinkedResource resource string string
  | Crawler config_error
  | InvalidUrl string string
  | UnsupportedScheme string
  | InsecureRemote string
  | ReadError string string
  | FetchError string string
  | ParseError string string

section \<open>Where the configuration is\<close>

record parsed_url =
  url_scheme :: string
  url_host :: "string option"
  url_file_path :: "string option"
  url_redacted :: string
  url_text :: string

definition url_allowed :: "parsed_url \<Rightarrow> bool" where
  "url_allowed u = remote_allowed (url_scheme u) (url_host u)"

datatype config_location = Local string | Remote parsed_url

definition config_location_parse :: "(string \<Rightarrow> string + parsed_url) \<Rightarrow> string \<Rightarrow> broker_config_error + config_location" where
  "config_location_parse parse raw =
     (if \<not> contains_str ''://'' raw then Inr (Local raw)
      else rbind (map_error (InvalidUrl raw) (parse raw)) (\<lambda>url.
        if (url_scheme url = ''http'' \<or> url_scheme url = ''https'') \<and> url_allowed url then Inr (Remote url)
        else if url_scheme url = ''http'' then Inl (InsecureRemote (url_redacted url))
        else if url_scheme url = ''file'' then
          (case url_file_path url of Some path \<Rightarrow> Inr (Local path) | None \<Rightarrow> Inl (InvalidUrl raw ''not a local file path''))
        else Inl (UnsupportedScheme raw)))"

text \<open>The redirect policy of \<open>config_client\<close>, for the number of locations visited and the target.\<close>

definition follow_config_redirect :: "nat \<Rightarrow> parsed_url \<Rightarrow> bool" where
  "follow_config_redirect previous target \<longleftrightarrow> previous < 10 \<and> url_allowed target"

section \<open>The config graph\<close>

type_synonym config_graph = "triple list"

definition broker_node :: "string \<Rightarrow> string" where
  "broker_node local = BROKER_NS @ local"

text \<open>A loop that returns at the first element with an error.\<close>

definition reject_first :: "('a \<Rightarrow> 'e option) \<Rightarrow> 'a list \<Rightarrow> 'e + unit" where
  "reject_first f xs = (case somes (map f xs) of [] \<Rightarrow> Inr () | e # _ \<Rightarrow> Inl e)"

definition subjects_of_type :: "config_graph \<Rightarrow> string \<Rightarrow> rdf_term list" where
  "subjects_of_type g cls = map subj (filter (\<lambda>t. pred t = rdf_type \<and> obj t = NamedNode (broker_node cls)) g)"

definition has_type :: "config_graph \<Rightarrow> rdf_term \<Rightarrow> string \<Rightarrow> bool" where
  "has_type g s cls = list_ex (\<lambda>t. subj t = s \<and> pred t = rdf_type \<and> obj t = NamedNode (broker_node cls)) g"

fun push_term :: "rdf_term \<Rightarrow> triple \<Rightarrow> (string, rdf_term list) btree \<Rightarrow> (string, rdf_term list) btree" where
  "push_term s t found =
     (if subj t = s then
        (case strip_prefix BROKER_NS (pred t) of
           Some local \<Rightarrow> btree_insert local ((case map_of found local of Some ts \<Rightarrow> ts | None \<Rightarrow> []) @ [obj t]) found
         | None \<Rightarrow> found)
      else found)"

definition node_properties :: "config_graph \<Rightarrow> rdf_term \<Rightarrow> (string, rdf_term list) btree" where
  "node_properties g s = fold (push_term s) g []"

definition describe :: "config_graph \<Rightarrow> rdf_term \<Rightarrow> resource" where
  "describe g s =
     (case s of
        NamedNode i \<Rightarrow> NamedResource i
      | _ \<Rightarrow> (case map_of (node_properties g s) PARTICIPANT_ID of
                 Some [Literal v d] \<Rightarrow> BlankWithId v
               | _ \<Rightarrow> BlankResource))"

text \<open>The local name of the class a triple gives its subject, if it is one of the vocabulary's.\<close>

definition broker_class :: "triple \<Rightarrow> string option" where
  "broker_class t = (case obj t of NamedNode cls \<Rightarrow> strip_prefix BROKER_NS cls | _ \<Rightarrow> None)"

definition reject_unknown_classes :: "config_graph \<Rightarrow> broker_config_error + unit" where
  "reject_unknown_classes g =
     reject_first (\<lambda>t. case broker_class t of
         Some local \<Rightarrow> if local \<in> set KNOWN_CLASSES then None else Some (UnknownClass (describe g (subj t)) local)
       | None \<Rightarrow> None) (filter (\<lambda>t. pred t = rdf_type) g)"

definition broker_term :: "triple \<Rightarrow> string option" where
  "broker_term t =
     (case strip_prefix BROKER_NS (pred t) of
        Some local \<Rightarrow> Some local
      | None \<Rightarrow> if pred t = rdf_type then broker_class t else None)"

definition reject_unattached :: "config_graph \<Rightarrow> rdf_term list \<Rightarrow> broker_config_error + unit" where
  "reject_unattached g attached =
     reject_first (\<lambda>t. case broker_term t of
         Some term \<Rightarrow> if subj t \<in> set attached then None else Some (Unattached (describe g (subj t)) term)
       | None \<Rightarrow> None) g"

definition reject_unlinked :: "config_graph \<Rightarrow> rdf_term list \<Rightarrow> string \<Rightarrow> string \<Rightarrow> broker_config_error + unit" where
  "reject_unlinked g targets cls link =
     reject_first (\<lambda>s. if s \<in> set targets then None else Some (UnlinkedResource (describe g s) cls link)) (subjects_of_type g cls)"

definition single_values ::
    "resource \<Rightarrow> (string, rdf_term list) btree \<Rightarrow> string list \<Rightarrow> broker_config_error + (string, rdf_term) btree" where
  "single_values r props known =
     traverse (\<lambda>(p, terms).
       if p \<notin> set known then Inl (UnknownProperty r p)
       else if length terms > 1 then Inl (MultipleValues r p (length terms))
       else Inr (p, last terms)) props"

definition linked :: "config_graph \<Rightarrow> rdf_term \<Rightarrow> string \<Rightarrow> string \<Rightarrow> broker_config_error + rdf_term" where
  "linked g term link cls =
     (case term of
        Literal v d \<Rightarrow> Inl (NotAResource link term)
      | _ \<Rightarrow> if has_type g term cls then Inr term else Inl (WrongType (describe g term) link cls))"

section \<open>The properties of a participant or holder\<close>

record node_values =
  nv_resource :: resource
  nv_values :: "(string, rdf_term) btree"

definition IRI_VALUED :: "string list" where
  "IRI_VALUED = [CATALOG_REQUEST_URL, OID4VP_RESPONSE_URI]"

definition properties_read :: "config_graph \<Rightarrow> rdf_term \<Rightarrow> string \<Rightarrow> string list \<Rightarrow> broker_config_error + node_values" where
  "properties_read g node cls known =
     (let r = ClassResource cls (describe g node)
      in rbind (single_values r (node_properties g node) known) (\<lambda>values. Inr \<lparr>nv_resource = r, nv_values = values\<rparr>))"

definition invalid :: "node_values \<Rightarrow> string \<Rightarrow> shown \<Rightarrow> string \<Rightarrow> broker_config_error" where
  "invalid nv p value reason = InvalidValue (nv_resource nv) p value reason"

definition optional :: "node_values \<Rightarrow> string \<Rightarrow> broker_config_error + string option" where
  "optional nv p =
     (case map_of (nv_values nv) p of
        None \<Rightarrow> Inr None
      | Some (Literal v d) \<Rightarrow> Inr (Some v)
      | Some (NamedNode i) \<Rightarrow>
          if p \<in> set IRI_VALUED then Inr (Some i) else Inl (invalid nv p (ShownTerm (NamedNode i)) ''expected a string literal'')
      | Some other \<Rightarrow> Inl (invalid nv p (ShownTerm other) ''expected a string literal''))"

definition required :: "node_values \<Rightarrow> string \<Rightarrow> broker_config_error + string" where
  "required nv p = rbind (optional nv p) (of_option (MissingProperty (nv_resource nv) p))"

definition non_empty :: "node_values \<Rightarrow> string \<Rightarrow> broker_config_error + string" where
  "non_empty nv p =
     rbind (required nv p) (\<lambda>value. if trim value = [] then Inl (invalid nv p (Shown value) ''empty'') else Inr value)"

definition optional_endpoint_url ::
    "(string \<Rightarrow> string + parsed_url) \<Rightarrow> node_values \<Rightarrow> string \<Rightarrow> bool \<Rightarrow> broker_config_error + string option" where
  "optional_endpoint_url parse nv p gated =
     rbind (optional nv p) (\<lambda>value.
       case value of
         None \<Rightarrow> Inr None
       | Some value \<Rightarrow>
           (case parse value of
              Inr url \<Rightarrow>
                if gated \<and> \<not> url_allowed url \<and> url_scheme url = ''http''
                then Inl (invalid nv p (Shown value) ''this endpoint receives the crawler's credential: expected https, or plain http to a loopback address'')
                else if url_scheme url = ''http'' \<or> url_scheme url = ''https'' then Inr (Some value)
                else Inl (invalid nv p (Shown value) ''expected an absolute http or https URL'')
            | Inl _ \<Rightarrow> Inl (invalid nv p (Shown value) ''expected an absolute http or https URL'')))"

definition is_did :: "string \<Rightarrow> bool" where
  "is_did value =
     (case Option.bind (strip_prefix ''did:'' value) (split_once (CHR '':'')) of
        Some (did_method, did_id) \<Rightarrow>
          did_method \<noteq> [] \<and> list_all (\<lambda>c. is_digit c \<or> (let n = of_char c :: nat in 97 \<le> n \<and> n \<le> 122)) did_method \<and> did_id \<noteq> []
      | None \<Rightarrow> False)"

definition optional_did :: "node_values \<Rightarrow> string \<Rightarrow> broker_config_error + string option" where
  "optional_did nv p =
     rbind (optional nv p) (\<lambda>value.
       case value of
         None \<Rightarrow> Inr None
       | Some value \<Rightarrow>
           if is_did value then Inr (Some value) else Inl (invalid nv p (Shown value) ''expected a DID (did:<method>:<id>)''))"

definition only_for ::
    "node_values \<Rightarrow> string \<Rightarrow> string option \<Rightarrow> credential_protocol \<Rightarrow> credential_protocol \<Rightarrow> string \<Rightarrow> broker_config_error + unit" where
  "only_for nv p value protocol wanted wanted_name =
     (case value of
        Some v \<Rightarrow>
          if protocol \<noteq> wanted
          then Inl (invalid nv p (Shown v) (''only read when broker:'' @ CREDENTIAL_PROTOCOL @ '' is \"'' @ wanted_name @ ''\"''))
          else Inr ()
      | None \<Rightarrow> Inr ())"

definition file_from_url :: "(string \<Rightarrow> string + parsed_url) \<Rightarrow> node_values \<Rightarrow> string \<Rightarrow> broker_config_error + string option" where
  "file_from_url parse nv raw =
     (case parse raw of
        Inr url \<Rightarrow>
          if url_scheme url = ''file'' then
            (case url_file_path url of
               Some path \<Rightarrow> Inr (Some path)
             | None \<Rightarrow> Inl (invalid nv CREDENTIAL_JWS_FILE (Shown raw) ''not a local file path''))
          else Inl (invalid nv CREDENTIAL_JWS_FILE (Shown raw) ''the credential must be a local file'')
      | Inl _ \<Rightarrow> Inr None)"

definition credential_file :: "(string \<Rightarrow> string + parsed_url) \<Rightarrow> node_values \<Rightarrow> broker_config_error + string" where
  "credential_file parse nv =
     (case map_of (nv_values nv) CREDENTIAL_JWS_FILE of
        None \<Rightarrow> Inl (MissingProperty (nv_resource nv) CREDENTIAL_JWS_FILE)
      | Some (Literal raw d) \<Rightarrow>
          if trim raw = [] then Inl (invalid nv CREDENTIAL_JWS_FILE (Shown raw) ''empty path'')
          else
            let looks_like_url = (eq_ignore_ascii_case (take 5 raw) ''file:'' \<or> contains_str ''://'' raw)
            in rbind (if looks_like_url then file_from_url parse nv raw else Inr None) (\<lambda>url_path.
                 Inr (case url_path of Some path \<Rightarrow> path | None \<Rightarrow> raw))
      | Some (NamedNode i) \<Rightarrow>
          rbind (file_from_url parse nv i) (of_option (invalid nv CREDENTIAL_JWS_FILE (Shown i) ''not a local file path''))
      | Some other \<Rightarrow> Inl (invalid nv CREDENTIAL_JWS_FILE (ShownTerm other) ''expected a path or a file: IRI''))"

definition read_protocol :: "node_values \<Rightarrow> broker_config_error + credential_protocol" where
  "read_protocol nv =
     rbind (optional nv CREDENTIAL_PROTOCOL) (\<lambda>raw.
       case raw of
         Some raw \<Rightarrow>
           map_error (invalid nv CREDENTIAL_PROTOCOL (Shown raw)) (credential_protocol_from_str raw)
       | None \<Rightarrow> Inr ProtocolNone)"

definition read_participant ::
    "(string \<Rightarrow> string + parsed_url) \<Rightarrow> config_graph \<Rightarrow> rdf_term \<Rightarrow> broker_config_error + participant_entry" where
  "read_participant parse g node =
     rbind (properties_read g node ''Participant'' PARTICIPANT_PROPERTIES) (\<lambda>nv.
     rbind (read_protocol nv) (\<lambda>protocol.
     rbind (non_empty nv PARTICIPANT_ID) (\<lambda>pid.
     rbind (non_empty nv PARTICIPANT_NAME) (\<lambda>name.
     rbind (optional_endpoint_url parse nv CATALOG_REQUEST_URL (protocol \<noteq> ProtocolNone)) (\<lambda>endpoint.
     rbind (of_option (MissingProperty (nv_resource nv) CATALOG_REQUEST_URL) endpoint) (\<lambda>url.
     rbind (optional_did nv PROVIDER_DID) (\<lambda>did.
     rbind (only_for nv PROVIDER_DID did protocol ProtocolDcp ''dcp'') (\<lambda>_.
     rbind (optional_endpoint_url parse nv OID4VP_RESPONSE_URI True) (\<lambda>uri.
     rbind (only_for nv OID4VP_RESPONSE_URI uri protocol ProtocolOid4Vp ''oid4vp'') (\<lambda>_.
       Inr \<lparr>pe_part_id = pid, pe_name = name, catalog_request_url = url, pe_protocol = protocol, provider_did = did,
         oid4vp_response_uri = uri\<rparr>))))))))))"

definition read_insecure :: "node_values \<Rightarrow> broker_config_error + bool" where
  "read_insecure nv =
     rbind (optional nv INSECURE_HTTP) (\<lambda>raw.
       case raw of
         None \<Rightarrow> Inr False
       | Some raw \<Rightarrow> of_option (invalid nv INSECURE_HTTP (Shown raw) BOOLEAN_REASON) (parse_boolean raw))"

definition read_holder ::
    "(string \<Rightarrow> string + parsed_url) \<Rightarrow> config_graph \<Rightarrow> rdf_term \<Rightarrow> broker_config_error + holder_config" where
  "read_holder parse g node =
     rbind (properties_read g node ''Holder'' HOLDER_PROPERTIES) (\<lambda>nv.
     rbind (read_insecure nv) (\<lambda>insecure.
     rbind (credential_file parse nv) (\<lambda>path.
     rbind (required nv OWN_DID_HOST) (\<lambda>host.
     rbind (required nv REQUIRED_SCOPE) (\<lambda>scope.
       Inr \<lparr>hc_own_did_host = host, hc_insecure_http = insecure, credential_jws_file = path, hc_required_scope = scope\<rparr>)))))"

section \<open>Broker settings\<close>

record broker_settings =
  setting_values :: "(string, string) btree"
  crawler_config :: "participants_config option"
  config_source :: "config_location option"

definition broker_settings_default :: broker_settings where
  "broker_settings_default = \<lparr>setting_values = [], crawler_config = None, config_source = None\<rparr>"

definition check_value :: "string \<times> string \<Rightarrow> broker_config_error + unit" where
  "check_value kv =
     (case kv of (p, value) \<Rightarrow>
        (case find (\<lambda>s. property s = p) ALL_SETTINGS of
           None \<Rightarrow> Inl (UnknownProperty ConfigResource p)
         | Some s \<Rightarrow> map_error (InvalidValue ConfigResource p (Shown value)) (setting_check s value)))"

definition from_values :: "(string \<times> string) list \<Rightarrow> broker_config_error + broker_settings" where
  "from_values kvs =
     (let values = btree_of_list kvs
      in rbind (traverse check_value values) (\<lambda>_.
           Inr \<lparr>setting_values = values, crawler_config = None, config_source = None\<rparr>))"

definition setting_get :: "broker_settings \<Rightarrow> setting \<Rightarrow> string option" where
  "setting_get st s = map_of (setting_values st) (property s)"

definition positive_integer :: "broker_settings \<Rightarrow> setting \<Rightarrow> nat option" where
  "positive_integer st s = Option.bind (map_of (setting_values st) (property s)) parse_positive_integer"

definition boolean_setting :: "broker_settings \<Rightarrow> setting \<Rightarrow> bool option" where
  "boolean_setting st s = Option.bind (map_of (setting_values st) (property s)) parse_boolean"

definition read_crawler ::
    "(string \<Rightarrow> string + parsed_url) \<Rightarrow> broker_settings \<Rightarrow> config_graph \<Rightarrow> resource \<Rightarrow> rdf_term list \<Rightarrow> rdf_term list \<Rightarrow>
     broker_config_error + participants_config option" where
  "read_crawler parse st g r participants holders =
     rbind (reject_unlinked g participants ''Participant'' PARTICIPANT_LINK) (\<lambda>_.
     rbind (reject_unlinked g holders ''Holder'' HOLDER_LINK) (\<lambda>_.
     if length holders > 1 then Inl (MultipleValues r HOLDER_LINK (length holders))
     else
       rbind (case holders of
           term # _ \<Rightarrow> rbind (linked g term HOLDER_LINK ''Holder'') (\<lambda>node.
             rbind (read_holder parse g node) (\<lambda>h. Inr (Some h)))
         | [] \<Rightarrow> Inr None) (\<lambda>holder.
       if participants = [] then Inr None
       else
         rbind (traverse (\<lambda>term. rbind (linked g term PARTICIPANT_LINK ''Participant'') (read_participant parse g)) participants)
           (\<lambda>entries.
         let interval_secs = (case positive_integer st CRAWL_INTERVAL_SECS of Some n \<Rightarrow> n | None \<Rightarrow> DEFAULT_CRAWL_INTERVAL_SECS)
         in rbind (map_error Crawler (participants_config_new interval_secs (sort_key pe_part_id entries) holder))
              (\<lambda>config. Inr (Some config))))))"

definition setting_value :: "string \<times> rdf_term \<Rightarrow> broker_config_error + string \<times> string" where
  "setting_value pt =
     (case pt of (p, term) \<Rightarrow>
        (case term of
           BlankNode b \<Rightarrow> Inl (InvalidValue ConfigResource p (ShownTerm term) ''expected a literal or an IRI'')
         | Literal v d \<Rightarrow> Inr (p, v)
         | NamedNode i \<Rightarrow> Inr (p, i)))"

definition link_targets :: "string \<Rightarrow> (string, rdf_term list) btree \<Rightarrow> rdf_term list" where
  "link_targets link props = (case map_of props link of Some ts \<Rightarrow> ts | None \<Rightarrow> [])"

definition from_graph :: "(string \<Rightarrow> string + parsed_url) \<Rightarrow> config_graph \<Rightarrow> broker_config_error + broker_settings" where
  "from_graph parse g =
     rbind (reject_unknown_classes g) (\<lambda>_.
     let configs = subjects_of_type g ''BrokerConfig''
     in if length configs > 1 then Inl (MultipleConfigResources (length configs))
        else (case configs of
          [] \<Rightarrow> rbind (reject_unattached g []) (\<lambda>_. Inr broker_settings_default)
        | config # _ \<Rightarrow>
            (let props = node_properties g config;
                 participants = link_targets PARTICIPANT_LINK props;
                 holders = link_targets HOLDER_LINK props;
                 rest = AList.delete HOLDER_LINK (AList.delete PARTICIPANT_LINK props)
             in
               rbind (single_values ConfigResource rest (map property ALL_SETTINGS)) (\<lambda>terms.
               rbind (traverse setting_value terms) (\<lambda>values.
               rbind (from_values values) (\<lambda>settings.
               rbind (read_crawler parse settings g ConfigResource participants holders) (\<lambda>crawler.
               rbind (reject_unattached g (config # participants @ holders)) (\<lambda>_.
                 Inr (settings\<lparr>crawler_config := crawler\<rparr>)))))))))"

section \<open>Reading a location\<close>

text \<open>The file system and the Turtle parser are parameters; an absent base is a file whose path has no URL.\<close>

record config_world =
  is_dir :: "string \<Rightarrow> bool"
  read_file :: "string \<Rightarrow> string + string"
  file_base :: "string \<Rightarrow> string option"
  fetch_config :: "string \<Rightarrow> string + string"
  parse_turtle :: "string option \<Rightarrow> string \<Rightarrow> string + config_graph"
  join_path :: "string \<Rightarrow> string \<Rightarrow> string"
  env_location :: "string option"
  per_user_default :: "string option"
  is_file :: "string \<Rightarrow> bool"

definition CONFIG_GRAPH_FILE :: string where "CONFIG_GRAPH_FILE = ''config_graph.ttl''"

definition from_turtle ::
    "(string \<Rightarrow> string + parsed_url) \<Rightarrow> config_world \<Rightarrow> string \<Rightarrow> string option \<Rightarrow> string \<Rightarrow> broker_config_error + broker_settings" where
  "from_turtle parse W turtle base_iri location =
     rbind (map_error (ParseError location) (parse_turtle W base_iri turtle)) (from_graph parse)"

definition from_location ::
    "(string \<Rightarrow> string + parsed_url) \<Rightarrow> config_world \<Rightarrow> config_location \<Rightarrow> broker_config_error + broker_settings" where
  "from_location parse W location =
     (case location of
        Local path \<Rightarrow>
          (let file = (if is_dir W path then join_path W path CONFIG_GRAPH_FILE else path)
           in rbind (map_error (ReadError file) (read_file W file)) (\<lambda>turtle.
                from_turtle parse W turtle (file_base W file) file))
      | Remote url \<Rightarrow>
          if \<not> url_allowed url then Inl (InsecureRemote (url_redacted url))
          else rbind (map_error (FetchError (url_redacted url)) (fetch_config W (url_text url))) (\<lambda>turtle.
            from_turtle parse W turtle (Some (url_text url)) (url_redacted url)))"

definition load_settings :: "(string \<Rightarrow> string + parsed_url) \<Rightarrow> config_world \<Rightarrow> broker_config_error + broker_settings" where
  "load_settings parse W =
     (case (case env_location W of Some raw \<Rightarrow> if raw = [] then None else Some raw | None \<Rightarrow> None) of
        Some raw \<Rightarrow> rbind (config_location_parse parse raw) (\<lambda>location.
          rbind (from_location parse W location) (\<lambda>settings. Inr (settings\<lparr>config_source := Some location\<rparr>)))
      | None \<Rightarrow>
          (case per_user_default W of
             None \<Rightarrow> Inr broker_settings_default
           | Some path \<Rightarrow>
               if is_file W (join_path W path CONFIG_GRAPH_FILE)
               then rbind (from_location parse W (Local path)) (\<lambda>settings. Inr (settings\<lparr>config_source := Some (Local path)\<rparr>))
               else Inr broker_settings_default))"

section \<open>Limits\<close>

definition sparql_limits_from_settings :: "nat \<Rightarrow> broker_settings \<Rightarrow> sparql_limits_config" where
  "sparql_limits_from_settings max_permits st =
     \<lparr>sparql_timeout = (case positive_integer st SPARQL_QUERY_TIMEOUT_MS of Some ms \<Rightarrow> ms | None \<Rightarrow> sparql_timeout sparql_limits_config_default),
      sparql_max_rows = (case positive_integer st SPARQL_MAX_ROWS of Some n \<Rightarrow> n | None \<Rightarrow> sparql_max_rows sparql_limits_config_default),
      max_concurrent = min (case positive_integer st SPARQL_MAX_CONCURRENT of Some n \<Rightarrow> n | None \<Rightarrow> max_concurrent sparql_limits_config_default)
        max_permits\<rparr>"

definition crawl_limits_from_settings :: "broker_settings \<Rightarrow> crawl_limits" where
  "crawl_limits_from_settings st =
     \<lparr>participant_timeout = (case positive_integer st CRAWL_TIMEOUT_MS of Some ms \<Rightarrow> ms | None \<Rightarrow> participant_timeout crawl_limits_default),
      concurrency = (case positive_integer st CRAWL_CONCURRENCY of Some n \<Rightarrow> n | None \<Rightarrow> concurrency crawl_limits_default),
      max_catalog_age = (case positive_integer st CATALOG_MAX_AGE_SECS of Some secs \<Rightarrow> secs * 1000 | None \<Rightarrow> max_catalog_age crawl_limits_default),
      max_response_bytes = (case positive_integer st CRAWL_MAX_RESPONSE_BYTES of Some n \<Rightarrow> n | None \<Rightarrow> max_response_bytes crawl_limits_default)\<rparr>"

definition shutdown_delay_from_settings :: "broker_settings \<Rightarrow> nat" where
  "shutdown_delay_from_settings st = (case positive_integer st SHUTDOWN_DELAY_SECS of Some secs \<Rightarrow> secs * 1000 | None \<Rightarrow> 0)"

section \<open>Reading properties\<close>

lemma reject_first_ok: "reject_first f xs = Inr u \<longleftrightarrow> (\<forall>x\<in>set xs. f x = None)"
proof -
  have "somes (map f xs) = [] \<longleftrightarrow> (\<forall>x\<in>set xs. f x = None)"
  proof (induction xs)
    case (Cons x xs)
    then show ?case by (cases "f x") auto
  qed simp
  then show ?thesis by (cases "somes (map f xs)") (auto simp: reject_first_def)
qed

definition objects_of :: "config_graph \<Rightarrow> rdf_term \<Rightarrow> string \<Rightarrow> rdf_term list" where
  "objects_of g s local = map obj (filter (\<lambda>t. subj t = s \<and> pred t = broker_node local) g)"

lemma in_objects_of: "x \<in> set (objects_of g s local) \<longleftrightarrow> (\<exists>t\<in>set g. subj t = s \<and> pred t = broker_node local \<and> obj t = x)"
  by (auto simp: objects_of_def)

declare push_term.simps [simp del]

lemma push_term_other: "subj t \<noteq> s \<or> strip_prefix BROKER_NS (pred t) = None \<Longrightarrow> push_term s t m = m"
  by (auto simp: push_term.simps)

lemma push_term_ours:
  "pred t = broker_node l \<Longrightarrow> push_term (subj t) t m =
   btree_insert l ((case map_of m l of Some ts \<Rightarrow> ts | None \<Rightarrow> []) @ [obj t]) m"
  by (simp add: push_term.simps broker_node_def)

lemma objects_of_Cons:
  "objects_of (t # g) s local = (if subj t = s \<and> pred t = broker_node local then [obj t] else []) @ objects_of g s local"
  by (simp add: objects_of_def)

lemma broker_node_inject [simp]: "broker_node a = broker_node b \<longleftrightarrow> a = b"
  by (simp add: broker_node_def)

lemma node_properties_fold:
  "btree_ok m \<Longrightarrow> btree_ok (fold (push_term s) g m) \<and>
   map_of (fold (push_term s) g m) local =
     (if objects_of g s local = [] then map_of m local
      else Some ((case map_of m local of Some ts \<Rightarrow> ts | None \<Rightarrow> []) @ objects_of g s local))"
proof (induction g arbitrary: m)
  case (Cons t g)
  show ?case
  proof (cases "subj t = s \<and> (\<exists>l. pred t = broker_node l)")
    case True
    then obtain l where t: "subj t = s" "pred t = broker_node l" by blast
    then have p: "push_term s t m = btree_insert l ((case map_of m l of Some ts \<Rightarrow> ts | None \<Rightarrow> []) @ [obj t]) m"
      using push_term_ours by blast
    have "btree_ok (push_term s t m)" unfolding p using Cons.prems by (rule btree_insert_ok)
    from Cons.IH [OF this] t show ?thesis
      by (cases "l = local") (simp_all add: p objects_of_Cons split: option.split)
  next
    case False
    then have "subj t \<noteq> s \<or> strip_prefix BROKER_NS (pred t) = None"
      by (cases "strip_prefix BROKER_NS (pred t)") (auto simp: strip_prefix_Some_iff broker_node_def)
    then have "push_term s t m = m" by (rule push_term_other)
    with Cons.IH [OF Cons.prems] False show ?thesis by (auto simp: objects_of_Cons)
  qed
qed (simp add: objects_of_def)

lemma map_of_node_properties:
  "map_of (node_properties g s) local = (if objects_of g s local = [] then None else Some (objects_of g s local))"
  using node_properties_fold [of "[]" s g local] by (simp add: node_properties_def)

lemma node_properties_ok: "btree_ok (node_properties g s)"
  using node_properties_fold [of "[]" s g] by (simp add: node_properties_def)

lemma single_values_ok:
  assumes "single_values r props known = Inr vs"
  shows "map_of vs p = map_option last (map_of props p)" "map fst vs = map fst props"
    "map_of props p = Some ts \<Longrightarrow> p \<in> set known \<and> length ts \<le> 1"
proof -
  have "map_of vs p = map_option last (map_of props p) \<and> map fst vs = map fst props \<and>
      (\<forall>ts. map_of props p = Some ts \<longrightarrow> p \<in> set known \<and> length ts \<le> 1)"
    using assms by (induction props arbitrary: vs) (auto simp: single_values_def result_simps split: if_splits)
  then show "map_of vs p = map_option last (map_of props p)" "map fst vs = map fst props"
    "map_of props p = Some ts \<Longrightarrow> p \<in> set known \<and> length ts \<le> 1" by auto
qed

text \<open>A node whose properties could be read has one value of each, all of them known.\<close>

lemma properties_read_ok:
  assumes "properties_read g node cls known = Inr nv" "t \<in> set g" "subj t = node" "strip_prefix BROKER_NS (pred t) = Some p"
  shows "p \<in> set known \<and> map_of (nv_values nv) p = Some (obj t) \<and>
    (\<forall>t'\<in>set g. subj t' = node \<longrightarrow> pred t' = pred t \<longrightarrow> obj t' = obj t)"
proof -
  obtain vs where vs: "single_values (ClassResource cls (describe g node)) (node_properties g node) known = Inr vs" "nv_values nv = vs"
    using assms(1) by (auto simp: properties_read_def Let_def result_simps)
  have pr: "pred t = broker_node p" using assms(4) by (simp add: strip_prefix_Some_iff broker_node_def)
  then have "obj t \<in> set (objects_of g node p)" using assms(2,3) by (auto simp: in_objects_of)
  moreover from this have "map_of (node_properties g node) p = Some (objects_of g node p)"
    by (auto simp: map_of_node_properties)
  note s = single_values_ok(1) [OF vs(1), of p] single_values_ok(3) [OF vs(1) this]
  moreover from s(2) calculation have "objects_of g node p = [obj t]"
    by (cases "objects_of g node p") auto
  moreover from this have "\<forall>t'\<in>set g. subj t' = node \<longrightarrow> pred t' = pred t \<longrightarrow> obj t' = obj t"
    using pr by (metis in_objects_of empty_iff insert_iff list.set(1,2))
  ultimately show ?thesis using vs(2) \<open>map_of (node_properties g node) p = _\<close> by simp
qed

lemma linked_ok: "linked g term link cls = Inr node \<longleftrightarrow> node = term \<and> has_type g term cls \<and> (\<forall>v d. term \<noteq> Literal v d)"
  by (cases "term") (auto simp: linked_def)

lemma subjects_of_type_iff: "s \<in> set (subjects_of_type g cls) \<longleftrightarrow> has_type g s cls"
  by (auto simp: subjects_of_type_def has_type_def list_ex_iff)

section \<open>Credentials and endpoints\<close>

definition endpoint_protected :: "(string \<Rightarrow> string + parsed_url) \<Rightarrow> string \<Rightarrow> bool" where
  "endpoint_protected parse u \<longleftrightarrow> (\<exists>url. parse u = Inr url \<and> url_allowed url)"

lemma https_allowed: "url_scheme u = ''https'' \<Longrightarrow> url_allowed u"
  by (simp add: url_allowed_def remote_allowed_def)

lemma endpoint_url_ok:
  assumes "optional_endpoint_url parse nv p gated = Inr (Some u)" "gated"
  shows "endpoint_protected parse u"
proof -
  obtain v where v: "optional nv p = Inr (Some v)"
    using assms(1) by (cases "optional nv p") (auto simp: optional_endpoint_url_def split: option.splits)
  then obtain url where url: "parse v = Inr url"
    using assms(1) by (cases "parse v") (auto simp: optional_endpoint_url_def)
  with assms v have "v = u" "url_scheme url = ''http'' \<longrightarrow> url_allowed url" "url_scheme url \<noteq> ''http'' \<longrightarrow> url_scheme url = ''https''"
    by (auto simp: optional_endpoint_url_def split: if_splits)
  then show ?thesis using url https_allowed by (auto simp: endpoint_protected_def)
qed

lemma read_participant_ok:
  assumes "read_participant parse g node = Inr e"
  shows "pe_protocol e \<noteq> ProtocolNone \<Longrightarrow> endpoint_protected parse (catalog_request_url e)"
    "oid4vp_response_uri e = Some u \<Longrightarrow> endpoint_protected parse u"
    "\<exists>nv. properties_read g node ''Participant'' PARTICIPANT_PROPERTIES = Inr nv"
  using assms by (auto simp: read_participant_def result_simps intro: endpoint_url_ok)

lemma read_holder_ok:
  "read_holder parse g node = Inr h \<Longrightarrow> \<exists>nv. properties_read g node ''Holder'' HOLDER_PROPERTIES = Inr nv"
  by (auto simp: read_holder_def result_simps)

text \<open>What the crawler is configured with: one entry per linked participant, and the linked holder.\<close>

lemma read_crawler_ok:
  assumes "read_crawler parse st g r participants holders = Inr crawler"
  shows "length holders \<le> 1" "\<forall>n\<in>set holders. \<exists>h. read_holder parse g n = Inr h \<and> (\<forall>c. crawler = Some c \<longrightarrow> pc_holder c = Some h)"
    "\<forall>n\<in>set participants. \<exists>e c. read_participant parse g n = Inr e \<and> crawler = Some c \<and> e \<in> set (pc_participants c)"
    "\<And>c e. crawler = Some c \<Longrightarrow> e \<in> set (pc_participants c) \<Longrightarrow>
       gate_ok (pc_holder c) e \<and> (\<exists>n\<in>set participants. read_participant parse g n = Inr e)"
    "\<And>s. has_type g s ''Participant'' \<Longrightarrow> s \<in> set participants" "\<And>s. has_type g s ''Holder'' \<Longrightarrow> s \<in> set holders"
proof -
  let ?entry = "\<lambda>term. rbind (linked g term PARTICIPANT_LINK ''Participant'') (read_participant parse g)"
  from assms obtain holder where
    u: "reject_unlinked g participants ''Participant'' PARTICIPANT_LINK = Inr ()" "reject_unlinked g holders ''Holder'' HOLDER_LINK = Inr ()"
    and one: "length holders \<le> 1"
    and h: "(case holders of term # _ \<Rightarrow> rbind (linked g term HOLDER_LINK ''Holder'') (\<lambda>node.
        rbind (read_holder parse g node) (\<lambda>h. Inr (Some h))) | [] \<Rightarrow> Inr None) = Inr holder"
    and c: "participants = [] \<and> crawler = None \<or> (\<exists>entries interval c. participants \<noteq> [] \<and> traverse ?entry participants = Inr entries \<and>
        participants_config_new interval (sort_key pe_part_id entries) holder = Inr c \<and> crawler = Some c)"
    by (auto simp: read_crawler_def result_simps Let_def split: if_splits)
  show "length holders \<le> 1" by (rule one)
  show "\<And>s. has_type g s ''Participant'' \<Longrightarrow> s \<in> set participants" "\<And>s. has_type g s ''Holder'' \<Longrightarrow> s \<in> set holders"
    using u by (auto simp: reject_unlinked_def reject_first_ok subjects_of_type_iff split: if_splits)
  have hs: "holders = [] \<and> holder = None \<or> (\<exists>n h. holders = [n] \<and> read_holder parse g n = Inr h \<and> holder = Some h)"
    using one h by (auto simp: result_simps linked_ok split: list.splits)
  have cs: "crawler = Some c \<Longrightarrow> pc_holder c = holder \<and> (\<exists>entries. traverse ?entry participants = Inr entries \<and>
      set (pc_participants c) = set entries \<and> (\<forall>e\<in>set entries. gate_ok holder e))" for c
    using c by (auto simp: config_new_ok)
  show "\<forall>n\<in>set holders. \<exists>h. read_holder parse g n = Inr h \<and> (\<forall>c. crawler = Some c \<longrightarrow> pc_holder c = Some h)"
    using hs cs by auto
  have entry: "?entry n = Inr e \<Longrightarrow> read_participant parse g n = Inr e" for n e
    by (auto simp: result_simps linked_ok)
  have entries: "traverse ?entry participants = Inr entries \<Longrightarrow>
      (\<forall>n\<in>set participants. \<exists>e\<in>set entries. read_participant parse g n = Inr e) \<and>
      (\<forall>e\<in>set entries. \<exists>n\<in>set participants. read_participant parse g n = Inr e)" for entries
    using traverse_members [of ?entry participants entries] entry by blast
  show "\<forall>n\<in>set participants. \<exists>e c. read_participant parse g n = Inr e \<and> crawler = Some c \<and> e \<in> set (pc_participants c)"
  proof (cases crawler)
    case None
    then show ?thesis using c by auto
  next
    case (Some c)
    then show ?thesis using cs [OF Some] entries by blast
  qed
  show "\<And>c e. crawler = Some c \<Longrightarrow> e \<in> set (pc_participants c) \<Longrightarrow>
       gate_ok (pc_holder c) e \<and> (\<exists>n\<in>set participants. read_participant parse g n = Inr e)"
    using cs entries by blast
qed

section \<open>Nothing is ignored\<close>

definition value_text :: "rdf_term \<Rightarrow> string" where
  "value_text x = (case x of NamedNode i \<Rightarrow> i | Literal v d \<Rightarrow> v | BlankNode b \<Rightarrow> [])"

lemma setting_values_ok:
  "traverse setting_value terms = Inr vals \<Longrightarrow>
   map_of vals p = map_option value_text (map_of terms p) \<and> map fst vals = map fst terms"
  by (induction terms arbitrary: vals)
    (auto simp: result_simps setting_value_def value_text_def split: prod.splits rdf_term.splits)

lemma from_values_ok: "from_values kvs = Inr st \<longleftrightarrow>
   st = \<lparr>setting_values = btree_of_list kvs, crawler_config = None, config_source = None\<rparr> \<and>
   (\<forall>kv\<in>set (btree_of_list kvs). check_value kv = Inr ())"
proof -
  have "(\<exists>us. traverse check_value xs = Inr us) \<longleftrightarrow> (\<forall>x\<in>set xs. check_value x = Inr ())" for xs
    by (induction xs) (auto simp: result_simps)
  then show ?thesis by (auto simp: from_values_def Let_def result_simps)
qed

lemma map_of_delete_other: "p \<noteq> k \<Longrightarrow> map_of (AList.delete k m) p = map_of m p"
  by (simp add: delete_conv)

lemma from_graph_no_config:
  "from_graph parse g = Inr st \<Longrightarrow> subjects_of_type g ''BrokerConfig'' = [] \<Longrightarrow>
   st = broker_settings_default \<and> (\<forall>t\<in>set g. broker_term t = None)"
  by (auto simp: from_graph_def result_simps reject_unattached_def reject_first_ok split: option.splits)

lemma from_graph_config:
  assumes "from_graph parse g = Inr st" "subjects_of_type g ''BrokerConfig'' \<noteq> []"
  obtains config participants holders where "has_type g config ''BrokerConfig''"
    "participants = objects_of g config PARTICIPANT_LINK" "holders = objects_of g config HOLDER_LINK"
    "\<And>t. t \<in> set g \<Longrightarrow> broker_term t \<noteq> None \<Longrightarrow> subj t \<in> set (config # participants @ holders)"
    "\<exists>st0. read_crawler parse st0 g ConfigResource participants holders = Inr (crawler_config st)"
    "\<And>p. p \<notin> {PARTICIPANT_LINK, HOLDER_LINK} \<Longrightarrow> objects_of g config p \<noteq> [] \<Longrightarrow>
       p \<in> property ` set ALL_SETTINGS \<and> (\<exists>x. objects_of g config p = [x] \<and> map_of (setting_values st) p = Some (value_text x))"
    "\<And>kv. kv \<in> set (setting_values st) \<Longrightarrow> check_value kv = Inr ()"
proof -
  obtain config where config: "subjects_of_type g ''BrokerConfig'' = [config]"
    using assms by (cases "subjects_of_type g ''BrokerConfig''") (auto simp: from_graph_def result_simps Let_def split: if_splits)
  let ?P = "node_properties g config"
  let ?rest = "AList.delete HOLDER_LINK (AList.delete PARTICIPANT_LINK ?P)"
  have links: "link_targets l ?P = objects_of g config l" for l
    by (simp add: link_targets_def map_of_node_properties)
  obtain terms vals st0 where r:
    "single_values ConfigResource ?rest (map property ALL_SETTINGS) = Inr terms" "traverse setting_value terms = Inr vals"
    "from_values vals = Inr st0"
    "read_crawler parse st0 g ConfigResource (objects_of g config PARTICIPANT_LINK) (objects_of g config HOLDER_LINK)
       = Inr (crawler_config st)"
    "reject_unattached g (config # objects_of g config PARTICIPANT_LINK @ objects_of g config HOLDER_LINK) = Inr ()"
    "setting_values st = setting_values st0"
    using assms(1) config by (auto simp: from_graph_def result_simps Let_def links)
  have c: "has_type g config ''BrokerConfig''" by (metis config list.set_intros(1) subjects_of_type_iff)
  have att: "subj t \<in> set (config # objects_of g config PARTICIPANT_LINK @ objects_of g config HOLDER_LINK)"
    if "t \<in> set g" "broker_term t \<noteq> None" for t
    using r(5) that unfolding reject_unattached_def reject_first_ok by (auto split: option.splits if_splits)
  have v: "setting_values st = btree_of_list vals" "\<And>kv. kv \<in> set (setting_values st) \<Longrightarrow> check_value kv = Inr ()"
    using r(3,6) by (simp_all add: from_values_ok)
  have "distinct (map fst ?P)" by (simp add: btree_ok_distinct node_properties_ok)
  then have "distinct (map fst vals)"
    using single_values_ok(2) [OF r(1)] setting_values_ok [OF r(2)] by (simp add: distinct_delete)
  then have m: "map_of (setting_values st) p = map_option value_text (map_of terms p)" for p
    using setting_values_ok [OF r(2)] v(1) by (simp add: map_of_btree_of_list)
  have "p \<in> property ` set ALL_SETTINGS \<and> (\<exists>x. objects_of g config p = [x] \<and> map_of (setting_values st) p = Some (value_text x))"
    if p: "p \<notin> {PARTICIPANT_LINK, HOLDER_LINK}" "objects_of g config p \<noteq> []" for p
  proof -
    have rest: "map_of ?rest p = Some (objects_of g config p)"
      using p by (simp add: map_of_delete_other map_of_node_properties)
    then have "p \<in> property ` set ALL_SETTINGS \<and> length (objects_of g config p) \<le> 1"
      using single_values_ok(3) [OF r(1) rest] by simp
    moreover from this p(2) obtain x where x: "objects_of g config p = [x]"
      by (cases "objects_of g config p") auto
    ultimately show ?thesis
      using m [of p] single_values_ok(1) [OF r(1), of p] rest by simp
  qed
  from that [OF c refl refl att _ this v(2)] r(4) show ?thesis by blast
qed

text \<open>
  What the settings make of a triple with a property of the vocabulary: a checked setting with its value, a link to a
  participant or holder the crawler is configured with, or a property of one of these.
\<close>

definition takes_effect ::
    "(string \<Rightarrow> string + parsed_url) \<Rightarrow> config_graph \<Rightarrow> broker_settings \<Rightarrow> string \<Rightarrow> triple \<Rightarrow> bool" where
  "takes_effect parse g st p t \<longleftrightarrow>
     has_type g (subj t) ''BrokerConfig'' \<and> p \<in> property ` set ALL_SETTINGS \<and>
       map_of (setting_values st) p = Some (value_text (obj t)) \<and> check_value (p, value_text (obj t)) = Inr () \<or>
     (\<exists>e c. crawler_config st = Some c \<and> e \<in> set (pc_participants c) \<and>
        (has_type g (subj t) ''BrokerConfig'' \<and> p = PARTICIPANT_LINK \<and> read_participant parse g (obj t) = Inr e \<or>
         p \<in> set PARTICIPANT_PROPERTIES \<and> read_participant parse g (subj t) = Inr e)) \<or>
     (\<exists>h. (\<forall>c. crawler_config st = Some c \<longrightarrow> pc_holder c = Some h) \<and>
        (has_type g (subj t) ''BrokerConfig'' \<and> p = HOLDER_LINK \<and> read_holder parse g (obj t) = Inr h \<or>
         p \<in> set HOLDER_PROPERTIES \<and> read_holder parse g (subj t) = Inr h))"


section \<open>Where credentials go\<close>

fun outgoing_url :: "outgoing \<Rightarrow> string" where
  "outgoing_url (CatalogRequest u header body) = u"
| "outgoing_url (FormPost u form) = u"

text \<open>Two networks that answer alike at protected endpoints.\<close>

definition same_protected :: "(string \<Rightarrow> string + parsed_url) \<Rightarrow> (outgoing \<Rightarrow> http_reply) \<Rightarrow> (outgoing \<Rightarrow> http_reply) \<Rightarrow> bool" where
  "same_protected parse post post' \<longleftrightarrow> (\<forall>r. endpoint_protected parse (outgoing_url r) \<longrightarrow> post r = post' r)"

lemma configured_participant:
  assumes "from_graph parse g = Inr st" "crawler_config st = Some c" "e \<in> set (pc_participants c)"
  shows "gate_ok (pc_holder c) e \<and> (\<exists>n. read_participant parse g n = Inr e)"
proof -
  have "subjects_of_type g ''BrokerConfig'' \<noteq> []"
    using from_graph_no_config [OF assms(1)] assms(2) by (auto simp: broker_settings_default_def)
  then obtain st0 participants holders where "read_crawler parse st0 g ConfigResource participants holders = Inr (crawler_config st)"
    using from_graph_config [OF assms(1)] by metis
  from read_crawler_ok(4) [OF this assms(2,3)] show ?thesis by blast
qed

text \<open>
  Claim C27. Under an accepted configuration a participant with a credential protocol has what the protocol needs, and
  its crawl depends on no endpoint but ones reached over https or on this machine: the result, and what becomes of
  the holder, are the same on two networks that differ anywhere else.
\<close>

theorem gated_crawl_needs_protected:
  assumes "from_graph parse g = Inr st" "crawler_config st = Some c" "e \<in> set (pc_participants c)" "pe_protocol e \<noteq> ProtocolNone"
    "same_protected parse post post'"
  shows "gate_ok (pc_holder c) e \<and> crawl_one E post dr max_bytes e holder = crawl_one E post' dr max_bytes e holder"
proof -
  obtain n where n: "read_participant parse g n = Inr e" and gate: "gate_ok (pc_holder c) e"
    using configured_participant [OF assms(1-3)] by blast
  note ep = read_participant_ok(1,2) [OF n]
  have "post (CatalogRequest (catalog_request_url e) h b) = post' (CatalogRequest (catalog_request_url e) h b)" for h b
    using assms(5) ep(1) [OF assms(4)] by (simp add: same_protected_def)
  then have fetch: "fetch_catalog E post u max_bytes e = fetch_catalog E post' u max_bytes e" for u
    by (intro ext) (simp add: fetch_catalog_def)
  have "post (FormPost uri fs) = post' (FormPost uri fs)" if "oid4vp_response_uri e = Some uri" for uri fs
    using assms(5) ep(2) [OF that] by (simp add: same_protected_def)
  then have "authorization E post dr max_bytes e holder = authorization E post' dr max_bytes e holder"
    by (auto simp: authorization_def present_oid4vp_def split: credential_protocol.split option.split)
  then show ?thesis using fetch gate by (simp add: crawl_one_def)
qed

section \<open>Limits that let the broker work\<close>

lemma checked_values:
  assumes "from_graph parse g = Inr st" "kv \<in> set (setting_values st)"
  shows "check_value kv = Inr ()"
proof (cases "subjects_of_type g ''BrokerConfig'' = []")
  case True
  then show ?thesis using from_graph_no_config [OF assms(1)] assms(2) by (simp add: broker_settings_default_def)
next
  case False
  then show ?thesis using from_graph_config [OF assms(1)] assms(2) by metis
qed

lemma find_by_key: "distinct (map f xs) \<Longrightarrow> x \<in> set xs \<Longrightarrow> find (\<lambda>y. f y = f x) xs = Some x"
  by (induction xs) auto

lemma distinct_settings: "distinct (map property ALL_SETTINGS)"
  by code_simp

lemma parse_positive: "parse_positive_integer v = Some n \<Longrightarrow> 0 < n"
  by (simp add: parse_positive_integer_def split: option.splits if_splits)

lemma positive_integer_pos: "positive_integer st s = Some n \<Longrightarrow> 0 < n"
  by (auto simp: positive_integer_def bind_eq_Some_conv dest: parse_positive)

lemma checked_positive:
  assumes "from_graph parse g = Inr st" "s \<in> set ALL_SETTINGS" "setting_kind s = PositiveInteger" "setting_get st s = Some v"
  shows "\<exists>n>0. positive_integer st s = Some n"
proof -
  have c: "check_value (property s, v) = Inr ()"
    using assms(4) by (auto simp: setting_get_def dest!: map_of_SomeD intro: checked_values [OF assms(1)])
  have "find (\<lambda>x. property x = property s) ALL_SETTINGS = Some s"
    by (rule find_by_key [OF distinct_settings assms(2)])
  then have "setting_check s v = Inr ()"
    using c by (simp add: check_value_def map_error_Inr)
  then have "parse_positive_integer v \<noteq> None" using assms(3) by (auto simp: setting_check_def split: if_splits)
  then obtain n where "parse_positive_integer v = Some n" by blast
  then show ?thesis
    using assms(4) parse_positive by (auto simp: positive_integer_def setting_get_def)
qed

text \<open>No accepted configuration stops the broker from answering queries or crawling: every limit is positive.\<close>

lemma limits_positive:
  assumes "0 < max_permits"
  shows "0 < sparql_timeout (sparql_limits_from_settings max_permits st)"
    "0 < sparql_max_rows (sparql_limits_from_settings max_permits st)"
    "0 < max_concurrent (sparql_limits_from_settings max_permits st)"
    "0 < participant_timeout (crawl_limits_from_settings st)" "0 < concurrency (crawl_limits_from_settings st)"
    "0 < max_response_bytes (crawl_limits_from_settings st)" "0 < max_catalog_age (crawl_limits_from_settings st)"
proof -
  have pos: "0 < d \<Longrightarrow> 0 < k \<Longrightarrow> 0 < (case positive_integer st s of Some n \<Rightarrow> n * k | None \<Rightarrow> d)" for s and d k :: nat
    using positive_integer_pos by (cases "positive_integer st s") simp_all
  note pos1 = pos [where k = 1, unfolded mult_1_right]
  show "0 < sparql_timeout (sparql_limits_from_settings max_permits st)"
    "0 < sparql_max_rows (sparql_limits_from_settings max_permits st)"
    "0 < max_concurrent (sparql_limits_from_settings max_permits st)"
    using assms by (simp_all add: sparql_limits_from_settings_def sparql_limits_config_default_def pos1)
  show "0 < participant_timeout (crawl_limits_from_settings st)" "0 < concurrency (crawl_limits_from_settings st)"
    "0 < max_response_bytes (crawl_limits_from_settings st)" "0 < max_catalog_age (crawl_limits_from_settings st)"
    by (simp_all add: crawl_limits_from_settings_def crawl_limits_default_def DEFAULT_MAX_RESPONSE_BYTES_def pos pos1)
qed

section \<open>Examples\<close>

definition sample_parse :: "string \<Rightarrow> string + parsed_url" where
  "sample_parse u =
     (case strip_prefix ''https://'' u of
        Some rest \<Rightarrow> Inr \<lparr>url_scheme = ''https'', url_host = Some rest, url_file_path = None, url_redacted = u, url_text = u\<rparr>
      | None \<Rightarrow> Inl ''relative URL without a base'')"

definition broker_triple :: "string \<Rightarrow> string \<Rightarrow> rdf_term \<Rightarrow> triple" where
  "broker_triple s local x = \<lparr>subj = NamedNode s, pred = broker_node local, obj = x\<rparr>"

definition class_triple :: "string \<Rightarrow> string \<Rightarrow> triple" where
  "class_triple s cls = \<lparr>subj = NamedNode s, pred = rdf_type, obj = NamedNode (broker_node cls)\<rparr>"

definition sample_config :: config_graph where
  "sample_config =
     [class_triple ''c'' ''BrokerConfig'', broker_triple ''c'' ''crawlIntervalSecs'' (string_literal ''60''),
      broker_triple ''c'' ''participant'' (NamedNode ''p''), broker_triple ''c'' ''holder'' (NamedNode ''h''),
      class_triple ''p'' ''Participant'', broker_triple ''p'' ''participantId'' (string_literal ''n''),
      broker_triple ''p'' ''participantName'' (string_literal ''N''),
      broker_triple ''p'' ''catalogRequestUrl'' (NamedNode ''https://n''),
      broker_triple ''p'' ''credentialProtocol'' (string_literal ''dcp''),
      broker_triple ''p'' ''providerDid'' (string_literal ''did:web:n''),
      class_triple ''h'' ''Holder'', broker_triple ''h'' ''ownDidHost'' (string_literal ''b''),
      broker_triple ''h'' ''credentialJwsFile'' (string_literal ''j''),
      broker_triple ''h'' ''requiredScope'' (string_literal ''s'')]"

definition sample_entry :: participant_entry where
  "sample_entry = \<lparr>pe_part_id = ''n'', pe_name = ''N'', catalog_request_url = ''https://n'', pe_protocol = ProtocolDcp,
     provider_did = Some ''did:web:n'', oid4vp_response_uri = None\<rparr>"

definition sample_holder :: holder_config where
  "sample_holder = \<lparr>hc_own_did_host = ''b'', hc_insecure_http = False, credential_jws_file = ''j'', hc_required_scope = ''s''\<rparr>"

definition sample_settings :: broker_settings where
  "sample_settings = \<lparr>setting_values = [(''crawlIntervalSecs'', ''60'')],
     crawler_config = Some \<lparr>interval_secs = 60, pc_participants = [sample_entry], pc_holder = Some sample_holder\<rparr>,
     config_source = None\<rparr>"

lemma strip_broker [simp]: "strip_prefix BROKER_NS (broker_node l) = Some l" "strip_prefix BROKER_NS rdf_type = None"
    "rdf_type \<noteq> broker_node l" "broker_node l \<noteq> rdf_type"
  by (simp_all add: broker_node_def BROKER_NS_def rdf_type_def RDF_TYPE_IRI_def strip_prefix_def)

lemmas sample_graph = sample_config_def broker_triple_def class_triple_def string_literal_def

lemma sample_properties:
  "node_properties sample_config (NamedNode ''c'') =
     [(''crawlIntervalSecs'', [string_literal ''60'']), (''holder'', [NamedNode ''h'']), (''participant'', [NamedNode ''p''])]"
  "node_properties sample_config (NamedNode ''p'') =
     [(''catalogRequestUrl'', [NamedNode ''https://n'']), (''credentialProtocol'', [string_literal ''dcp'']),
      (''participantId'', [string_literal ''n'']), (''participantName'', [string_literal ''N'']),
      (''providerDid'', [string_literal ''did:web:n''])]"
  "node_properties sample_config (NamedNode ''h'') =
     [(''credentialJwsFile'', [string_literal ''j'']), (''ownDidHost'', [string_literal ''b'']),
      (''requiredScope'', [string_literal ''s''])]"
  by (simp_all add: node_properties_def sample_graph push_term.simps)

lemma sample_types:
  "subjects_of_type sample_config ''BrokerConfig'' = [NamedNode ''c'']"
  "subjects_of_type sample_config ''Participant'' = [NamedNode ''p'']"
  "subjects_of_type sample_config ''Holder'' = [NamedNode ''h'']"
  "has_type sample_config (NamedNode ''p'') ''Participant''" "has_type sample_config (NamedNode ''h'') ''Holder''"
  by (simp_all add: subjects_of_type_def has_type_def sample_graph)

lemma sample_guards:
  "reject_unknown_classes sample_config = Inr ()"
  "reject_unattached sample_config [NamedNode ''c'', NamedNode ''p'', NamedNode ''h''] = Inr ()"
  by (simp_all add: reject_unknown_classes_def reject_unattached_def reject_first_def sample_graph broker_term_def
      broker_class_def KNOWN_CLASSES_def)

lemma sample_participant_read: "read_participant sample_parse sample_config (NamedNode ''p'') = Inr sample_entry"
proof -
  have t: "trim ''n'' = ''n''" "trim ''N'' = ''N''" by code_simp+
  have d: "is_did ''did:web:n''" by code_simp
  have u: "sample_parse ''https://n'' = Inr \<lparr>url_scheme = ''https'', url_host = Some ''n'', url_file_path = None,
      url_redacted = ''https://n'', url_text = ''https://n''\<rparr>"
    by (simp add: sample_parse_def strip_prefix_def)
  show ?thesis
    by (simp add: read_participant_def properties_read_def Let_def sample_properties single_values_def PARTICIPANT_PROPERTIES_def
        property_names string_literal_def read_protocol_def optional_def credential_protocol_from_str_def non_empty_def
        required_def optional_endpoint_url_def IRI_VALUED_def u url_allowed_def remote_allowed_def optional_did_def d t
        only_for_def sample_entry_def)
qed

lemma sample_holder_read: "read_holder sample_parse sample_config (NamedNode ''h'') = Inr sample_holder"
proof -
  have t: "trim ''j'' = ''j''" "\<not> eq_ignore_ascii_case ''j'' ''file:''" "\<not> contains_str ''://'' ''j''"
    by (code_simp, simp add: eq_ignore_ascii_case_def, auto simp: contains_str_def dest: sublist_length_le)
  show ?thesis
    by (simp add: read_holder_def properties_read_def Let_def sample_properties single_values_def HOLDER_PROPERTIES_def
        property_names string_literal_def read_insecure_def optional_def credential_file_def t required_def sample_holder_def)
qed

lemma sample_interval: "parse_positive_integer ''60'' = Some 60"
proof -
  have "trim ''60'' = ''60''" by code_simp
  then show ?thesis by (simp add: parse_positive_integer_def parse_usize_def is_digit_def digit_val_def)
qed

lemma sample_crawler_read:
  "read_crawler sample_parse \<lparr>setting_values = [(''crawlIntervalSecs'', ''60'')], crawler_config = None, config_source = None\<rparr>
     sample_config ConfigResource [NamedNode ''p''] [NamedNode ''h'']
   = Inr (Some \<lparr>interval_secs = 60, pc_participants = [sample_entry], pc_holder = Some sample_holder\<rparr>)"
proof -
  have c: "participants_config_new i [sample_entry] (Some sample_holder) =
      Inr \<lparr>interval_secs = i, pc_participants = [sample_entry], pc_holder = Some sample_holder\<rparr>" for i
    by (simp add: participants_config_new_def sample_entry_def)
  show ?thesis
    by (simp add: read_crawler_def reject_unlinked_def reject_first_def sample_types linked_def sample_participant_read
        sample_holder_read Let_def positive_integer_def CRAWL_INTERVAL_SECS_def sample_interval c)
qed

lemma sample_accepted: "from_graph sample_parse sample_config = Inr sample_settings"
proof -
  have known: "CRAWL_INTERVAL_SECS \<in> set ALL_SETTINGS" "property CRAWL_INTERVAL_SECS = ''crawlIntervalSecs''"
    by (simp_all add: ALL_SETTINGS_def CRAWL_INTERVAL_SECS_def)
  then have f: "find (\<lambda>s. property s = ''crawlIntervalSecs'') ALL_SETTINGS = Some CRAWL_INTERVAL_SECS"
    using find_by_key [OF distinct_settings known(1)] by simp
  have v: "from_values [(''crawlIntervalSecs'', ''60'')]
      = Inr \<lparr>setting_values = [(''crawlIntervalSecs'', ''60'')], crawler_config = None, config_source = None\<rparr>"
    by (simp add: from_values_def btree_of_list_def Let_def check_value_def f setting_check_def)
      (simp add: CRAWL_INTERVAL_SECS_def sample_interval)
  have known: "''crawlIntervalSecs'' \<in> property ` set ALL_SETTINGS"
    using known by force
  show ?thesis
    by (simp add: from_graph_def sample_guards sample_types Let_def link_targets_def sample_properties PARTICIPANT_LINK_def
        HOLDER_LINK_def single_values_def known setting_value_def string_literal_def v sample_crawler_read sample_settings_def)
qed


theorem gated_crawl_needs_protected_witness:
  "\<forall>post dr holder. crawl_one sample_jose post dr 1000 sample_entry holder =
     crawl_one sample_jose (\<lambda>r. if outgoing_url r = ''http://n'' then TransportError [] else post r) dr 1000 sample_entry holder"
proof (intro allI)
  fix post dr holder
  let ?post = "\<lambda>r. if outgoing_url r = ''http://n'' then TransportError [] else post r"
  have c: "crawler_config sample_settings =
      Some \<lparr>interval_secs = 60, pc_participants = [sample_entry], pc_holder = Some sample_holder\<rparr>"
    by (simp add: sample_settings_def)
  have e: "sample_entry \<in> set (pc_participants \<lparr>interval_secs = 60, pc_participants = [sample_entry], pc_holder = Some sample_holder\<rparr>)"
    and g: "pe_protocol sample_entry \<noteq> ProtocolNone" by (simp_all add: sample_entry_def)
  have s: "same_protected sample_parse post ?post"
    by (auto simp: same_protected_def endpoint_protected_def sample_parse_def strip_prefix_def)
  show "crawl_one sample_jose post dr 1000 sample_entry holder = crawl_one sample_jose ?post dr 1000 sample_entry holder"
    using gated_crawl_needs_protected [OF sample_accepted c e g s] by blast
qed

end
