(* ===== verification/Startup.thy ===== *)
theory Startup
  imports Broker_Config
begin

text \<open>
  From an accepted configuration to the state the broker serves from: \<open>main\<close> and \<open>load_oauth2_config\<close> of
  \<open>crates/ds-catalog-broker-rs/src/main.rs\<close>, \<open>start\<close> of \<open>serving.rs\<close> and \<open>PolicyFilterConfig::from_settings\<close> of
  \<open>odrl_filter.rs\<close>. A panic at startup is an error.
\<close>

section \<open>Reading the parts of the state\<close>

datatype startup_error =
    ConfigFailed broker_config_error
  | JwksFailed jwks_error
  | HolderFailed config_error
  | UnreachableSetting string

definition policy_filter_from_settings :: "broker_settings \<Rightarrow> startup_error + policy_filter_config" where
  "policy_filter_from_settings st =
     rbind (case setting_get st POLICY_FILTER_UNMAPPABLE_CONSTRAINT_ACTION of
              None \<Rightarrow> Inr (unmappable_action policy_filter_config_default)
            | Some v \<Rightarrow>
                if v = ''skip'' then Inr SkipConstraint else if v = ''drop_policy'' then Inr DropPolicy
                else if v = ''hide_dataset'' then Inr HideDataset else Inl (UnreachableSetting v)) (\<lambda>action.
     rbind (case setting_get st POLICY_FILTER_NO_POLICY_VISIBILITY of
              None \<Rightarrow> Inr (no_policy policy_filter_config_default)
            | Some v \<Rightarrow>
                if v = ''open'' then Inr VisOpen else if v = ''closed'' then Inr VisClosed else Inl (UnreachableSetting v)) (\<lambda>visibility.
       Inr \<lparr>unmappable_action = action, no_policy = visibility,
         filter_when_oauth2_disabled =
           (case boolean_setting st POLICY_FILTER_RUN_WHEN_OAUTH2_DISABLED of Some b \<Rightarrow> b
            | None \<Rightarrow> filter_when_oauth2_disabled policy_filter_config_default)\<rparr>))"

definition load_oauth2_config :: "broker_settings \<Rightarrow> oauth2_config option" where
  "load_oauth2_config st =
     map_option (\<lambda>uri. \<lparr>jwks_uri = uri, issuer = setting_get st OAUTH2_ISSUER, audience = setting_get st OAUTH2_AUDIENCE,
       required_scope = setting_get st OAUTH2_REQUIRED_SCOPE\<rparr>) (setting_get st OAUTH2_JWKS_URI)"

definition build_holder ::
    "jose \<Rightarrow> (string \<Rightarrow> string + string) \<Rightarrow> string \<Rightarrow> holder_config \<Rightarrow> startup_error + holder_identity" where
  "build_holder E read_to_string random_key hc =
     rbind (map_error HolderFailed (read_credential_jws E read_to_string hc)) (\<lambda>jws.
       Inr (holder_new E random_key (hc_own_did_host hc) (hc_insecure_http hc) jws (hc_required_scope hc)))"

text \<open>What runs beside the routes: the holder, whether a crawl needs its call-backs, and the crawler with its limits.\<close>

record serving_parts =
  serving_holder :: "holder_identity option"
  serving_crawler :: "(participants_config \<times> crawl_limits) option"
  serving_needs_callbacks :: bool

definition serving_start ::
    "jose \<Rightarrow> (string \<Rightarrow> string + string) \<Rightarrow> string \<Rightarrow> broker_settings \<Rightarrow> startup_error + serving_parts" where
  "serving_start E read_to_string random_key st =
     (case crawler_config st of
        None \<Rightarrow> Inr \<lparr>serving_holder = None, serving_crawler = None, serving_needs_callbacks = False\<rparr>
      | Some config \<Rightarrow>
          rbind (case pc_holder config of
                   None \<Rightarrow> Inr None
                 | Some hc \<Rightarrow> rbind (build_holder E read_to_string random_key hc) (\<lambda>h. Inr (Some h))) (\<lambda>holder.
            Inr \<lparr>serving_holder = holder, serving_crawler = Some (config, crawl_limits_from_settings st),
              serving_needs_callbacks = list_ex (\<lambda>p. pe_protocol p \<noteq> ProtocolNone) (pc_participants config)\<rparr>))"

section \<open>Startup\<close>

definition fetch_gate ::
    "'k jwt_library \<Rightarrow> (string \<Rightarrow> http_reply) \<Rightarrow> broker_settings \<Rightarrow> startup_error + 'k oauth2_verifier option" where
  "fetch_gate J get st =
     (case load_oauth2_config st of
        None \<Rightarrow> Inr None
      | Some config \<Rightarrow> rbind (map_error JwksFailed (fetch_verifier J get config)) (\<lambda>V. Inr (Some V)))"

definition broker_start ::
    "(string \<Rightarrow> string + parsed_url) \<Rightarrow> config_world \<Rightarrow> 'k jwt_library \<Rightarrow> (string \<Rightarrow> http_reply) \<Rightarrow> jose \<Rightarrow>
     (string \<Rightarrow> string + string) \<Rightarrow> string \<Rightarrow> nat \<Rightarrow> crawl_status \<Rightarrow>
     startup_error + 'k app_state \<times> (participants_config \<times> crawl_limits) option" where
  "broker_start parse W J get E read_to_string random_key max_permits initial_status =
     rbind (map_error ConfigFailed (load_settings parse W)) (\<lambda>st.
     rbind (fetch_gate J get st) (\<lambda>verifier.
     rbind (serving_start E read_to_string random_key st) (\<lambda>parts.
     rbind (policy_filter_from_settings st) (\<lambda>filter_config.
       let S0 = app_state_new\<lparr>app_holder := serving_holder parts, app_oauth2 := verifier, policy_filter := filter_config\<rparr>;
           S1 = with_sparql_limits max_permits (sparql_limits_from_settings max_permits st) S0
       in Inr (S1\<lparr>app_crawl_status := map_option (\<lambda>_. initial_status) (serving_crawler parts),
              crawl_needs_holder_callbacks := serving_needs_callbacks parts\<rparr>,
            serving_crawler parts)))))"

section \<open>What a started broker has\<close>

definition settings_ok :: "broker_settings \<Rightarrow> bool" where
  "settings_ok st \<longleftrightarrow> (\<forall>kv\<in>set (setting_values st). check_value kv = Inr ()) \<and>
     (\<forall>c. crawler_config st = Some c \<longrightarrow> (\<forall>p\<in>set (pc_participants c). gate_ok (pc_holder c) p))"

lemma default_settings_ok: "settings_ok broker_settings_default"
  by (simp add: settings_ok_def broker_settings_default_def)

lemma graph_settings_ok:
  assumes "from_graph parse g = Inr st"
  shows "settings_ok st"
proof -
  have "check_value kv = Inr ()" if "kv \<in> set (setting_values st)" for kv
    using checked_values [OF assms that] .
  then show ?thesis using configured_participant [OF assms] by (auto simp: settings_ok_def)
qed

lemma source_settings_ok [simp]: "settings_ok (st\<lparr>config_source := l\<rparr>) = settings_ok st"
  by (simp add: settings_ok_def)

lemma location_settings_ok: "from_location parse W l = Inr st \<Longrightarrow> settings_ok st"
  by (auto simp: from_location_def from_turtle_def result_simps Let_def graph_settings_ok
      split: config_location.splits if_splits)

lemma loaded_settings_ok: "load_settings parse W = Inr st \<Longrightarrow> settings_ok st"
  by (auto simp: load_settings_def result_simps default_settings_ok dest!: location_settings_ok split: option.splits if_splits)

lemma checked_setting:
  assumes "settings_ok st" "s \<in> set ALL_SETTINGS" "setting_get st s = Some v"
  shows "setting_check s v = Inr ()"
proof -
  have "check_value (property s, v) = Inr ()"
    using assms(1,3) by (auto simp: settings_ok_def setting_get_def dest!: map_of_SomeD)
  then show ?thesis
    using find_by_key [OF distinct_settings assms(2)] by (simp add: check_value_def map_error_Inr)
qed

lemma checked_choice:
  assumes "settings_ok st" "s \<in> set ALL_SETTINGS" "setting_kind s = OneOf allowed" "setting_get st s = Some v"
  shows "v \<in> set allowed"
  using checked_setting [OF assms(1,2,4)] assms(3) by (simp add: setting_check_def split: if_splits)

text \<open>Neither \<open>unreachable!\<close> of \<open>PolicyFilterConfig::from_settings\<close> is reached.\<close>

lemma policy_filter_never_panics: "settings_ok st \<Longrightarrow> \<exists>c. policy_filter_from_settings st = Inr c"
proof -
  assume ok: "settings_ok st"
  have s: "POLICY_FILTER_UNMAPPABLE_CONSTRAINT_ACTION \<in> set ALL_SETTINGS" "POLICY_FILTER_NO_POLICY_VISIBILITY \<in> set ALL_SETTINGS"
    by (simp_all add: ALL_SETTINGS_def)
  have k: "setting_kind POLICY_FILTER_UNMAPPABLE_CONSTRAINT_ACTION = OneOf UNMAPPABLE_CONSTRAINT_ACTIONS"
    "setting_kind POLICY_FILTER_NO_POLICY_VISIBILITY = OneOf NO_POLICY_VISIBILITIES"
    by (simp_all add: POLICY_FILTER_UNMAPPABLE_CONSTRAINT_ACTION_def POLICY_FILTER_NO_POLICY_VISIBILITY_def)
  note c = checked_choice [OF ok s(1) k(1)] checked_choice [OF ok s(2) k(2)]
  show ?thesis
    using c unfolding UNMAPPABLE_CONSTRAINT_ACTIONS_def NO_POLICY_VISIBILITIES_def
    by (cases "setting_get st POLICY_FILTER_UNMAPPABLE_CONSTRAINT_ACTION"; cases "setting_get st POLICY_FILTER_NO_POLICY_VISIBILITY")
      (auto simp: policy_filter_from_settings_def)
qed

lemma serving_start_ok:
  assumes "serving_start E rd k st = Inr parts"
  shows "serving_crawler parts = map_option (\<lambda>c. (c, crawl_limits_from_settings st)) (crawler_config st)"
    "\<And>c. crawler_config st = Some c \<Longrightarrow> (serving_holder parts \<noteq> None \<longleftrightarrow> pc_holder c \<noteq> None) \<and>
       (serving_needs_callbacks parts \<longleftrightarrow> (\<exists>p\<in>set (pc_participants c). pe_protocol p \<noteq> ProtocolNone))"
  using assms by (auto simp: serving_start_def result_simps list_ex_iff split: option.splits)

lemma map_error_Inl: "map_error f r = Inl e \<longleftrightarrow> (\<exists>x. r = Inl x \<and> e = f x)"
  by (cases r) auto


text \<open>A broker whose configuration names a key set and nothing else.\<close>

definition gate_config :: config_graph where
  "gate_config = [class_triple ''c'' ''BrokerConfig'',
     broker_triple ''c'' ''oauth2JwksUri'' (string_literal ''https://idp.example/jwks'')]"

definition gate_world :: config_world where
  "gate_world = \<lparr>is_dir = (\<lambda>_. False), read_file = Inr, file_base = (\<lambda>_. None), fetch_config = Inl,
     parse_turtle = (\<lambda>_ _. Inr gate_config), join_path = (@), env_location = Some ''config.ttl'', per_user_default = None,
     is_file = (\<lambda>_. True)\<rparr>"


end
