(* ===== verification/Harvest_Store.thy ===== *)
theory Harvest_Store
  imports Harvester Crawl_To_Store Dcp_Holder
begin

text \<open>
  The harvester over the quad store: the contract \<open>cache_writes\<close> holds for the store under any storage fault, so what
  a cycle does to the catalogs served and to the status reported is stated of the two together, for every state
  a harvester reaches from an empty store.
\<close>

fun write_fault :: "fault \<Rightarrow> store_error + unit" where
  "write_fault NoFault = Inr ()"
| "write_fault (StartFault msg) = Inl (Backend msg)"
| "write_fault (TransactionFault msg) = Inl (Backend msg)"

context iri_codec
begin

lemma represents_sequence: "represents K (db\<lparr>write_sequence := w\<rparr>) m \<longleftrightarrow> represents K db m"
  by (simp add: represents_def)

sublocale writes: cache_writes "store_catalog K" "remove_catalog K" "represents K" "storable K" write_fault
proof
  fix s m c f
  assume h: "represents K s m" "storable K c"
  then have w: "write_catalog K c = Inr (catalog_triples K c)"
    by (simp add: write_catalog_ok storable_def catalog_wf_def)
  then show "fst (store_catalog K f c s) = write_fault f"
    by (cases f) (simp_all add: store_catalog_def)
  show "represents K (snd (store_catalog K f c s)) (if isl (write_fault f) then m else m(origin_node c \<mapsto> c))"
    using h w represents_replace [OF h(1) refl h(2)]
    by (cases f) (simp_all add: store_catalog_def represents_sequence)
next
  fix s m f n
  assume h: "represents K s m"
  have "remove_catalog K NoFault n s = (fst (remove_catalog K NoFault n s), snd (remove_catalog K NoFault n s))" by simp
  note removed = store.delete_any [OF h this]
  show "represents K (snd (remove_catalog K f n s)) (if isl (fst (remove_catalog K f n s)) then m else m(n := None))"
  proof (cases "list_ex (\<lambda>(g, t). g = GraphNode (node_iri K n)) (db_quads s)")
    case True
    then show ?thesis using h removed
      by (cases f) (simp_all add: remove_catalog_def Let_def represents_sequence)
  next
    case False
    then have "m n = None" using removed by (simp add: remove_catalog_def Let_def)
    then have "m(n := None) = m" by (simp add: fun_upd_idem)
    then show ?thesis using h False by (cases f) (simp_all add: remove_catalog_def Let_def)
  qed
qed

lemma write_laws: "cache_writes (store_catalog K) (remove_catalog K) (represents K) (storable K) write_fault"
  by (rule writes.cache_writes_axioms)

lemma crawled_good:
  assumes "\<forall>i<length ps. \<forall>c. fetched E limits envs holder i (ps ! i) = Inr c \<longrightarrow> catalog_vecs c"
  shows "\<forall>i<length ps. \<forall>c. fetched E limits envs holder i (ps ! i) = Inr c \<longrightarrow> storable K c"
proof (intro allI impI)
  fix i c assume i: "i < length ps" and c: "fetched E limits envs holder i (ps ! i) = Inr c"
  then obtain holder' where "crawl_one E (ce_post (envs i)) (ce_draws (envs i)) (max_response_bytes limits) (ps ! i) holder
      = (Inr c, holder')" by (metis fetched_def prod.collapse)
  then obtain body where "c = parse_catalog_response (json_print E) (dr_uuid (ce_draws (envs i))) body (ps ! i)"
    using crawled_body by blast
  then show "storable K c" using crawled_storable [OF iri_codec_axioms] assms i c by simp
qed

end

text \<open>
  Claim C11. A crawl cycle refines one update of the map from participants to catalogs, the same under every
  interleaving of its crawls: exactly the catalogs that were fetched in time, read and written replace those of
  their participants, a participant that fails keeps the catalog it had, and the summary lists successes
  and failures in the order of the configuration, each participant in one of the two.
\<close>

theorem cycle_refines_map:
  assumes "iri_codec K" "represents K db m" "distinct (map pe_part_id ps)"
    "\<forall>i<length ps. \<forall>c. fetched E limits envs holder i (ps ! i) = Inr c \<longrightarrow> catalog_vecs c"
    "crawl_once E (store_catalog K) limits envs evs ps holder db = Some (summary, db', holder')"
  shows "represents K db' (m ++ map_of (cycle_catalogs E write_fault limits envs holder (enumerate 0 ps))) \<and>
    succeeded_ids summary = map fst (cycle_catalogs E write_fault limits envs holder (enumerate 0 ps)) \<and>
    failures summary = cycle_failures E write_fault limits envs holder (enumerate 0 ps) \<and>
    attempted summary = length ps \<and> succeeded summary + failed summary = length ps"
proof -
  note r = cache_writes.crawl_once_result [OF iri_codec.write_laws [OF assms(1)] assms(5,2,3)
      iri_codec.crawled_good [OF assms(1,4)], folded cycle_summary_def]
  then show ?thesis
    using cycle_total [of E write_fault limits envs holder "enumerate 0 ps"] by (simp add: cycle_summary_eq)
qed

section \<open>Reachable harvesters\<close>

text \<open>
  The harvesters reached from an empty store, with the number of cycles completed. Each catalog a cycle reads has
  vectors for its lists.
\<close>

inductive harvested :: "jose \<Rightarrow> codec \<Rightarrow> rdf_db harvester \<Rightarrow> nat \<Rightarrow> bool" for E K where
  new: "participants_config_new interval ps hc = Inr config \<Longrightarrow>
    harvested E K (harvester_new empty_db (pc_participants config) holder limits) 0"
| cycle: "harvested E K h k \<Longrightarrow>
    run_cycle E (store_catalog K) (remove_catalog K) x h = Some (report, h') \<Longrightarrow>
    \<forall>i<length (hv_participants h). \<forall>c.
      fetched E (hv_limits h) (cx_crawls x) (hv_holder h) i (hv_participants h ! i) = Inr c \<longrightarrow> catalog_vecs c \<Longrightarrow>
    harvested E K h' (Suc k)"

lemma harvester_new_inv:
  "harvester_inv (represents K) (harvester_new empty_db ps holder limits) (\<lambda>_. None)"
proof -
  let ?st = "btree_of_list (map (\<lambda>p. (pe_part_id p, participant_status_default)) ps)"
  have entries: "map_of ?st n = (if n \<in> pe_part_id ` set ps then Some participant_status_default else None)" for n
  proof -
    have "map_of (fold (\<lambda>(k, v). btree_insert k v) (map (\<lambda>p. (pe_part_id p, participant_status_default)) qs) b) n =
        (if n \<in> pe_part_id ` set qs then Some participant_status_default else map_of b n)" for qs b
      by (induction qs arbitrary: b) auto
    from this [of ps "[]"] show ?thesis by (simp add: btree_of_list_def)
  qed
  then have "cached_flag ?st n = False" for n by (simp add: cached_flag_def participant_status_default_def)
  moreover have "dom (map_of ?st) = pe_part_id ` set ps" using entries by (auto simp: domIff split: if_splits)
  ultimately show ?thesis
    by (simp add: harvester_inv_def harvester_new_def represents_empty)
qed

lemma harvested_inv:
  assumes "iri_codec K" "harvested E K h k"
  shows "(\<exists>m. harvester_inv (represents K) h m) \<and> distinct (map pe_part_id (hv_participants h)) \<and>
    cycles_completed (hv_status h) = of_nat k"
  using assms(2)
proof induction
  case (new interval ps hc config holder limits)
  then have "distinct (map pe_part_id (pc_participants config))" by (auto simp: config_new_ok)
  moreover have "cycles_completed (hv_status (harvester_new empty_db (pc_participants config) holder limits)) = of_nat 0"
    "hv_participants (harvester_new empty_db (pc_participants config) holder limits) = pc_participants config"
    by (simp_all add: harvester_new_def)
  ultimately show ?case using harvester_new_inv by metis
next
  case (cycle h k x report h')
  then obtain m where m: "harvester_inv (represents K) h m" and ids: "distinct (map pe_part_id (hv_participants h))"
    by blast
  obtain summary expired where r: "report = (summary, expired)" by fastforce
  note run = cycle.hyps(2) [unfolded r]
  show ?case
    using cache_writes.cycle_effect(2) [OF iri_codec.write_laws [OF assms(1)] m ids
        iri_codec.crawled_good [OF assms(1) cycle.hyps(3)] run] run_cycle_frame [OF run] ids cycle.IH
    by (metis of_nat_Suc add.commute)
qed


text \<open>
  Claim C13. The status tells the truth, in every harvester reachable from an empty store: it lists exactly the
  configured participants, an entry is marked cached exactly when a query for that participant returns a
  catalog, and the counter is the number of cycles completed modulo \<open>2 ^ 64\<close>.
\<close>

theorem status_is_truthful:
  assumes "iri_codec K" "harvested E K h k"
  shows "dom (map_of (status_participants (hv_status h))) = pe_part_id ` set (hv_participants h) \<and>
    (case map_of (status_participants (hv_status h)) n of
       Some e \<Rightarrow> cached e \<longleftrightarrow> catalogs K (query_for_node n) (db_quads (hv_cache h)) \<noteq> Inr []
     | None \<Rightarrow> catalogs K (query_for_node n) (db_quads (hv_cache h)) = Inr []) \<and>
    cycles_completed (hv_status h) = of_nat k"
proof -
  obtain m where m: "harvester_inv (represents K) h m" and k: "cycles_completed (hv_status h) = of_nat k"
    using harvested_inv [OF assms] by blast
  then have q: "catalogs K (query_for_node n) (db_quads (hv_cache h)) = Inr (case m n of Some c \<Rightarrow> [c] | None \<Rightarrow> [])"
    using iri_codec.query_node_ok [OF assms(1)] by (simp add: harvester_inv_def)
  have dom: "dom (map_of (status_participants (hv_status h))) = pe_part_id ` set (hv_participants h)"
    and flag: "cached_flag (status_participants (hv_status h)) n \<longleftrightarrow> n \<in> dom m"
    and sub: "dom m \<subseteq> pe_part_id ` set (hv_participants h)"
    using m by (simp_all add: harvester_inv_def)
  show ?thesis
  proof (cases "map_of (status_participants (hv_status h)) n")
    case None
    then have "n \<notin> dom m" using dom sub by blast
    then have "m n = None" by (simp add: domIff)
    then show ?thesis using None q dom k by simp
  next
    case (Some e)
    then have "cached e \<longleftrightarrow> n \<in> dom m" using flag by (simp add: cached_flag_def)
    then show ?thesis using Some q dom k by (auto split: option.splits)
  qed
qed

section \<open>A concrete cycle\<close>

text \<open>One open participant that answers \<open>sample_response\<close>, crawled in two events.\<close>

definition sample_codecs :: jose where
  "sample_codecs = sample_jose\<lparr>json_print := \<lambda>_. []\<rparr>"

definition sample_limits :: crawl_limits where
  "sample_limits = crawl_limits_default\<lparr>max_response_bytes := length (put_json sample_response)\<rparr>"

definition sample_env :: "fault crawl_env" where
  "sample_env = \<lparr>ce_post = \<lambda>_. Reply 200 None [Inr (put_json sample_response)],
     ce_draws = \<lparr>dr_now = 0, dr_swept = 0, dr_jti = [], dr_access_jti = [], dr_nonce = [], dr_uuid = ''u''\<rparr>,
     ce_timed_out = False, ce_fault = NoFault, ce_finished_at = 5, ce_finished_instant = 5\<rparr>"

definition sample_crawled :: catalog where
  "sample_crawled = parse_catalog_response (\<lambda>_. []) ''u'' sample_response sample_participant"

lemma sample_part_id: "pe_part_id sample_participant = ''n''"
  by (simp add: sample_participant_def)

lemma sample_crawl:
  "crawl_one sample_codecs (ce_post sample_env) (ce_draws sample_env) (max_response_bytes sample_limits)
     sample_participant None = (Inr sample_crawled, None)"
proof -
  have "get_json (put_json sample_response) = Inr sample_response" by (rule get_put_json)
  then show ?thesis
    by (simp add: crawl_one_def authorization_def fetch_catalog_def sample_env_def sample_limits_def
        sample_codecs_def sample_jose_def is_success_def read_body_limited_def sample_crawled_def sample_participant_def)
qed

lemma sample_fetched: "fetched sample_codecs sample_limits (\<lambda>_. sample_env) None i sample_participant = Inr sample_crawled"
  by (simp add: fetched_def sample_crawl)

lemma sample_cached: "cached_at sample_codecs write_fault sample_limits (\<lambda>_. sample_env) None i sample_participant = Inr sample_crawled"
  by (simp add: cached_at_def sample_fetched) (simp add: sample_env_def)

lemma sample_good:
  "\<forall>i<length [sample_participant]. \<forall>c.
    fetched sample_codecs sample_limits (\<lambda>_. sample_env) None i ([sample_participant] ! i) = Inr c \<longrightarrow> catalog_vecs c"
  using sample_response_vecs by (simp add: sample_fetched sample_crawled_def)

definition sample_stored_db :: rdf_db where
  "sample_stored_db = snd (store_catalog percent_codec NoFault sample_crawled empty_db)"

lemma sample_crawled_store:
  "store_catalog percent_codec NoFault sample_crawled empty_db = (Inr (), sample_stored_db)"
proof -
  have "storable percent_codec sample_crawled"
    unfolding sample_crawled_def by (rule crawled_storable [OF percent.iri_codec_axioms sample_response_vecs])
  from percent.writes.upsert_result [OF represents_empty this] show ?thesis
    by (simp add: sample_stored_db_def prod_eq_iff)
qed

lemma sample_started:
  "cycle_run sample_codecs (store_catalog percent_codec) sample_limits (\<lambda>_. sample_env) [StartNext]
     (cycle_start [sample_participant] None empty_db) =
   Some \<lparr>cy_queue = [], cy_flight = [(0, sample_participant, Inr sample_crawled)], cy_outcomes = [],
     cy_cache = empty_db, cy_holder = None\<rparr>"
proof -
  have "concurrency sample_limits = 8" by (simp add: sample_limits_def crawl_limits_default_def)
  then show ?thesis by (simp add: cycle_start_def sample_crawl)
qed

lemma sample_once:
  "crawl_once sample_codecs (store_catalog percent_codec) sample_limits (\<lambda>_. sample_env) [StartNext, Finish 0]
     [sample_participant] None empty_db =
   Some (summarize [sample_participant] [(0, Inr (), 5, 5)], sample_stored_db, None)"
proof -
  have "crawl_and_cache (store_catalog percent_codec) sample_env sample_participant (Inr sample_crawled) empty_db
      = (Inr (), sample_stored_db)"
    using sample_crawled_store by (simp add: crawl_and_cache_def sample_env_def)
  moreover have "ce_finished_at sample_env = 5" "ce_finished_instant sample_env = 5" by (simp_all add: sample_env_def)
  moreover have "cycle_run sample_codecs (store_catalog percent_codec) sample_limits (\<lambda>_. sample_env) ([StartNext] @ [Finish 0])
      (cycle_start [sample_participant] None empty_db) =
    cycle_run sample_codecs (store_catalog percent_codec) sample_limits (\<lambda>_. sample_env) [Finish 0]
      \<lparr>cy_queue = [], cy_flight = [(0, sample_participant, Inr sample_crawled)], cy_outcomes = [],
       cy_cache = empty_db, cy_holder = None\<rparr>"
    unfolding cycle_run_append sample_started by simp
  ultimately show ?thesis by (simp add: crawl_once_def cycle_finished_def)
qed


theorem cycle_refines_map_witness:
  "represents percent_codec sample_stored_db [''n'' \<mapsto> sample_crawled] \<and>
   succeeded_ids (summarize [sample_participant] [(0, Inr (), 5, 5)]) = [''n'']"
  using cycle_refines_map [OF percent.iri_codec_axioms represents_empty _ sample_good sample_once]
  by (simp add: cycle_catalogs_def sample_cached sample_part_id)

definition sample_harvester :: "rdf_db harvester" where
  "sample_harvester = harvester_new empty_db [sample_participant] None sample_limits"

definition sample_cycle :: "fault cycle_env" where
  "sample_cycle = \<lparr>cx_crawls = \<lambda>_. sample_env, cx_events = [StartNext, Finish 0], cx_now = 7, cx_delete = \<lambda>_. NoFault,
     cx_end = 7\<rparr>"

definition sample_harvested :: "rdf_db harvester" where
  "sample_harvested = sample_harvester\<lparr>hv_cache := sample_stored_db, hv_last_success := [(''n'', 5)],
     hv_status := record_status (summarize [sample_participant] [(0, Inr (), 5, 5)]) [] 7 (hv_status sample_harvester)\<rparr>"

lemma sample_new: "harvested sample_codecs percent_codec sample_harvester 0"
proof -
  have "participants_config_new 60 [sample_participant] None =
      Inr \<lparr>interval_secs = 60, pc_participants = [sample_participant], pc_holder = None\<rparr>"
    by (simp add: participants_config_new_def sample_participant_def)
  from harvested.new [OF this, of sample_codecs percent_codec None sample_limits] show ?thesis
    by (simp add: sample_harvester_def)
qed

lemma sample_cycle_run:
  "run_cycle sample_codecs (store_catalog percent_codec) (remove_catalog percent_codec) sample_cycle sample_harvester =
   Some ((summarize [sample_participant] [(0, Inr (), 5, 5)], []), sample_harvested)"
proof -
  let ?sm = "summarize [sample_participant] [(0, Inr (), 5, 5)]"
  have "note_successes ?sm 7 [] = [(''n'', 5)]"
    by (simp add: note_successes_def summarize_def add_outcome_def crawl_summary_default_def sample_part_id Let_def)
  moreover have "stale_ids 7 (max_catalog_age sample_limits) [(''n'', 5)] = []"
    by (simp add: stale_ids_def sample_limits_def crawl_limits_default_def)
  ultimately show ?thesis
    using sample_once by (simp add: run_cycle_def sample_harvester_def sample_cycle_def harvester_new_def sample_harvested_def Let_def)
qed

lemma sample_cycle_good:
  "\<forall>i<length (hv_participants sample_harvester). \<forall>c.
    fetched sample_codecs (hv_limits sample_harvester) (cx_crawls sample_cycle) (hv_holder sample_harvester) i
      (hv_participants sample_harvester ! i) = Inr c \<longrightarrow> catalog_vecs c"
  using sample_good by (simp add: sample_harvester_def sample_cycle_def harvester_new_def)


theorem status_is_truthful_witness:
  "cycles_completed (hv_status sample_harvested) = 1 \<and>
   dom (map_of (status_participants (hv_status sample_harvested))) = {''n''}"
proof -
  have "hv_participants sample_harvested = [sample_participant]"
    by (simp add: sample_harvested_def sample_harvester_def harvester_new_def)
  then show ?thesis
    using status_is_truthful [OF percent.iri_codec_axioms harvested.cycle [OF sample_new sample_cycle_run sample_cycle_good]]
    by (simp add: sample_part_id)
qed

end
