(* ===== verification/Lifecycle.thy ===== *)
theory Lifecycle
  imports Startup Harvest_Store
begin

text \<open>
  The life of the process: the rest of \<open>main\<close> and \<open>handle_signals\<close> in \<open>crates/ds-catalog-broker-rs/src/main.rs\<close>,
  \<open>stop_after\<close> of \<open>serving.rs\<close>, the listeners of \<open>signals.rs\<close> and the loop of \<open>spawn_scheduler\<close> in
  \<open>crates/crawler/src/lib.rs\<close>. The tasks interleave freely; a step is what one task does between two of its waits, or
  something from outside: time, a signal, a request. Time is in milliseconds.

  Of the runtime and the server the model uses what they document: a signal that arrives twice before it is taken counts
  once; with graceful shutdown the server accepts until the future it was given completes, and ends when no
  request is left; a task that panics ends.
\<close>

section \<open>Signals\<close>

datatype signal_kind = Interrupt | Terminate

text \<open>
  A listener that could not be registered is \<open>None\<close> and is never told (what the system then does with the signal is not
  modelled); otherwise, whether a signal is pending.
\<close>

record signals =
  interrupt :: "bool option"
  terminate :: "bool option"

definition signals_install :: "(signal_kind \<Rightarrow> bool) \<Rightarrow> signals" where
  "signals_install registers =
     \<lparr>interrupt = (if registers Interrupt then Some False else None),
      terminate = (if registers Terminate then Some False else None)\<rparr>"

fun signal_arrives :: "signal_kind \<Rightarrow> signals \<Rightarrow> signals" where
  "signal_arrives Interrupt s = s\<lparr>interrupt := map_option (\<lambda>_. True) (interrupt s)\<rparr>"
| "signal_arrives Terminate s = s\<lparr>terminate := map_option (\<lambda>_. True) (terminate s)\<rparr>"

text \<open>What \<open>next\<close> may return; it waits while this is empty. \<open>select!\<close> picks any branch that is ready.\<close>

definition signals_next :: "signals \<Rightarrow> (string \<times> signals) list" where
  "signals_next s =
     (if interrupt s = Some True then [(''SIGINT'', s\<lparr>interrupt := Some False\<rparr>)] else []) @
     (if terminate s = Some True then [(''SIGTERM'', s\<lparr>terminate := Some False\<rparr>)] else [])"

section \<open>A cycle that is cut short\<close>

text \<open>
  The store and the holder while a cycle is in flight, and when it is dropped: after some of its events, writes handed
  to the blocking pool included, and, where all crawls had ended, after \<open>j\<close> of the deletes.
\<close>

definition interrupted_cycle ::
    "jose \<Rightarrow> ('f \<Rightarrow> catalog \<Rightarrow> 's \<Rightarrow> (store_error + unit) \<times> 's) \<Rightarrow>
     ('f \<Rightarrow> node_id \<Rightarrow> 's \<Rightarrow> (store_error + bool) \<times> 's) \<Rightarrow> 'f cycle_env \<Rightarrow> nat \<Rightarrow> 's harvester \<Rightarrow>
     ('s \<times> holder_identity option) option" where
  "interrupted_cycle E upsert delete x j h =
     map_option (\<lambda>st.
         (if cycle_finished st then
           let ls = note_successes (summarize (hv_participants h) (cy_outcomes st)) (cx_now x) (hv_last_success h);
               stale = stale_ids (cx_now x) (max_catalog_age (hv_limits h)) ls
           in fst (snd (expire delete (cx_delete x) (take j stale) (cy_cache st) ls))
          else cy_cache st, cy_holder st))
       (cycle_run E upsert (hv_limits h) (cx_crawls x) (cx_events x)
         (cycle_start (hv_participants h) (hv_holder h) (hv_cache h)))"

section \<open>The process\<close>

text \<open>\<open>CrawlEnded\<close> carries whether the task ended normally.\<close>

datatype crawl_task = NoCrawler | CrawlLoop "rdf_db harvester" | CrawlEnded bool

datatype handler = AwaitFirst | AwaitSecond

datatype main_phase = ServeOnly | Select | AwaitServer | AwaitScheduler

record 'k process =
  pr_clock :: nat
  pr_app :: "'k app_state"
  pr_store :: rdf_db
  pr_crawler :: crawl_task
  pr_pending :: signals
  pr_handler :: handler
  pr_stop_timer :: "nat option"
  pr_draining :: bool
  pr_in_flight :: nat
  pr_main :: main_phase
  pr_exit :: "nat option"

definition process_start ::
    "(signal_kind \<Rightarrow> bool) \<Rightarrow> nat \<Rightarrow> 'k app_state \<Rightarrow> (participants_config \<times> crawl_limits) option \<Rightarrow> 'k process" where
  "process_start registers t S crawler =
     (let task = (case crawler of
             None \<Rightarrow> NoCrawler
           | Some (config, limits) \<Rightarrow> CrawlLoop (harvester_new empty_db (pc_participants config) (app_holder S) limits))
      in \<lparr>pr_clock = t,
          pr_app = S\<lparr>app_crawl_status := (case task of CrawlLoop h \<Rightarrow> Some (hv_status h) | _ \<Rightarrow> None), shutdown := False\<rparr>,
          pr_store = empty_db, pr_crawler = task, pr_pending = signals_install registers, pr_handler = AwaitFirst,
          pr_stop_timer = None, pr_draining = False, pr_in_flight = 0,
          pr_main = (if task = NoCrawler then ServeOnly else Select), pr_exit = None\<rparr>)"

text \<open>Each catalog a cycle reads has vectors for its lists.\<close>

definition cycle_vecs :: "jose \<Rightarrow> 'f cycle_env \<Rightarrow> 's harvester \<Rightarrow> bool" where
  "cycle_vecs E x h \<longleftrightarrow> (\<forall>i<length (hv_participants h). \<forall>c.
     fetched E (hv_limits h) (cx_crawls x) (hv_holder h) i (hv_participants h ! i) = Inr c \<longrightarrow> catalog_vecs c)"

text \<open>\<open>shutdown.cancel()\<close>, and whether the server's future is done.\<close>

definition cancel_shutdown :: "'k process \<Rightarrow> 'k process" where
  "cancel_shutdown p = p\<lparr>pr_app := (pr_app p)\<lparr>shutdown := True\<rparr>\<rparr>"

definition server_done :: "'k process \<Rightarrow> bool" where
  "server_done p \<longleftrightarrow> pr_draining p \<and> pr_in_flight p = 0"

text \<open>
  Each task as a function to the states its next step may lead to: \<open>handle_signals\<close>, the future \<open>main\<close> builds on
  \<open>stop_after\<close> (it then cancels \<open>draining\<close>), and \<open>main\<close> from the server's start on.
\<close>

definition handle_signals :: "'k process \<Rightarrow> 'k process list" where
  "handle_signals p =
     map (\<lambda>(name, s). case pr_handler p of
         AwaitFirst \<Rightarrow> cancel_shutdown (p\<lparr>pr_pending := s, pr_handler := AwaitSecond\<rparr>)
       | AwaitSecond \<Rightarrow> p\<lparr>pr_pending := s, pr_exit := Some 130\<rparr>)
       (signals_next (pr_pending p))"

definition stop_after :: "nat \<Rightarrow> 'k process \<Rightarrow> 'k process option" where
  "stop_after delay p =
     (case pr_stop_timer p of
        None \<Rightarrow> if shutdown (pr_app p) then Some (p\<lparr>pr_stop_timer := Some (pr_clock p + delay)\<rparr>) else None
      | Some t \<Rightarrow> if t \<le> pr_clock p then Some (p\<lparr>pr_draining := True\<rparr>) else None)"

definition main_step :: "'k process \<Rightarrow> 'k process list" where
  "main_step p =
     (case pr_main p of
        ServeOnly \<Rightarrow> if server_done p then [p\<lparr>pr_exit := Some 0\<rparr>] else []
      | Select \<Rightarrow>
          (if server_done p then [cancel_shutdown (p\<lparr>pr_main := AwaitScheduler\<rparr>)] else []) @
          (case pr_crawler p of
             CrawlEnded ok \<Rightarrow> [if shutdown (pr_app p) then p\<lparr>pr_main := AwaitServer\<rparr> else p\<lparr>pr_exit := Some 1\<rparr>]
           | _ \<Rightarrow> [])
      | AwaitServer \<Rightarrow> if server_done p then [p\<lparr>pr_exit := Some 0\<rparr>] else []
      | AwaitScheduler \<Rightarrow> (case pr_crawler p of CrawlEnded ok \<Rightarrow> [p\<lparr>pr_exit := Some 0\<rparr>] | _ \<Rightarrow> []))"

text \<open>
  The steps of a running process: the world outside, the signal handler, the server, the crawler and \<open>main\<close>. The store
  shows what the cycle in flight has written so far (\<open>crawling\<close>); a cycle counts when it is reported (\<open>crawled\<close>). The
  select of the loop is biased, so no cycle is reported once shutdown is cancelled. A tick may come at any time.
\<close>

inductive process_run :: "jose \<Rightarrow> codec \<Rightarrow> nat \<Rightarrow> 'k process \<Rightarrow> 'k process \<Rightarrow> bool" for E K delay where
  time: "pr_clock p \<le> t \<Longrightarrow> process_run E K delay p (p\<lparr>pr_clock := t\<rparr>)"
| arrival: "process_run E K delay p (p\<lparr>pr_pending := signal_arrives k (pr_pending p)\<rparr>)"
| request: "\<not> pr_draining p \<Longrightarrow> process_run E K delay p (p\<lparr>pr_in_flight := Suc (pr_in_flight p)\<rparr>)"
| answered: "pr_in_flight p = Suc n \<Longrightarrow> process_run E K delay p (p\<lparr>pr_in_flight := n\<rparr>)"
| signalled: "p' \<in> set (handle_signals p) \<Longrightarrow> process_run E K delay p p'"
| stopping_after: "stop_after delay p = Some p' \<Longrightarrow> process_run E K delay p p'"
| crawling: "pr_crawler p = CrawlLoop h \<Longrightarrow> cycle_vecs E x h \<Longrightarrow>
    interrupted_cycle E (store_catalog K) (remove_catalog K) x j h = Some (db, holder') \<Longrightarrow>
    process_run E K delay p (p\<lparr>pr_store := db, pr_app := (pr_app p)\<lparr>app_holder := holder'\<rparr>\<rparr>)"
| crawled: "pr_crawler p = CrawlLoop h \<Longrightarrow> \<not> shutdown (pr_app p) \<Longrightarrow> cycle_vecs E x h \<Longrightarrow>
    run_cycle E (store_catalog K) (remove_catalog K) x h = Some (report, h') \<Longrightarrow>
    process_run E K delay p (p\<lparr>pr_store := hv_cache h', pr_crawler := CrawlLoop h',
      pr_app := (pr_app p)\<lparr>app_crawl_status := Some (hv_status h'), app_holder := hv_holder h'\<rparr>\<rparr>)"
| crawl_stopped: "pr_crawler p = CrawlLoop h \<Longrightarrow> shutdown (pr_app p) \<Longrightarrow> cycle_vecs E x h \<Longrightarrow>
    interrupted_cycle E (store_catalog K) (remove_catalog K) x j h = Some (db, holder') \<Longrightarrow>
    process_run E K delay p (p\<lparr>pr_store := db, pr_app := (pr_app p)\<lparr>app_holder := holder'\<rparr>,
      pr_crawler := CrawlEnded True\<rparr>)"
| crawl_panicked: "pr_crawler p = CrawlLoop h \<Longrightarrow> cycle_vecs E x h \<Longrightarrow>
    interrupted_cycle E (store_catalog K) (remove_catalog K) x j h = Some (db, holder') \<Longrightarrow>
    process_run E K delay p (p\<lparr>pr_store := db, pr_app := (pr_app p)\<lparr>app_holder := holder'\<rparr>,
      pr_crawler := CrawlEnded False\<rparr>)"
| in_main: "p' \<in> set (main_step p) \<Longrightarrow> process_run E K delay p p'"

definition process_step :: "jose \<Rightarrow> codec \<Rightarrow> nat \<Rightarrow> 'k process \<Rightarrow> 'k process \<Rightarrow> bool" where
  "process_step E K delay p p' \<longleftrightarrow> pr_exit p = None \<and> process_run E K delay p p'"

section \<open>A dropped cycle leaves whole catalogs\<close>

context cache_writes
begin

lemma interrupted_holds:
  assumes inv: "harvester_inv holds h m" and ids: "distinct (map pe_part_id (hv_participants h))"
    and good: "\<forall>i<length (hv_participants h). \<forall>c.
      fetched E (hv_limits h) (cx_crawls x) (hv_holder h) i (hv_participants h ! i) = Inr c \<longrightarrow> good c"
    and cut: "interrupted_cycle E upsert delete x j h = Some (s', holder')"
  defines "cs \<equiv> cycle_catalogs E accept (hv_limits h) (cx_crawls x) (hv_holder h) (enumerate 0 (hv_participants h))"
    and "summary \<equiv> cycle_summary E accept (hv_limits h) (cx_crawls x) (hv_holder h) (hv_participants h)"
  shows "\<exists>m'. holds s' m' \<and> dom m' \<subseteq> pe_part_id ` set (hv_participants h) \<and> (\<forall>n. m' n = m n \<or> (\<exists>c. map_of cs n = Some c \<and> m' n = Some c) \<or>
    m' n = None \<and> n \<in> set (stale_ids (cx_now x) (max_catalog_age (hv_limits h)) (note_successes summary (cx_now x) (hv_last_success h))))"
proof -
  let ?ps = "hv_participants h"
  have m: "holds (hv_cache h) m" and sub: "dom m \<subseteq> pe_part_id ` set ?ps"
    using inv by (simp_all add: harvester_inv_def)
  obtain st where run: "cycle_run E upsert (hv_limits h) (cx_crawls x) (cx_events x)
      (cycle_start ?ps (hv_holder h) (hv_cache h)) = Some st"
    using cut by (auto simp: interrupted_cycle_def)
  have cs_sub: "dom (map_of cs) \<subseteq> pe_part_id ` set ?ps"
    using cycle_ids [of E accept "hv_limits h" "cx_crawls x" "hv_holder h" ?ps] unfolding cs_def
    by (auto simp: dom_map_of_conv_image_fst)
  show ?thesis
  proof (cases "cycle_finished st")
    case True
    then have once: "crawl_once E upsert (hv_limits h) (cx_crawls x) (cx_events x) ?ps (hv_holder h) (hv_cache h) =
        Some (summarize ?ps (cy_outcomes st), cy_cache st, cy_holder st)"
      using run by (simp add: crawl_once_def)
    then have sm: "summarize ?ps (cy_outcomes st) = summary"
      using crawl_once_result(1) [OF once m ids good] by (simp add: summary_def cycle_summary_def)
    let ?ls = "note_successes summary (cx_now x) (hv_last_success h)"
    let ?stale = "stale_ids (cx_now x) (max_catalog_age (hv_limits h)) ?ls"
    obtain expired ls' where ex: "expire delete (cx_delete x) (take j ?stale) (cy_cache st) ?ls = (expired, s', ls')"
      using cut run True by (cases "expire delete (cx_delete x) (take j ?stale) (cy_cache st) ?ls")
        (simp add: interrupted_cycle_def Let_def sm)
    note e = expire_holds [OF crawl_once_result(2) [OF once m ids good] ex, folded cs_def]
    let ?m' = "(m ++ map_of cs) |` (- set expired)"
    have "?m' n = m n \<or> (\<exists>c. map_of cs n = Some c \<and> ?m' n = Some c) \<or> ?m' n = None \<and> n \<in> set ?stale" for n
    proof (cases "n \<in> set expired")
      case True
      then have "n \<in> set ?stale" using e in_set_takeD by fast
      then show ?thesis using True by simp
    qed (cases "map_of cs n"; simp add: map_add_def)
    moreover have "dom ?m' \<subseteq> pe_part_id ` set ?ps" using sub cs_sub by auto
    ultimately show ?thesis using e by blast
  next
    case False
    then have s': "s' = cy_cache st" using cut run by (simp add: interrupted_cycle_def)
    let ?part = "cycle_catalogs E accept (hv_limits h) (cx_crawls x) (hv_holder h) (ended ?ps st)"
    have inv: "cycle_inv E accept holds (hv_limits h) (cx_crawls x) ?ps (hv_holder h) m st"
      by (rule run_inv [OF run start_inv [OF m] ids good])
    then have "mset (running st @ ended ?ps st @ cy_queue st) = mset (enumerate 0 ?ps)" by (simp add: cycle_inv_def)
    from mset_eq_setD [OF this] have "set (ended ?ps st) \<subseteq> set (enumerate 0 ?ps)" by auto
    then have "y \<in> set ?part \<Longrightarrow> y \<in> set cs" for y
      unfolding cs_def cycle_catalogs_def set_somes set_map by blast
    then have part: "set ?part \<subseteq> set cs" by (rule subsetI)
    have dist: "distinct (map fst cs)" unfolding cs_def by (rule cycle_catalogs_distinct) (simp add: enumerate_ids ids)
    have "(m ++ map_of ?part) n = m n \<or> (\<exists>c. map_of cs n = Some c \<and> (m ++ map_of ?part) n = Some c)" for n
    proof (cases "map_of ?part n")
      case (Some c)
      then have "map_of cs n = Some c" using part dist by (meson map_of_SomeD map_of_is_SomeI subsetD)
      then show ?thesis using Some by simp
    qed (simp add: map_add_def)
    moreover have "holds s' (m ++ map_of ?part)" using inv s' by (simp add: cycle_inv_def)
    moreover have "dom (m ++ map_of ?part) \<subseteq> pe_part_id ` set ?ps"
    proof -
      have "dom (map_of ?part) \<subseteq> dom (map_of cs)"
        unfolding dom_map_of_conv_image_fst using part by (rule image_mono)
      then show ?thesis using sub cs_sub by simp
    qed
    ultimately show ?thesis by blast
  qed
qed

end

text \<open>
  Claim C23. A cycle dropped at shutdown, at any moment and with any of its writes still to finish, leaves each participant
  with exactly one of: the catalog it had, the whole catalog this cycle read from it, or, if its last success is too
  old, none.
\<close>

theorem dropped_cycle_leaves_whole:
  assumes "iri_codec K" "harvested E K h k" "cycle_vecs E x h"
    "interrupted_cycle E (store_catalog K) (remove_catalog K) x j h = Some (db, holder')"
  shows "catalogs K (query_for_node n) (db_quads db) = catalogs K (query_for_node n) (db_quads (hv_cache h)) \<or>
    (\<exists>c. map_of (cycle_catalogs E write_fault (hv_limits h) (cx_crawls x) (hv_holder h) (enumerate 0 (hv_participants h))) n = Some c \<and>
      catalogs K (query_for_node n) (db_quads db) = Inr [c]) \<or>
    catalogs K (query_for_node n) (db_quads db) = Inr [] \<and>
      n \<in> set (stale_ids (cx_now x) (max_catalog_age (hv_limits h))
        (note_successes (cycle_summary E write_fault (hv_limits h) (cx_crawls x) (hv_holder h) (hv_participants h))
          (cx_now x) (hv_last_success h)))"
proof -
  obtain m where m: "harvester_inv (represents K) h m" and ids: "distinct (map pe_part_id (hv_participants h))"
    using harvested_inv [OF assms(1,2)] by blast
  from cache_writes.interrupted_holds [OF iri_codec.write_laws [OF assms(1)] m ids
      iri_codec.crawled_good [OF assms(1) assms(3) [unfolded cycle_vecs_def]] assms(4)]
  obtain m' where m': "represents K db m'" and n: "m' n = m n \<or>
      (\<exists>c. map_of (cycle_catalogs E write_fault (hv_limits h) (cx_crawls x) (hv_holder h) (enumerate 0 (hv_participants h))) n = Some c \<and>
        m' n = Some c) \<or>
      m' n = None \<and> n \<in> set (stale_ids (cx_now x) (max_catalog_age (hv_limits h))
        (note_successes (cycle_summary E write_fault (hv_limits h) (cx_crawls x) (hv_holder h) (hv_participants h))
          (cx_now x) (hv_last_success h)))"
    by metis
  have "represents K (hv_cache h) m" using m by (simp add: harvester_inv_def)
  note q = iri_codec.query_node_ok [OF assms(1) this, of n] iri_codec.query_node_ok [OF assms(1) m', of n]
  show ?thesis using n unfolding q by auto
qed

section \<open>What the phases mean\<close>

text \<open>What the tasks agree on between any two steps.\<close>

definition process_inv :: "'k process \<Rightarrow> bool" where
  "process_inv p \<longleftrightarrow>
     (pr_stop_timer p \<noteq> None \<longrightarrow> shutdown (pr_app p)) \<and>
     (pr_draining p \<longrightarrow> (\<exists>d. pr_stop_timer p = Some d \<and> d \<le> pr_clock p)) \<and>
     (shutdown (pr_app p) \<longleftrightarrow> pr_handler p = AwaitSecond) \<and>
     (pr_main p = ServeOnly \<longleftrightarrow> pr_crawler p = NoCrawler) \<and>
     (pr_main p = AwaitServer \<longrightarrow> shutdown (pr_app p) \<and> (\<exists>ok. pr_crawler p = CrawlEnded ok)) \<and>
     (pr_main p = AwaitScheduler \<longrightarrow> shutdown (pr_app p) \<and> server_done p) \<and>
     (pr_crawler p = CrawlEnded True \<longrightarrow> shutdown (pr_app p))"

definition exit_ok :: "'k process \<Rightarrow> bool" where
  "exit_ok p \<longleftrightarrow>
     (case pr_exit p of
        None \<Rightarrow> True
      | Some code \<Rightarrow>
          code = 0 \<and> shutdown (pr_app p) \<and> server_done p \<and> (case pr_crawler p of CrawlLoop h \<Rightarrow> False | _ \<Rightarrow> True) \<or>
          code = 1 \<and> pr_handler p = AwaitFirst \<and> pr_crawler p = CrawlEnded False \<or>
          code = 130 \<and> pr_handler p = AwaitSecond)"

lemmas process_defs = process_inv_def cancel_shutdown_def server_done_def

text \<open>The steps of the tasks one by one.\<close>

lemma first_signal: "pr_handler p = AwaitFirst \<Longrightarrow> (name, s) \<in> set (signals_next (pr_pending p)) \<Longrightarrow>
    process_run E K delay p (cancel_shutdown (p\<lparr>pr_pending := s, pr_handler := AwaitSecond\<rparr>))"
  by (rule signalled) (force simp: handle_signals_def)

lemma second_signal: "pr_handler p = AwaitSecond \<Longrightarrow> (name, s) \<in> set (signals_next (pr_pending p)) \<Longrightarrow>
    process_run E K delay p (p\<lparr>pr_pending := s, pr_exit := Some 130\<rparr>)"
  by (rule signalled) (force simp: handle_signals_def)

lemma stop_seen: "shutdown (pr_app p) \<Longrightarrow> pr_stop_timer p = None \<Longrightarrow>
    process_run E K delay p (p\<lparr>pr_stop_timer := Some (pr_clock p + delay)\<rparr>)"
  by (rule stopping_after) (simp add: stop_after_def)

lemma stop_over: "pr_stop_timer p = Some t \<Longrightarrow> t \<le> pr_clock p \<Longrightarrow> process_run E K delay p (p\<lparr>pr_draining := True\<rparr>)"
  by (rule stopping_after) (simp add: stop_after_def)

lemma main_exits: "pr_main p \<in> {ServeOnly, AwaitServer} \<Longrightarrow> server_done p \<Longrightarrow> process_run E K delay p (p\<lparr>pr_exit := Some 0\<rparr>)"
    "pr_main p = AwaitScheduler \<Longrightarrow> pr_crawler p = CrawlEnded ok \<Longrightarrow> process_run E K delay p (p\<lparr>pr_exit := Some 0\<rparr>)"
  by (auto intro!: in_main simp: main_step_def)

lemma select_crawler: "pr_main p = Select \<Longrightarrow> pr_crawler p = CrawlEnded ok \<Longrightarrow>
    process_run E K delay p (if shutdown (pr_app p) then p\<lparr>pr_main := AwaitServer\<rparr> else p\<lparr>pr_exit := Some 1\<rparr>)"
  by (rule in_main) (simp add: main_step_def)

text \<open>What a step of a task can be.\<close>

lemma handle_signals_cases:
  assumes "p' \<in> set (handle_signals p)"
  obtains s where "pr_handler p = AwaitFirst" "p' = cancel_shutdown (p\<lparr>pr_pending := s, pr_handler := AwaitSecond\<rparr>)"
  | s where "pr_handler p = AwaitSecond" "p' = p\<lparr>pr_pending := s, pr_exit := Some 130\<rparr>"
  using assms by (cases "pr_handler p") (auto simp: handle_signals_def)

lemma stop_after_cases:
  assumes "stop_after delay p = Some p'"
  obtains "shutdown (pr_app p)" "pr_stop_timer p = None" "p' = p\<lparr>pr_stop_timer := Some (pr_clock p + delay)\<rparr>"
  | t where "pr_stop_timer p = Some t" "t \<le> pr_clock p" "p' = p\<lparr>pr_draining := True\<rparr>"
  using assms by (auto simp: stop_after_def split: option.splits if_splits)

lemma main_step_cases:
  assumes "p' \<in> set (main_step p)"
  obtains "pr_main p \<in> {ServeOnly, AwaitServer}" "server_done p" "p' = p\<lparr>pr_exit := Some 0\<rparr>"
  | "pr_main p = Select" "server_done p" "p' = cancel_shutdown (p\<lparr>pr_main := AwaitScheduler\<rparr>)"
  | ok where "pr_main p = Select" "pr_crawler p = CrawlEnded ok" "shutdown (pr_app p)" "p' = p\<lparr>pr_main := AwaitServer\<rparr>"
  | ok where "pr_main p = Select" "pr_crawler p = CrawlEnded ok" "\<not> shutdown (pr_app p)" "p' = p\<lparr>pr_exit := Some 1\<rparr>"
  | ok where "pr_main p = AwaitScheduler" "pr_crawler p = CrawlEnded ok" "p' = p\<lparr>pr_exit := Some 0\<rparr>"
proof (cases "pr_main p")
  case Select
  with assms consider "server_done p" "p' = cancel_shutdown (p\<lparr>pr_main := AwaitScheduler\<rparr>)"
    | ok where "pr_crawler p = CrawlEnded ok" "p' = (if shutdown (pr_app p) then p\<lparr>pr_main := AwaitServer\<rparr> else p\<lparr>pr_exit := Some 1\<rparr>)"
    by (cases "pr_crawler p") (auto simp: main_step_def split: if_splits)
  then show ?thesis
    by cases (use that(2-4) Select in \<open>simp_all split: if_splits\<close>)
next
  case AwaitScheduler
  then obtain ok where "pr_crawler p = CrawlEnded ok" "p' = p\<lparr>pr_exit := Some 0\<rparr>"
    using assms by (cases "pr_crawler p") (simp_all add: main_step_def)
  then show ?thesis by (rule that(5) [OF AwaitScheduler])
next
  case ServeOnly
  then have "server_done p" "p' = p\<lparr>pr_exit := Some 0\<rparr>" using assms by (simp_all add: main_step_def split: if_splits)
  then show ?thesis using that(1) ServeOnly by blast
next
  case AwaitServer
  then have "server_done p" "p' = p\<lparr>pr_exit := Some 0\<rparr>" using assms by (simp_all add: main_step_def split: if_splits)
  then show ?thesis using that(1) AwaitServer by blast
qed

lemma exit_inv [simp]: "process_inv (p\<lparr>pr_exit := e\<rparr>) = process_inv p"
  by (simp add: process_defs)

lemma process_start_inv: "process_inv (process_start registers t S crawler)"
  by (cases crawler) (auto simp: process_start_def process_defs)

lemma task_steps_inv:
  "p' \<in> set (handle_signals p) \<Longrightarrow> process_inv p \<Longrightarrow> process_inv p'"
  "stop_after delay p = Some p' \<Longrightarrow> process_inv p \<Longrightarrow> process_inv p'"
  "p' \<in> set (main_step p) \<Longrightarrow> process_inv p \<Longrightarrow> process_inv p'"
proof -
  show "p' \<in> set (handle_signals p) \<Longrightarrow> process_inv p \<Longrightarrow> process_inv p'"
    by (erule handle_signals_cases) (auto simp: process_defs)
  show "stop_after delay p = Some p' \<Longrightarrow> process_inv p \<Longrightarrow> process_inv p'"
    by (erule stop_after_cases) (auto simp: process_defs)
  assume p': "p' \<in> set (main_step p)" and inv: "process_inv p"
  from p' show "process_inv p'"
  proof (cases rule: main_step_cases)
    case 2
    have "shutdown (pr_app p)" "pr_crawler p \<noteq> NoCrawler" using 2 inv by (auto simp: process_inv_def server_done_def)
    then show ?thesis using 2 inv by (simp add: process_defs)
  next
    case (3 ok)
    then show ?thesis using inv by (simp add: process_defs)
  qed (use inv in simp_all)
qed

lemma process_run_inv: "process_run E K delay p p' \<Longrightarrow> process_inv p \<Longrightarrow> process_inv p'"
proof (induction rule: process_run.induct)
  case (signalled p' p)
  then show ?case by (rule task_steps_inv(1))
next
  case (stopping_after p p')
  then show ?case by (rule task_steps_inv(2))
next
  case (in_main p' p)
  then show ?case by (rule task_steps_inv(3))
qed (auto simp: process_defs)

lemma main_step_exit:
  assumes "p' \<in> set (main_step p)" "process_inv p" "pr_exit p = None"
  shows "exit_ok p'"
  using assms(1)
proof (cases rule: main_step_cases)
  case (4 ok)
  then have "pr_handler p \<noteq> AwaitSecond" "ok \<noteq> True" using assms(2) by (auto simp: process_inv_def)
  then show ?thesis using 4 by (cases "pr_handler p") (simp_all add: exit_ok_def)
next
  case 1
  then have "shutdown (pr_app p)" "\<nexists>h. pr_crawler p = CrawlLoop h"
    using assms(2) by (auto simp: process_inv_def server_done_def)
  then show ?thesis using 1 by (cases "pr_crawler p") (auto simp: exit_ok_def server_done_def)
next
  case (5 ok)
  then have "shutdown (pr_app p)" "server_done p" using assms(2) by (auto simp: process_inv_def)
  then show ?thesis using 5 by (simp add: exit_ok_def server_done_def)
qed (use assms(3) in \<open>simp_all add: exit_ok_def cancel_shutdown_def\<close>)

lemma process_run_exit: "process_run E K delay p p' \<Longrightarrow> process_inv p \<Longrightarrow> pr_exit p = None \<Longrightarrow> exit_ok p'"
proof (induction rule: process_run.induct)
  case (signalled p' p)
  from signalled(1) show ?case
    by (cases rule: handle_signals_cases) (use signalled(2,3) in \<open>auto simp: exit_ok_def cancel_shutdown_def\<close>)
next
  case (stopping_after p p')
  from stopping_after(1) show ?case
    by (cases rule: stop_after_cases) (use stopping_after(2,3) in \<open>auto simp: exit_ok_def\<close>)
next
  case (in_main p' p)
  then show ?case by (rule main_step_exit)
qed (auto simp: exit_ok_def)

text \<open>Shutdown is never taken back, the clock never goes back, and a timer once set stays.\<close>

lemma process_run_mono:
  assumes "process_run E K delay p p'"
  shows "pr_clock p \<le> pr_clock p'" "shutdown (pr_app p) \<Longrightarrow> shutdown (pr_app p')"
    "pr_stop_timer p' = pr_stop_timer p \<or> pr_stop_timer p = None \<and> pr_stop_timer p' = Some (pr_clock p + delay)"
  using assms
  by (induction rule: process_run.induct)
    (auto simp: cancel_shutdown_def elim!: handle_signals_cases stop_after_cases main_step_cases)

lemma process_reach:
  assumes "(process_step E K delay)\<^sup>*\<^sup>* (process_start registers t S crawler) p"
  shows "process_inv p" "exit_ok p"
proof -
  have "process_inv p \<and> exit_ok p"
    using assms
  proof (induction rule: rtranclp_induct)
    case base
    have "pr_exit (process_start registers t S crawler) = None" by (simp add: process_start_def Let_def)
    then show ?case using process_start_inv by (simp add: exit_ok_def)
  next
    case (step p p')
    then show ?case using process_run_inv process_run_exit by (auto simp: process_step_def)
  qed
  then show "process_inv p" "exit_ok p" by blast+
qed

text \<open>
  Claim C24. The listener is the last to go: when it closes, the configured delay has passed since every moment at which
  shutdown had not begun, and \<open>/ready\<close> answers 503, so no probe finds the broker ready once it refuses connections.
\<close>

theorem listener_closes_last:
  assumes "(process_step E K delay)\<^sup>*\<^sup>* (process_start registers t S crawler) p" "\<not> shutdown (pr_app p)"
    "(process_step E K delay)\<^sup>*\<^sup>* p p'" "pr_draining p'"
  shows "pr_clock p + delay \<le> pr_clock p' \<and> status (ready X (pr_app p') now hs) = 503"
proof -
  have start: "process_inv p" by (rule process_reach(1) [OF assms(1)])
  have "process_inv p' \<and> pr_clock p \<le> pr_clock p' \<and> (\<forall>d. pr_stop_timer p' = Some d \<longrightarrow> pr_clock p + delay \<le> d)"
    using assms(3)
  proof (induction rule: rtranclp_induct)
    case base
    show ?case using start assms(2) by (auto simp: process_inv_def)
  next
    case (step q q')
    then have run: "process_run E K delay q q'" by (simp add: process_step_def)
    have "pr_clock p \<le> pr_clock q' \<and> (\<forall>d. pr_stop_timer q' = Some d \<longrightarrow> pr_clock p + delay \<le> d)"
      using process_run_mono(1,3) [OF run] step.IH by auto
    then show ?case using process_run_inv [OF run] step.IH by blast
  qed
  then obtain d where "pr_stop_timer p' = Some d" "d \<le> pr_clock p'" "pr_clock p + delay \<le> d" "shutdown (pr_app p')"
    using assms(4) by (auto simp: process_inv_def)
  then show ?thesis by (simp add: ready_def respond_def Let_def)
qed

text \<open>
  Claim C25. The exit codes mean what the supervisor takes them for. Code 0: shutdown was asked for, every accepted request
  was answered and the crawler has ended. Code 1: the crawler failed although nobody asked for shutdown, so that a
  broker with stale catalogs is restarted. Code 130: a second signal. There is no other.
\<close>

theorem exits_as_documented:
  assumes "(process_step E K delay)\<^sup>*\<^sup>* (process_start registers t S crawler) p"
  shows "case pr_exit p of
      None \<Rightarrow> True
    | Some code \<Rightarrow>
        code = 0 \<and> shutdown (pr_app p) \<and> pr_draining p \<and> pr_in_flight p = 0 \<and>
          (case pr_crawler p of CrawlLoop h \<Rightarrow> False | _ \<Rightarrow> True) \<or>
        code = 1 \<and> pr_handler p = AwaitFirst \<and> pr_crawler p = CrawlEnded False \<or>
        code = 130 \<and> pr_handler p = AwaitSecond"
  using process_reach(2) [OF assms] by (cases "pr_exit p") (simp_all add: exit_ok_def server_done_def)

section \<open>Shutdown completes\<close>

lemma cut_cycle:
  fixes upsert :: "fault \<Rightarrow> catalog \<Rightarrow> 's \<Rightarrow> (store_error + unit) \<times> 's"
  shows "\<exists>r x. cycle_vecs E x h \<and> interrupted_cycle E upsert delete x j h = Some r"
proof -
  define e :: "fault crawl_env" where "e = \<lparr>ce_post = \<lambda>_. TransportError [],
     ce_draws = \<lparr>dr_now = 0, dr_swept = 0, dr_jti = [], dr_access_jti = [], dr_nonce = [], dr_uuid = []\<rparr>,
     ce_timed_out = True, ce_fault = NoFault, ce_finished_at = 0, ce_finished_instant = 0\<rparr>"
  define x where "x = \<lparr>cx_crawls = \<lambda>_. e, cx_events = [], cx_now = 0, cx_delete = \<lambda>_. NoFault, cx_end = 0\<rparr>"
  have "rbind auth (fetch_catalog E (ce_post e) u n q) \<noteq> Inr c" for auth u n q c
    by (cases auth) (simp_all add: fetch_catalog_def e_def)
  then have "fetched E (hv_limits h) (cx_crawls x) (hv_holder h) i q \<noteq> Inr c" for i q c
    by (simp add: fetched_def crawl_one_def x_def split: prod.split)
  then have "cycle_vecs E x h" by (simp add: cycle_vecs_def)
  then show ?thesis by (intro exI [of _ x] exI conjI) (auto simp: interrupted_cycle_def x_def)
qed

definition stopping :: "'k process \<Rightarrow> bool" where
  "stopping p \<longleftrightarrow> pr_exit p = None \<and> process_inv p \<and> shutdown (pr_app p)"

lemma stopping_step:
  assumes "stopping p" "process_run E K delay p p'"
  shows "process_step E K delay p p'" "pr_exit p' = None \<Longrightarrow> stopping p'"
proof -
  show "process_step E K delay p p'" using assms by (simp add: process_step_def stopping_def)
  have "shutdown (pr_app p')" using process_run_mono(2) [OF assms(2)] assms(1) by (simp add: stopping_def)
  then show "pr_exit p' = None \<Longrightarrow> stopping p'" using assms process_run_inv by (auto simp: stopping_def)
qed

lemma stopping_drains:
  assumes "stopping p"
  shows "\<exists>q. (process_step E K delay)\<^sup>*\<^sup>* p q \<and> stopping q \<and> pr_draining q"
proof -
  have "\<exists>q d. (process_step E K delay)\<^sup>*\<^sup>* p q \<and> stopping q \<and> pr_stop_timer q = Some d"
  proof (cases "pr_stop_timer p")
    case None
    have "process_run E K delay p (p\<lparr>pr_stop_timer := Some (pr_clock p + delay)\<rparr>)"
      using assms None by (intro stop_seen) (simp_all add: stopping_def)
    from stopping_step [OF assms this] have "process_step E K delay p (p\<lparr>pr_stop_timer := Some (pr_clock p + delay)\<rparr>)"
      "stopping (p\<lparr>pr_stop_timer := Some (pr_clock p + delay)\<rparr>)" using assms by (simp_all add: stopping_def)
    then show ?thesis by (intro exI [of _ "p\<lparr>pr_stop_timer := Some (pr_clock p + delay)\<rparr>"]) auto
  qed (use assms in blast)
  then obtain q d where q: "(process_step E K delay)\<^sup>*\<^sup>* p q" "stopping q" "pr_stop_timer q = Some d" by blast
  let ?q1 = "q\<lparr>pr_clock := max (pr_clock q) d\<rparr>"
  have r1: "process_run E K delay q ?q1" by (rule process_run.time) simp
  have s1: "stopping ?q1" using stopping_step(2) [OF q(2) r1] q(2) by (simp add: stopping_def)
  have r2: "process_run E K delay ?q1 (?q1\<lparr>pr_draining := True\<rparr>)"
    by (rule stop_over [where t = d]) (simp_all add: q(3))
  have s2: "stopping (?q1\<lparr>pr_draining := True\<rparr>)" using stopping_step(2) [OF s1 r2] s1 by (simp add: stopping_def)
  show ?thesis
    using q(1) stopping_step(1) [OF q(2) r1] stopping_step(1) [OF s1 r2] s2
    by (intro exI [of _ "?q1\<lparr>pr_draining := True\<rparr>"]) (simp add: rtranclp.rtrancl_into_rtrancl)
qed

lemma stopping_answers:
  "stopping p \<Longrightarrow> pr_draining p \<Longrightarrow> \<exists>q. (process_step E K delay)\<^sup>*\<^sup>* p q \<and> stopping q \<and> server_done q"
proof (induction "pr_in_flight p" arbitrary: p)
  case 0
  then show ?case by (auto simp: server_done_def)
next
  case (Suc n)
  have r: "process_run E K delay p (p\<lparr>pr_in_flight := n\<rparr>)" by (rule answered) (simp add: Suc.hyps(2))
  have "stopping (p\<lparr>pr_in_flight := n\<rparr>)" using stopping_step(2) [OF Suc.prems(1) r] Suc.prems(1) by (simp add: stopping_def)
  then obtain q where "(process_step E K delay)\<^sup>*\<^sup>* (p\<lparr>pr_in_flight := n\<rparr>) q" "stopping q" "server_done q"
    using Suc.hyps(1) [of "p\<lparr>pr_in_flight := n\<rparr>"] Suc.prems(2) by auto
  then show ?case using stopping_step(1) [OF Suc.prems(1) r] by (blast intro: converse_rtranclp_into_rtranclp)
qed

lemma stopping_crawler_ends:
  assumes "stopping p" "server_done p"
  shows "\<exists>q. (process_step E K delay)\<^sup>*\<^sup>* p q \<and> stopping q \<and> server_done q \<and> (\<forall>h. pr_crawler q \<noteq> CrawlLoop h)"
proof (cases "pr_crawler p")
  case (CrawlLoop h)
  obtain x db holder' where x: "cycle_vecs E x h" "interrupted_cycle E (store_catalog K) (remove_catalog K) x 0 h = Some (db, holder')"
    using cut_cycle [of E h "store_catalog K" "remove_catalog K" 0] by force
  let ?q = "p\<lparr>pr_store := db, pr_app := (pr_app p)\<lparr>app_holder := holder'\<rparr>, pr_crawler := CrawlEnded True\<rparr>"
  have r: "process_run E K delay p ?q"
    using CrawlLoop x assms(1) by (intro crawl_stopped [where h = h and x = x and j = 0]) (simp_all add: stopping_def)
  have "stopping ?q" using stopping_step(2) [OF assms(1) r] assms(1) by (simp add: stopping_def)
  moreover have "server_done ?q" using assms(2) by (simp add: server_done_def)
  ultimately show ?thesis using stopping_step(1) [OF assms(1) r] by (intro exI [of _ ?q]) auto
qed (use assms in auto)

lemma stopping_exits:
  assumes "stopping p" "server_done p" "\<And>h. pr_crawler p \<noteq> CrawlLoop h"
  shows "\<exists>q. (process_step E K delay)\<^sup>*\<^sup>* p q \<and> pr_exit q = Some 0"
proof -
  have exit: "\<exists>q. (process_step E K delay)\<^sup>*\<^sup>* r q \<and> pr_exit q = Some 0"
    if "stopping r" "process_run E K delay r (r\<lparr>pr_exit := Some 0\<rparr>)" for r
    using stopping_step(1) [OF that] by (intro exI [of _ "r\<lparr>pr_exit := Some 0\<rparr>"]) auto
  have inv: "process_inv p" using assms(1) by (simp add: stopping_def)
  show ?thesis
  proof (cases "pr_main p")
    case ServeOnly
    show ?thesis using ServeOnly assms(2) by (intro exit [OF assms(1)] main_exits(1)) simp_all
  next
    case Select
    then have "pr_crawler p \<noteq> NoCrawler" using inv by (auto simp: process_inv_def)
    then obtain ok where ok: "pr_crawler p = CrawlEnded ok" using assms(3) by (cases "pr_crawler p") auto
    have r: "process_run E K delay p (p\<lparr>pr_main := AwaitServer\<rparr>)"
      using select_crawler [OF Select ok, of E K delay] assms(1) by (simp add: stopping_def)
    have s: "stopping (p\<lparr>pr_main := AwaitServer\<rparr>)"
      using stopping_step(2) [OF assms(1) r] assms(1) by (simp add: stopping_def)
    have "\<exists>q. (process_step E K delay)\<^sup>*\<^sup>* (p\<lparr>pr_main := AwaitServer\<rparr>) q \<and> pr_exit q = Some 0"
      using assms(2) by (intro exit [OF s] main_exits(1)) (simp_all add: server_done_def)
    then show ?thesis using stopping_step(1) [OF assms(1) r] by (blast intro: converse_rtranclp_into_rtranclp)
  next
    case AwaitServer
    show ?thesis using AwaitServer assms(2) by (intro exit [OF assms(1)] main_exits(1)) simp_all
  next
    case AwaitScheduler
    then have "pr_crawler p \<noteq> NoCrawler" using inv by (auto simp: process_inv_def)
    then obtain ok where "pr_crawler p = CrawlEnded ok" using assms(3) by (cases "pr_crawler p") auto
    then show ?thesis using AwaitScheduler by (intro exit [OF assms(1)] main_exits(2))
  qed
qed


section \<open>What is served, from start to end\<close>

lemma started_config:
  assumes "broker_start parse W J get E rd key max_permits initial = Inr (S, Some (config, limits))"
  shows "\<exists>i ps hc. participants_config_new i ps hc = Inr config"
proof -
  obtain st parts where st: "load_settings parse W = Inr st" and "serving_start E rd key st = Inr parts"
      "serving_crawler parts = Some (config, limits)"
    using assms by (auto simp: broker_start_def result_simps Let_def)
  then have c: "crawler_config st = Some config" using serving_start_ok(1) by fastforce
  then have "st \<noteq> broker_settings_default" by (auto simp: broker_settings_default_def)
  then obtain l g st0 where g: "from_graph parse g = Inr st0" "crawler_config st0 = Some config"
    using st c by (auto simp: load_settings_def from_location_def from_turtle_def result_simps Let_def
        split: option.splits config_location.splits if_splits)
  have "subjects_of_type g ''BrokerConfig'' \<noteq> []"
    using from_graph_no_config [OF g(1)] g(2) by (auto simp: broker_settings_default_def)
  then obtain st1 participants holders where
    "read_crawler parse st1 g ConfigResource participants holders = Inr (crawler_config st0)"
    using from_graph_config [OF g(1)] by metis
  then show ?thesis using g(2) by (auto simp: read_crawler_def result_simps Let_def split: if_splits)
qed

definition configured_ids :: "(participants_config \<times> crawl_limits) option \<Rightarrow> string set" where
  "configured_ids crawler = (case crawler of None \<Rightarrow> {} | Some (config, limits) \<Rightarrow> pe_part_id ` set (pc_participants config))"

definition store_inv :: "jose \<Rightarrow> codec \<Rightarrow> string set \<Rightarrow> 'k process \<Rightarrow> bool" where
  "store_inv E K ids p \<longleftrightarrow> (\<exists>m. represents K (pr_store p) m \<and> dom m \<subseteq> ids) \<and>
     (\<forall>h. pr_crawler p = CrawlLoop h \<longrightarrow> (\<exists>k. harvested E K h k) \<and> pe_part_id ` set (hv_participants h) = ids)"

lemma cut_store:
  assumes "iri_codec K" "store_inv E K ids p" "pr_crawler p = CrawlLoop h" "cycle_vecs E x h"
    "interrupted_cycle E (store_catalog K) (remove_catalog K) x j h = Some (db, holder')"
  shows "\<exists>m. represents K db m \<and> dom m \<subseteq> ids"
proof -
  obtain k where h: "harvested E K h k" and ids: "pe_part_id ` set (hv_participants h) = ids"
    using assms(2,3) by (auto simp: store_inv_def)
  obtain m where m: "harvester_inv (represents K) h m" "distinct (map pe_part_id (hv_participants h))"
    using harvested_inv [OF assms(1) h] by blast
  from cache_writes.interrupted_holds [OF iri_codec.write_laws [OF assms(1)] m
      iri_codec.crawled_good [OF assms(1) assms(4) [unfolded cycle_vecs_def]] assms(5)]
  show ?thesis unfolding ids by blast
qed

lemma store_inv_run:
  assumes "iri_codec K" "process_run E K delay p p'" "store_inv E K ids p"
  shows "store_inv E K ids p'"
  using assms(2)
proof cases
  case (crawled h x report h')
  obtain k where h: "harvested E K h k" "pe_part_id ` set (hv_participants h) = ids"
    using assms(3) crawled(2) by (auto simp: store_inv_def)
  have h': "harvested E K h' (Suc k)"
    by (rule harvested.cycle [OF h(1) crawled(5) crawled(4) [unfolded cycle_vecs_def]])
  obtain summary expired where "report = (summary, expired)" by fastforce
  then have "hv_participants h' = hv_participants h" using run_cycle_frame crawled(5) by metis
  moreover obtain m where "harvester_inv (represents K) h' m" using harvested_inv [OF assms(1) h'] by blast
  ultimately show ?thesis using h' h(2) crawled(1) by (auto simp: store_inv_def harvester_inv_def)
qed (use cut_store [OF assms(1,3)] assms(3) in \<open>auto simp: store_inv_def cancel_shutdown_def
    elim!: handle_signals_cases stop_after_cases main_step_cases\<close>)

text \<open>
  Claim C22. From start to end, whatever the crawler, signals and requests do, the broker serves whole catalogs of configured
  participants only: at every moment, cycles in flight and cut short included, a query for a node answers with nothing or
  with exactly one catalog, never with an error, and then the node is a participant of the configuration.
\<close>

theorem life_serves_whole:
  assumes "iri_codec K" "broker_start parse W J get E rd key max_permits initial = Inr (S, crawler)"
    "(process_step E K delay)\<^sup>*\<^sup>* (process_start registers t S crawler) p"
  shows "catalogs K (query_for_node n) (db_quads (pr_store p)) = Inr [] \<or>
    (\<exists>c. catalogs K (query_for_node n) (db_quads (pr_store p)) = Inr [c] \<and> origin_node c = n \<and> n \<in> configured_ids crawler)"
proof -
  have "store_inv E K (configured_ids crawler) (process_start registers t S crawler)"
  proof (cases crawler)
    case None
    then show ?thesis using represents_empty [of K] by (auto simp: store_inv_def process_start_def configured_ids_def)
  next
    case (Some cl)
    obtain config limits where cl: "cl = (config, limits)" by (cases cl)
    obtain i ps hc where "participants_config_new i ps hc = Inr config"
      using started_config assms(2) unfolding Some cl by blast
    from harvested.new [OF this, of E K] show ?thesis using represents_empty [of K]
      by (auto simp: store_inv_def process_start_def configured_ids_def Some cl harvester_new_def)
  qed
  with assms(3) have "store_inv E K (configured_ids crawler) p"
    by (induction rule: rtranclp_induct) (auto simp: process_step_def intro: store_inv_run [OF assms(1)])
  then obtain m where m: "represents K (pr_store p) m" "dom m \<subseteq> configured_ids crawler" by (auto simp: store_inv_def)
  show ?thesis
    using iri_codec.query_node_ok [OF assms(1) m(1), of n] m
    by (cases "m n") (auto simp: represents_def)
qed

section \<open>Examples\<close>

text \<open>A broker without a crawler is told to stop, waits five milliseconds, closes its listener and ends.\<close>

definition told :: "string process" where
  "told = cancel_shutdown ((process_start (\<lambda>_. True) 0 app_state_new None)
     \<lparr>pr_pending := \<lparr>interrupt = Some False, terminate = Some False\<rparr>, pr_handler := AwaitSecond\<rparr>)"

definition closed :: "string process" where
  "closed = told\<lparr>pr_stop_timer := Some 5, pr_clock := 5, pr_draining := True\<rparr>"

lemma told_reached:
  "(process_step E K 5)\<^sup>*\<^sup>* (process_start (\<lambda>_. True) 0 app_state_new None) told" "pr_exit told = None" "shutdown (pr_app told)"
proof -
  let ?p = "process_start (\<lambda>_. True) 0 app_state_new None :: string process"
  let ?p1 = "?p\<lparr>pr_pending := signal_arrives Terminate (pr_pending ?p)\<rparr>"
  have r1: "process_run E K 5 ?p ?p1" by (rule arrival)
  have "(''SIGTERM'', \<lparr>interrupt = Some False, terminate = Some False\<rparr>) \<in> set (signals_next (pr_pending ?p1))"
    by (simp add: process_start_def signals_install_def signals_next_def)
  then have "process_run E K 5 ?p1
      (cancel_shutdown (?p1\<lparr>pr_pending := \<lparr>interrupt = Some False, terminate = Some False\<rparr>, pr_handler := AwaitSecond\<rparr>))"
    by (intro first_signal) (simp_all add: process_start_def)
  then have r2: "process_run E K 5 ?p1 told" by (simp add: told_def)
  have "pr_exit ?p = None" by (simp add: process_start_def)
  then have "process_step E K 5 ?p ?p1" "process_step E K 5 ?p1 told" using r1 r2 by (simp_all add: process_step_def)
  then show "(process_step E K 5)\<^sup>*\<^sup>* ?p told" by (meson converse_rtranclp_into_rtranclp r_into_rtranclp)
  show "pr_exit told = None" "shutdown (pr_app told)" by (simp_all add: told_def cancel_shutdown_def process_start_def)
qed

lemma closed_reached: "(process_step E K 5)\<^sup>*\<^sup>* told closed"
proof -
  let ?q1 = "told\<lparr>pr_stop_timer := Some 5\<rparr>" let ?q2 = "?q1\<lparr>pr_clock := 5\<rparr>"
  have t: "pr_clock told = 0" "pr_stop_timer told = None"
    by (simp_all add: told_def cancel_shutdown_def process_start_def)
  have "process_run E K 5 told (told\<lparr>pr_stop_timer := Some (pr_clock told + 5)\<rparr>)"
    by (rule stop_seen [OF told_reached(3) t(2)])
  then have "process_step E K 5 told ?q1" using told_reached(2) by (simp add: process_step_def t)
  moreover have "process_step E K 5 ?q1 ?q2"
    using process_run.time [of ?q1 5 E K 5] told_reached(2) by (simp add: process_step_def t)
  moreover have "process_step E K 5 ?q2 closed"
    using stop_over [of ?q2 5 E K 5] told_reached(2) by (simp add: process_step_def closed_def)
  ultimately show ?thesis by (meson converse_rtranclp_into_rtranclp r_into_rtranclp)
qed

theorem listener_closes_last_witness:
  "5 \<le> pr_clock closed \<and> status (ready Routes.sample_env (pr_app closed) 0 (\<lambda>_. None)) = 503"
proof -
  have p: "\<not> shutdown (pr_app (process_start (\<lambda>_. True) 0 app_state_new None :: string process))"
    "pr_clock (process_start (\<lambda>_. True) 0 app_state_new None :: string process) = 0"
    by (simp_all add: process_start_def)
  have c: "pr_draining closed" by (simp add: closed_def)
  have r: "(process_step sample_jose percent_codec 5)\<^sup>*\<^sup>* (process_start (\<lambda>_. True) 0 app_state_new None) closed"
    using told_reached(1) closed_reached by (rule rtranclp_trans)
  have "pr_clock (process_start (\<lambda>_. True) 0 app_state_new None :: string process) + 5 \<le> pr_clock closed \<and>
      status (ready Routes.sample_env (pr_app closed) 0 (\<lambda>_. None)) = 503"
    by (rule listener_closes_last [OF rtranclp.rtrancl_refl p(1) r c])
  then show ?thesis by (simp add: p(2))
qed

theorem exits_as_documented_witness:
  "(process_step sample_jose percent_codec 5)\<^sup>*\<^sup>* (process_start (\<lambda>_. True) 0 app_state_new None) (closed\<lparr>pr_exit := Some 0\<rparr>) \<and>
   shutdown (pr_app closed) \<and> pr_in_flight closed = 0"
proof -
  have c: "pr_main closed = ServeOnly" "server_done closed" "pr_exit closed = None"
    by (simp_all add: closed_def told_def cancel_shutdown_def process_start_def server_done_def)
  then have "process_step sample_jose percent_codec 5 closed (closed\<lparr>pr_exit := Some 0\<rparr>)"
    using main_exits(1) [of closed] by (simp add: process_step_def)
  then have r: "(process_step sample_jose percent_codec 5)\<^sup>*\<^sup>* (process_start (\<lambda>_. True) 0 app_state_new None) (closed\<lparr>pr_exit := Some 0\<rparr>)"
    using told_reached(1) closed_reached by (meson rtranclp.rtrancl_into_rtrancl rtranclp_trans)
  then show ?thesis using exits_as_documented [OF r] by simp
qed


theorem dropped_cycle_leaves_whole_witness:
  "catalogs percent_codec (query_for_node ''n'') (db_quads sample_stored_db) \<in> {Inr [], Inr [sample_crawled]}"
proof -
  obtain st where st: "cycle_run sample_codecs (store_catalog percent_codec) sample_limits (\<lambda>_. sample_env) [StartNext, Finish 0]
      (cycle_start [sample_participant] None empty_db) = Some st" "cycle_finished st" "cy_cache st = sample_stored_db"
    using sample_once by (auto simp: crawl_once_def bind_eq_Some_conv simp del: cycle_run.simps split: if_splits)
  have cut: "interrupted_cycle sample_codecs (store_catalog percent_codec) (remove_catalog percent_codec) sample_cycle 0 sample_harvester
      = Some (sample_stored_db, cy_holder st)"
    by (simp add: interrupted_cycle_def sample_cycle_def sample_harvester_def harvester_new_def st Let_def del: cycle_run.simps)
  have "cycle_vecs sample_codecs sample_cycle sample_harvester" using sample_cycle_good by (simp add: cycle_vecs_def)
  from dropped_cycle_leaves_whole [OF percent.iri_codec_axioms sample_new this cut, of "''n''"] show ?thesis
    using percent.query_node_ok [OF represents_empty, of "''n''"]
    by (auto simp: cycle_catalogs_def sample_harvester_def sample_cycle_def harvester_new_def sample_cached sample_part_id)
qed

text \<open>The configuration \<open>sample_config\<close>, whose participant needs the holder and its credential.\<close>

definition credential_jose :: jose where
  "credential_jose = sample_jose\<lparr>b64_decode := Inr, json_read := \<lambda>_. Inr (JObject
     [(''alg'', JString ''ES256''), (''type'', JString ''VerifiableCredential'')])\<rparr>"

theorem life_serves_whole_witness:
  "\<exists>S limits. broker_start sample_parse (gate_world\<lparr>parse_turtle := \<lambda>_ _. Inr sample_config\<rparr>) sample_jwt (\<lambda>u. Reply 200 None [])
       credential_jose (\<lambda>_. Inr ''a.b.c'') ''k'' 100 \<lparr>cycles_completed = 0, status_participants = []\<rparr> =
       Inr (S, Some (\<lparr>interval_secs = 60, pc_participants = [sample_entry], pc_holder = Some Broker_Config.sample_holder\<rparr>, limits)) \<and>
     catalogs percent_codec (query_for_node ''other'') (db_quads (pr_store (process_start (\<lambda>_. True) 0 S
       (Some (\<lparr>interval_secs = 60, pc_participants = [sample_entry], pc_holder = Some Broker_Config.sample_holder\<rparr>, limits))))) = Inr []"
proof -
  let ?W = "gate_world\<lparr>parse_turtle := \<lambda>_ _. Inr sample_config\<rparr>"
  let ?st = "sample_settings\<lparr>config_source := Some (Local ''config.ttl'')\<rparr>"
  let ?config = "\<lparr>interval_secs = 60, pc_participants = [sample_entry], pc_holder = Some Broker_Config.sample_holder\<rparr>"
  have "\<not> contains_str ''://'' ''config.ttl''" by code_simp
  then have st: "load_settings sample_parse ?W = Inr ?st"
    by (simp add: load_settings_def gate_world_def config_location_parse_def from_location_def from_turtle_def sample_accepted)
  have gate: "fetch_gate sample_jwt (\<lambda>u. Reply 200 None []) ?st = Inr None"
    by (simp add: fetch_gate_def load_oauth2_config_def setting_get_def sample_settings_def OAUTH2_JWKS_URI_def)
  obtain pf where pf: "policy_filter_from_settings ?st = Inr pf"
    using policy_filter_never_panics [OF loaded_settings_ok [OF st]] by blast
  have t: "trim ''a.b.c'' = ''a.b.c''" "trim ''ES256'' = ''ES256''" "split_on (CHR ''.'') ''a.b.c'' = [''a'', ''b'', ''c'']"
    "\<not> eq_ignore_ascii_case ''ES256'' ''none''" by code_simp+
  have jws: "read_credential_jws credential_jose (\<lambda>_. Inr ''a.b.c'') Broker_Config.sample_holder = Inr ''a.b.c''"
    by (simp add: read_credential_jws_def t Let_def check_compact_jws_def decode_jws_unverified_def credential_jose_def
        get_str_def)
  obtain parts where parts: "serving_start credential_jose (\<lambda>_. Inr ''a.b.c'') ''k'' ?st = Inr parts"
      "serving_crawler parts = Some (?config, crawl_limits_from_settings ?st)"
    by (simp add: serving_start_def sample_settings_def build_holder_def jws)
  obtain S where S: "broker_start sample_parse ?W sample_jwt (\<lambda>u. Reply 200 None []) credential_jose (\<lambda>_. Inr ''a.b.c'') ''k'' 100
      \<lparr>cycles_completed = 0, status_participants = []\<rparr> = Inr (S, Some (?config, crawl_limits_from_settings ?st))"
    by (simp add: broker_start_def st gate parts pf Let_def)
  have "''other'' \<notin> configured_ids (Some (?config, crawl_limits_from_settings ?st))"
    by (simp add: configured_ids_def sample_entry_def)
  then show ?thesis
    using S life_serves_whole [OF percent.iri_codec_axioms S rtranclp.rtrancl_refl, of "''other''"] by blast
qed

end
