(* ===== verification/Router.thy ===== *)
theory Router
  imports Routes
begin

text \<open>
  The router of \<open>crates/ds-catalog-broker-rs/src/routes/mod.rs\<close>: which handler answers a request, and what a whole request
  comes to. Of axum the model uses what it documents: an unknown path is a 404, a known one under another method a
  405 that lists the methods, \<open>HEAD\<close> is answered by the handler of \<open>GET\<close> without the body, and an extractor that
  fails answers before the handler runs. What the extractors make of a request is part of the request.
\<close>

datatype http_method = GET | HEAD | POST | OtherMethod

record request =
  rq_method :: http_method
  rq_path :: string
  rq_headers :: header_map
  rq_node_id :: "response + string option"
  rq_query :: "response + string option"
  rq_form :: "response + string option"
  rq_body :: "response + string"

datatype handler_name =
    Health | Ready | GetCatalog | SparqlGet | SparqlPost | CatalogRequestRoute | HolderDidDocument | HolderPresentationQuery

definition build_router :: "(string \<times> (http_method \<times> handler_name) list) list" where
  "build_router =
     [(''/health'', [(GET, Health)]),
      (''/ready'', [(GET, Ready)]),
      (''/catalog'', [(GET, GetCatalog)]),
      (''/sparql'', [(GET, SparqlGet), (POST, SparqlPost)]),
      (''/api/management/v4/catalogs/request'', [(POST, CatalogRequestRoute)]),
      (''/dsp/holder/did.json'', [(GET, HolderDidDocument)]),
      (''/dsp/holder/presentations/query'', [(POST, HolderPresentationQuery)])]"

text \<open>What a request meets: the store, the outcome of its task or query, the peers, the clocks and the random ids.\<close>

record surroundings =
  su_store :: rdf_db
  su_joined :: bool
  su_wait :: "json option \<Rightarrow> string \<Rightarrow> finished"
  su_get :: "string \<Rightarrow> http_reply"
  su_clocks :: "nat \<times> nat \<times> nat"
  su_jti :: string
  su_now :: nat

definition sparql_route_get ::
    "'k environment \<Rightarrow> 'k app_state \<Rightarrow> surroundings \<Rightarrow> request \<Rightarrow> response \<times> 'k app_state" where
  "sparql_route_get E S u rq =
     (case rq_query rq of Inl r \<Rightarrow> (r, S) | Inr query \<Rightarrow> sparql_route E S (rq_headers rq) query (su_wait u))"

definition sparql_route_post ::
    "'k environment \<Rightarrow> 'k app_state \<Rightarrow> surroundings \<Rightarrow> request \<Rightarrow> response \<times> 'k app_state" where
  "sparql_route_post E S u rq =
     (case rq_form rq of Inl r \<Rightarrow> (r, S) | Inr query \<Rightarrow> sparql_route E S (rq_headers rq) query (su_wait u))"

fun handle :: "'k environment \<Rightarrow> 'k app_state \<Rightarrow> surroundings \<Rightarrow> request \<Rightarrow> handler_name \<Rightarrow> response \<times> 'k app_state" where
  "handle E S u rq Health = (health, S)"
| "handle E S u rq Ready = (ready E S (su_now u) (rq_headers rq), S)"
| "handle E S u rq GetCatalog =
     (case rq_node_id rq of Inl r \<Rightarrow> r | Inr n \<Rightarrow> get_catalog E S (su_joined u) (su_store u) (rq_headers rq) n, S)"
| "handle E S u rq SparqlGet = sparql_route_get E S u rq"
| "handle E S u rq SparqlPost = sparql_route_post E S u rq"
| "handle E S u rq CatalogRequestRoute =
     (case rq_body rq of Inl r \<Rightarrow> r | Inr b \<Rightarrow> catalog_request_route E S (su_joined u) (su_store u) (rq_headers rq) b, S)"
| "handle E S u rq HolderDidDocument = (holder_did_document_route E S, S)"
| "handle E S u rq HolderPresentationQuery =
     (holder_presentation_query_route E S (su_get u) (su_clocks u) (su_jti u) (rq_headers rq), S)"

definition allow_header :: "(http_method \<times> handler_name) list \<Rightarrow> string" where
  "allow_header ms =
     join '','' (concat (map (\<lambda>(m, h). case m of GET \<Rightarrow> [''GET'', ''HEAD''] | _ \<Rightarrow> [''POST'']) ms))"

definition serve :: "'k environment \<Rightarrow> 'k app_state \<Rightarrow> surroundings \<Rightarrow> request \<Rightarrow> response \<times> 'k app_state" where
  "serve E S u rq =
     (case map_of build_router (rq_path rq) of
        None \<Rightarrow> (respond 404 NoBody, S)
      | Some ms \<Rightarrow>
          (case map_of ms (if rq_method rq = HEAD then GET else rq_method rq) of
             None \<Rightarrow> ((respond 405 NoBody)\<lparr>headers := [(''allow'', allow_header ms)]\<rparr>, S)
           | Some h \<Rightarrow>
               (case handle E S u rq h of
                  (r, S') \<Rightarrow> (if rq_method rq = HEAD then r\<lparr>content := NoBody\<rparr> else r, S'))))"

section \<open>What an unverified caller can tell\<close>

definition surfaces :: "(string \<times> http_method) set" where
  "surfaces = {(''/catalog'', GET), (''/catalog'', HEAD), (''/sparql'', GET), (''/sparql'', HEAD), (''/sparql'', POST),
     (''/api/management/v4/catalogs/request'', POST)}"

lemma handle_refused:
  assumes "check_oauth2_bearer E S (rq_headers rq) = Inl r" "h \<noteq> Ready"
  shows "handle E S u rq h = (fst (handle E S u rq h), S)"
    "handle E (S\<lparr>app_crawl_status := st\<rparr>) u rq h = (fst (handle E S u rq h), S\<lparr>app_crawl_status := st\<rparr>)"
    "handle E S (u\<lparr>su_store := db, su_joined := joined, su_wait := wait\<rparr>) rq h = handle E S u rq h"
proof -
  have c: "check_oauth2_bearer E (S\<lparr>app_crawl_status := st\<rparr>) (rq_headers rq) = Inl r"
    using assms(1) by (simp add: check_oauth2_bearer_def)
  note defs = sparql_route_get_def sparql_route_post_def sparql_route_def sparql_admit_def get_catalog_def catalog_request_route_def
    holder_did_document_route_def holder_presentation_query_route_def
  show "handle E S u rq h = (fst (handle E S u rq h), S)"
    "handle E (S\<lparr>app_crawl_status := st\<rparr>) u rq h = (fst (handle E S u rq h), S\<lparr>app_crawl_status := st\<rparr>)"
    "handle E S (u\<lparr>su_store := db, su_joined := joined, su_wait := wait\<rparr>) rq h = handle E S u rq h"
    using assms c by (cases h; simp add: defs split: sum.split)+
qed

lemma ready_refused:
  assumes "check_oauth2_bearer E S hs = Inl r" "app_oauth2 S = Some V"
  shows "ready E (S\<lparr>app_crawl_status := map_option (\<lambda>c. c\<lparr>status_participants := []\<rparr>) (app_crawl_status S)\<rparr>) now hs = ready E S now hs"
proof -
  have "check_oauth2_bearer E (S\<lparr>app_crawl_status := x\<rparr>) hs = Inl r" for x
    using assms(1) by (simp add: check_oauth2_bearer_def)
  then show ?thesis
    using assms by (cases "app_crawl_status S") (simp_all add: ready_def or_null_def crawler_report_def)
qed

text \<open>
  Claim C7. With the gate configured, no request whatever tells a caller without a verified token anything of the catalogs
  or the participants. For every path and method the response is the same for any other store, any other outcome of a
  query and an empty list of participants; no slot is taken and no state changes. And on every surface that serves
  catalogs, a well-formed request is refused with 401 or 403.
\<close>

theorem router_hides_everything:
  assumes "app_oauth2 S = Some V" "\<And>token claims. bearer_token (rq_headers rq) = Some token \<Longrightarrow> verify (env_jwt E) V token \<noteq> Inr claims"
  shows "serve E S (u\<lparr>su_store := db, su_joined := joined, su_wait := wait\<rparr>) rq = serve E S u rq \<and> snd (serve E S u rq) = S \<and>
    fst (serve E (S\<lparr>app_crawl_status := map_option (\<lambda>c. c\<lparr>status_participants := []\<rparr>) (app_crawl_status S)\<rparr>) u rq) = fst (serve E S u rq) \<and>
    ((rq_path rq, rq_method rq) \<in> surfaces \<and> \<not> isl (rq_node_id rq) \<and> \<not> isl (rq_query rq) \<and> \<not> isl (rq_form rq) \<and> \<not> isl (rq_body rq)
      \<longrightarrow> status (fst (serve E S u rq)) \<in> {401, 403})"
proof -
  obtain r where r: "check_oauth2_bearer E S (rq_headers rq) = Inl r" "status r \<in> {401, 403}"
    using gate_closed [OF assms] by blast
  let ?S = "S\<lparr>app_crawl_status := map_option (\<lambda>c. c\<lparr>status_participants := []\<rparr>) (app_crawl_status S)\<rparr>"
  let ?u = "u\<lparr>su_store := db, su_joined := joined, su_wait := wait\<rparr>"
  have same: "handle E S ?u rq h = handle E S u rq h \<and> snd (handle E S u rq h) = S \<and>
      handle E ?S u rq h = (fst (handle E S u rq h), ?S)" for h
  proof (cases "h = Ready")
    case True
    then show ?thesis using ready_refused [OF r(1) assms(1)] by simp
  next
    case False
    note h = handle_refused [OF r(1) False]
    show ?thesis using h(1) [of u] h(2) [of _ u] h(3) by (metis snd_conv)
  qed
  have refused: "status (fst (handle E S u rq h)) \<in> {401, 403}"
    if "h \<in> {GetCatalog, SparqlGet, SparqlPost, CatalogRequestRoute}" "\<not> isl (rq_node_id rq)" "\<not> isl (rq_query rq)"
      "\<not> isl (rq_form rq)" "\<not> isl (rq_body rq)" for h
    using that r by (auto simp: sparql_route_get_def sparql_route_post_def sparql_route_def sparql_admit_def get_catalog_def
        catalog_request_route_def split: sum.splits)
  have surface: "status (fst (serve E S u rq)) \<in> {401, 403}"
    if at: "(rq_path rq, rq_method rq) \<in> surfaces" and wf: "\<not> isl (rq_node_id rq)" "\<not> isl (rq_query rq)" "\<not> isl (rq_form rq)" "\<not> isl (rq_body rq)"
  proof -
    obtain ms h where h: "map_of build_router (rq_path rq) = Some ms"
      "map_of ms (if rq_method rq = HEAD then GET else rq_method rq) = Some h" "h \<in> {GetCatalog, SparqlGet, SparqlPost, CatalogRequestRoute}"
      using at by (auto simp: surfaces_def build_router_def)
    have "status (fst (serve E S u rq)) = status (fst (handle E S u rq h))"
      by (simp add: serve_def h(1,2) case_prod_beta)
    then show ?thesis using refused [OF h(3) wf] by simp
  qed
  have "serve E S ?u rq = serve E S u rq \<and> snd (serve E S u rq) = S \<and> fst (serve E ?S u rq) = fst (serve E S u rq)"
  proof (cases "map_of build_router (rq_path rq)")
    case (Some ms)
    then show ?thesis using same
      by (cases "map_of ms (if rq_method rq = HEAD then GET else rq_method rq)") (simp_all add: serve_def case_prod_beta)
  qed (simp add: serve_def)
  then show ?thesis using surface by blast
qed

definition sample_request :: request where
  "sample_request = \<lparr>rq_method = HEAD, rq_path = ''/catalog'', rq_headers = (\<lambda>_. None), rq_node_id = Inr None, rq_query = Inr None,
     rq_form = Inr None, rq_body = Inr []\<rparr>"

theorem router_hides_everything_witness:
  "status (fst (serve sample_env gated_state \<lparr>su_store = sample_db sample_catalog, su_joined = True, su_wait = \<lambda>_ _. Panicked,
     su_get = (\<lambda>_. TransportError []), su_clocks = (0, 0, 0), su_jti = [], su_now = 0\<rparr> sample_request)) \<in> {401, 403}"
proof -
  have g: "app_oauth2 gated_state = Some sample_verifier" by (simp add: gated_state_def with_sparql_limits_def)
  have b: "bearer_token (rq_headers sample_request) = Some token \<Longrightarrow> verify (env_jwt sample_env) sample_verifier token \<noteq> Inr claims" for token claims
    by (simp add: sample_request_def bearer_token_def)
  have s: "(rq_path sample_request, rq_method sample_request) \<in> surfaces" "\<not> isl (rq_node_id sample_request)"
    "\<not> isl (rq_query sample_request)" "\<not> isl (rq_form sample_request)" "\<not> isl (rq_body sample_request)"
    by (simp_all add: sample_request_def surfaces_def)
  show ?thesis using router_hides_everything [OF g b] s by blast
qed

end
