(* ===== verification/Spec2Isabelle.thy ===== *)
theory Spec2Isabelle
  imports Policy_Engine Lifecycle Router
begin

text \<open>
  A verification development for the semantic catalog broker \<open>ds-catalog-broker-rs\<close>.

  The program. The broker crawls the DSP catalogs of the participants it is configured for (crate \<open>crawler\<close>), presenting
  a credential where a participant asks for one (\<open>dcp-core\<close>, \<open>crawler/src/oid4vp.rs\<close>), keeps each participant's
  catalog as one named graph of an RDF store (\<open>rdf-store\<close>), and serves the store over HTTP: \<open>GET /catalog\<close>,
  \<open>/sparql\<close> and a management API (\<open>ds-catalog-broker-rs/src/routes\<close>). With OAuth2 configured a caller needs a token
  (\<open>oauth2.rs\<close>), and what a caller sees is what the harvested ODRL policies allow (\<open>odrl_filter.rs\<close>,
  \<open>routes/policy.rs\<close>). The types are in \<open>catalog-core\<close>. The crate \<open>policy-engine\<close> is a second, stand-alone decision
  engine. All paths below are under \<open>src/crates\<close>.

  How the parts meet. Configuration and startup give the participants, the limits, the holder identity and the gate
  (\<open>Broker_Config\<close>, \<open>Startup\<close>); the process runs crawl cycles until it is told to stop (\<open>Lifecycle\<close>). A cycle
  fetches, parses and stores (\<open>Crawl_Fetch\<close>, \<open>Crawl_Parse\<close>, \<open>Catalog_Store\<close>, composed in \<open>Crawl_Cycle\<close>, \<open>Harvester\<close>
  and \<open>Harvest_Store\<close>). A request is routed and passes the gate (\<open>Router\<close>, \<open>Routes\<close>, \<open>Oauth2\<close>), the policy filter decides what is visible
  (\<open>Odrl_Filter\<close>, \<open>Catalog_Policy\<close>), and the store is read whole (\<open>Catalog_Offers\<close>) or through a restricted view
  (\<open>Sparql_View\<close>, \<open>Sparql_Query\<close>, \<open>Sparql_Consistency\<close>).

  Conventions. A Rust string is the list of its UTF-8 bytes; a fallible function returns a sum with the error on the left, and a panic is an
  error too; a \<open>BTreeMap\<close> is a key-ordered entry list; a \<open>HashMap\<close> whose order is not observed is an entry list with
  distinct keys; \<open>i64\<close> and \<open>u64\<close> are words of 64 bits where they can wrap (list positions, the write sequence,
  the cycle counter); times are milliseconds. Logging is left out.
\<close>

section \<open>Theories and sources\<close>

text \<open>
  \<^item> \<open>Prelude\<close>: results, Rust's string operations on UTF-8 bytes (\<open>trim\<close>, \<open>split\<close>, \<open>chars().take\<close>), decimals, ordered
    maps, stable sorting; the collection \<open>result_simps\<close>.
  \<^item> \<open>Json\<close>, \<open>Json_Text\<close>: \<open>serde_json::Value\<close> and its accessors; a text form with a verified reader that
    witnesses use where the program only needs a printer and a parser that agree.
  \<^item> \<open>Net_Http\<close>: loopback addresses, and replies read in chunks up to a limit.
  \<^item> \<open>Catalog_Core\<close>: \<open>catalog-core/src/lib.rs\<close>.
  \<^item> \<open>Policy_Engine\<close>: \<open>policy-engine/src/lib.rs\<close> and the entry point of \<open>ffi.rs\<close>. The loops are the four
    documented steps, and an answer to allow survives further claims.
  \<^item> \<open>Odrl_Filter\<close>: \<open>ds-catalog-broker-rs/src/odrl_filter.rs\<close>. Policies are mapped to the engine's form exactly or
    not at all; a marker of unreadable content never grants anything; the visibility of a dataset is
    characterized offer by offer.
  \<^item> \<open>Crawl_Parse\<close>: \<open>parse_catalog_response\<close> of \<open>crawler/src/lib.rs\<close> and everything below it. Nothing unreadable is
    dropped, and what is parsed can be stored.
  \<^item> \<open>Rdf_Terms\<close>, \<open>Rdf_Write\<close>, \<open>Rdf_Read\<close>: \<open>rdf-store/src/oxigraph_backend\<close> (\<open>vocab.rs\<close>, \<open>iris.rs\<close>, \<open>write.rs\<close>,
    \<open>read.rs\<close>). \<open>Rdf_Roundtrip\<close> and \<open>Rdf_Minted\<close>: what was written is read back, in order, from any graph
    with the same triples, and every minted IRI is valid. \<open>Percent_Codec\<close> interprets the locale \<open>iri_codec\<close> on RFC 3986.
  \<^item> \<open>Catalog_Store\<close>: \<open>cache.rs\<close> as the locale \<open>catalog_cache\<close>, and \<open>oxigraph_backend/mod.rs\<close> as its implementation.
    \<open>Crawl_To_Store\<close>: the store refines a map from nodes to catalogs, pages are slices of it, and a crawled
    catalog is served as parsed.
  \<^item> \<open>Write_Sequence\<close>: the counter of \<open>WriteSequenceGuard\<close>, odd while a write is open.
  \<^item> \<open>Sparql_View\<close>, \<open>Sparql_Query\<close>, \<open>Sparql_Consistency\<close>: \<open>oxigraph_backend/sparql.rs\<close>. What a restricted lookup
    returns; the retry loop with its caches; every answer belongs to one store state, under an allow-list
    decided on that state.
  \<^item> \<open>Crawl_Config\<close>: \<open>crawler/src/config.rs\<close>. \<open>Dcp_Core\<close>, \<open>Dcp_Holder\<close>: \<open>dcp-core/src/lib.rs\<close>; only callers a
    token was minted for are answered.
  \<^item> \<open>Crawl_Fetch\<close>: \<open>crawl_one\<close> and \<open>oid4vp.rs\<close>. \<open>Crawl_Cycle\<close>: \<open>crawl_once\<close> under every interleaving, over the locale
    \<open>cache_writes\<close>. \<open>Harvester\<close>: \<open>run_cycle\<close>, expiry and \<open>status.rs\<close>. \<open>Harvest_Store\<close>: the locale interpreted on
    the store under any storage fault, and what is served and reported in every reachable state.
  \<^item> \<open>Catalog_Policy\<close>: \<open>routes/policy.rs\<close>; \<open>/sparql\<close> shows what \<open>GET /catalog\<close> shows. \<open>Catalog_Offers\<close>:
    \<open>routes/management.rs\<close>; its documents fit the client, lose no restriction and are not nested too deep.
  \<^item> \<open>Oauth2\<close>: \<open>oauth2.rs\<close>; what an accepted token proves.
  \<^item> \<open>Routes\<close>: \<open>state.rs\<close> and \<open>routes/\<close> (\<open>auth\<close>, \<open>catalog\<close>, \<open>sparql\<close>, \<open>management\<close>, \<open>holder\<close>, \<open>ready\<close>, \<open>mod\<close>). The gate hides everything,
    the slots bound the evaluations.
  \<^item> \<open>Router\<close>: \<open>build_router\<close> of \<open>routes/mod.rs\<close> and a whole request; without a verified token no request tells anything.
  \<^item> \<open>Broker_Config\<close>: \<open>config.rs\<close>; an accepted configuration has no property without effect. \<open>Startup\<close>: \<open>main.rs\<close> up to
    the shared state, and \<open>serving.rs\<close>.
  \<^item> \<open>Lifecycle\<close>: the rest of \<open>main.rs\<close>, \<open>signals.rs\<close>, \<open>stop_after\<close> and the loop of \<open>spawn_scheduler\<close>, as a step relation.
\<close>

section \<open>Interfaces\<close>

text \<open>
  \<^item> \<open>iri_codec\<close> (\<open>Rdf_Terms\<close>): what the store relies on of \<open>urlencoding\<close> and \<open>oxiri\<close>. Interpreted in \<open>Percent_Codec\<close>.
  \<^item> \<open>catalog_cache\<close> (\<open>Catalog_Store\<close>): what the trait promises its users. Given by the quad store, for every lawful
    codec.
  \<^item> \<open>cache_writes\<close> (\<open>Crawl_Cycle\<close>): what the harvester relies on when writes may fail. Given by the quad store in
    \<open>Harvest_Store\<close>; the facts on cycles, on expiry and on cycles cut short are proved inside it.
\<close>

section \<open>Parameters\<close>

text \<open>
  Code outside the repository is an argument of the definitions that call it, and what is relied on is a named
  hypothesis, with a witness at a concrete instance:

  \<^item> the record \<open>codec\<close> (crates \<open>urlencoding\<close>, \<open>oxiri\<close>), with the laws of \<open>iri_codec\<close>;
  \<^item> the record \<open>jose\<close> (\<open>base64\<close>, \<open>serde_json\<close>, \<open>p256\<close>), with \<open>jose_ok\<close>: what was encoded decodes, what was signed
    verifies;
  \<^item> the record \<open>jwt_library\<close> (\<open>jsonwebtoken\<close>), with \<open>lawful_decode\<close>: the checks its documentation lists;
  \<^item> the ODRL engine \<open>ds-odrl-engine-rs\<close>, a function of its five constraint constructors and the claims, with the
    behaviour on unmappable markers that the filter needs;
  \<^item> oxigraph: the store is the list of its quads, a transaction replaces it in one step or, on a fault, not at
    all; a parsed query is a tree of lookups, each chosen from the answers before it;
  \<^item> the printer of JSON values, the parsers of URLs, Turtle and request bodies, files, clocks and random ids;
  \<^item> peers: a function from the request to the reply, or an error of the transport.
\<close>

section \<open>Bounds\<close>

text \<open>
  The limits are those of the code: 64 levels of constraint groups when parsing, storing and evaluating; 56 served
  levels and so 122 levels of JSON in a management response, below serde's limit of 128; 16 MiB of a catalog
  response, 1 MiB of a key set, 64 KiB of a DID document; 10,000 outstanding tokens; 64 allow-lists; five attempts of
  a filtered query and two seconds of waiting for a writer. Recursion is structural or on a measure,
  with one exception: the wait for a writer polls the clock, so \<open>await_even\<close> is a partial function, and
  \<open>policy_filtered_returns\<close> proves that a query returns under every clock that reaches the deadline. The reader of
  \<open>Json_Text\<close> has fuel, for which the length of the text is enough. A crawl cycle under any schedule takes two events per participant.
\<close>

section \<open>Not modelled\<close>

text \<open>
  \<^item> Binding the socket, reading and extracting requests, the text of error bodies and the formatting of times: axum,
    tokio and chrono. \<open>Lifecycle\<close> takes from them that a graceful shutdown answers what
    was accepted.
  \<^item> The semaphore of \<open>GET /catalog\<close> decodes and the blocking pool: they delay a request and change no answer. When a
    tick of the crawl interval comes is left open, so the properties hold for every timing.
  \<^item> \<open>SharedCrawlStatus\<close> is a lock around a value that is written once per cycle; the values are modelled.
  \<^item> The allocation of memory for the wasm host in \<open>ffi.rs\<close>; the packing of the result and the fail-closed entry point are
    modelled.
  \<^item> Derived serializers other than those of the management API and the readiness report, tests, examples,
    documentation, container and build files.
\<close>

end
